(* ===== verification/Prelude.thy ===== *)
theory Prelude
  imports Main "HOL-Library.Monad_Syntax" "HOL-Library.Sublist" "HOL-Library.Multiset"
begin

text \<open>
  Shared material of the development: the collections of simplification rules the
  component theories extend, the loop combinator for Go statements that may panic, and
  generic lemmas on lists, options and association lists.

  A Go computation that may end in a run-time panic (an index out of range, a nil
  dereference, a slice bound past the capacity) returns an \<open>option\<close>: \<open>None\<close> is the
  panic and \<open>Some\<close> the normal return. Go \<open>error\<close> values are ordinary results and are
  never conflated with a panic.
\<close>

named_theorems go_string_simps "evaluation rules of the Go string functions"
named_theorems store_simps "abstraction of the record store after an operation"
named_theorems frame_simps "fields an operation leaves unchanged"

section \<open>Loops that may panic\<close>

text \<open>
  \<open>fold_opt f xs s\<close> is \<open>for _, x := range xs { s = f(x, s) }\<close>; the loop panics as soon
  as one iteration does.
\<close>

fun fold_opt :: "('a \<Rightarrow> 's \<Rightarrow> 's option) \<Rightarrow> 'a list \<Rightarrow> 's \<Rightarrow> 's option" where
  "fold_opt f [] s = Some s"
| "fold_opt f (x # xs) s = do { s' \<leftarrow> f x s; fold_opt f xs s' }"

text \<open>\<open>map_opt f xs\<close> collects the results of a loop body that may panic.\<close>

fun map_opt :: "('a \<Rightarrow> 'b option) \<Rightarrow> 'a list \<Rightarrow> 'b list option" where
  "map_opt f [] = Some []"
| "map_opt f (x # xs) = do { y \<leftarrow> f x; ys \<leftarrow> map_opt f xs; Some (y # ys) }"

text \<open>A Go slice index: a panic outside the range.\<close>

definition slice_at :: "'a list \<Rightarrow> nat \<Rightarrow> 'a option" where
  "slice_at xs i = (if i < length xs then Some (xs ! i) else None)"

section \<open>Lemmas on the loop combinators\<close>

lemma fold_opt_append:
  "fold_opt f (xs @ ys) s = do { s' \<leftarrow> fold_opt f xs s; fold_opt f ys s' }"
  by (induction xs arbitrary: s) (auto split: bind_splits)

lemma fold_opt_invariant:
  assumes "fold_opt f xs s = Some s'" and "P s"
    and "\<And>x s s'. x \<in> set xs \<Longrightarrow> P s \<Longrightarrow> f x s = Some s' \<Longrightarrow> P s'"
  shows "P s'"
  using assms
proof (induction xs arbitrary: s)
  case Nil
  then show ?case by simp
next
  case (Cons x xs)
  from Cons.prems(1) obtain t where t: "f x s = Some t" "fold_opt f xs t = Some s'"
    by (auto simp: bind_eq_Some_conv)
  have "P t" using Cons.prems(2,3) t(1) by auto
  then show ?case using Cons.IH [OF t(2)] Cons.prems(3) by auto
qed

text \<open>
  A loop whose every step adds a known set to an abstraction of the state adds the union:
  the shape of every record-generating loop.
\<close>

lemma fold_opt_union:
  assumes "fold_opt f xs s = Some s'" and "I s"
    and step: "\<And>x s s'. x \<in> set xs \<Longrightarrow> I s \<Longrightarrow> f x s = Some s' \<Longrightarrow> I s' \<and> a s' = a s \<union> g x"
  shows "I s' \<and> a s' = a s \<union> (\<Union>x\<in>set xs. g x)"
  using assms
proof (induction xs arbitrary: s)
  case Nil
  then show ?case by simp
next
  case (Cons x xs)
  from Cons.prems(1) obtain t where t: "f x s = Some t" "fold_opt f xs t = Some s'"
    by (auto simp: bind_eq_Some_conv)
  have 1: "I t \<and> a t = a s \<union> g x" using Cons.prems(2,3) t(1) by auto
  then have "I s' \<and> a s' = a t \<union> (\<Union>x\<in>set xs. g x)"
    using Cons.IH [OF t(2)] Cons.prems(3) by auto
  with 1 show ?case by auto
qed

lemma fold_opt_total:
  assumes "\<And>x s. x \<in> set xs \<Longrightarrow> \<exists>s'. f x s = Some s'"
  shows "\<exists>s'. fold_opt f xs s = Some s'"
  using assms
proof (induction xs arbitrary: s)
  case Nil
  then show ?case by simp
next
  case (Cons x xs)
  then obtain t where "f x s = Some t" by (meson list.set_intros(1))
  then show ?case using Cons by simp
qed

lemma map_opt_Some_conv:
  "map_opt f xs = Some ys \<longleftrightarrow> list_all2 (\<lambda>x y. f x = Some y) xs ys"
proof (induction xs arbitrary: ys)
  case Nil
  then show ?case by auto
next
  case (Cons x xs)
  then show ?case by (cases ys) (auto simp: bind_eq_Some_conv)
qed

lemma map_opt_all_Some: "(\<And>x. x \<in> set xs \<Longrightarrow> f x = Some (g x)) \<Longrightarrow> map_opt f xs = Some (map g xs)"
  by (induction xs) auto

lemma map_opt_map: "map_opt f (map g xs) = map_opt (\<lambda>x. f (g x)) xs"
  by (induction xs) auto

lemma map_opt_total: "(\<And>x. x \<in> set xs \<Longrightarrow> \<exists>y. f x = Some y) \<Longrightarrow> \<exists>ys. map_opt f xs = Some ys"
  by (induction xs) fastforce+

section \<open>Lemmas on lists\<close>

lemma dropWhile_eq_self: "(xs = [] \<or> \<not> P (hd xs)) \<Longrightarrow> dropWhile P xs = xs"
  by (cases xs) auto

lemma hd_dropWhile_not: "dropWhile P xs \<noteq> [] \<Longrightarrow> \<not> P (hd (dropWhile P xs))"
  by (rule hd_dropWhile)

lemma set_mono_dropWhile: "set (dropWhile P xs) \<subseteq> set xs"
  by (auto dest: set_dropWhileD)

lemma UN_set_concat_map:
  "(\<Union>r\<in>set (concat (map (\<lambda>y. map (g y) xs) ys)). N r) = (\<Union>x\<in>set xs. \<Union>y\<in>set ys. N (g y x))"
  by auto

lemma list_all2_rightD: "list_all2 P xs ys \<Longrightarrow> y \<in> set ys \<Longrightarrow> \<exists>x\<in>set xs. P x y"
  by (induction xs ys rule: list_all2_induct) auto

lemma list_all2_leftD: "list_all2 P xs ys \<Longrightarrow> x \<in> set xs \<Longrightarrow> \<exists>y\<in>set ys. P x y"
  by (induction xs ys rule: list_all2_induct) auto

end
