(* ===== verification/Go_Strings.thy ===== *)
theory Go_Strings
  imports Prelude "HOL-Library.Char_ord"
begin

text \<open>
  The functions of Go's packages \<open>strings\<close>, \<open>bytes\<close> and \<open>strconv\<close> the program calls, on
  byte strings (a Go \<open>string\<close> is a sequence of bytes, here a \<open>char list\<close>). Case mapping
  and white space are those of the ASCII range; bytes above 127 are kept as they are.
\<close>

section \<open>Searching, splitting and joining\<close>

text \<open>\<open>strings.Index\<close>, with \<open>None\<close> for \<open>-1\<close>.\<close>

fun Index :: "string \<Rightarrow> string \<Rightarrow> nat option" where
  "Index [] sub = (if sub = [] then Some 0 else None)"
| "Index (c # cs) sub =
     (if prefix sub (c # cs) then Some 0 else map_option Suc (Index cs sub))"

lemma Index_bound: "Index s sub = Some i \<Longrightarrow> i + length sub \<le> length s"
proof (induction s arbitrary: i)
  case Nil
  then show ?case by (auto split: if_splits)
next
  case (Cons c cs)
  then show ?case by (auto split: if_splits dest: prefix_length_le)
qed

lemma Index_split: "Index s sub = Some i \<Longrightarrow> s = take i s @ sub @ drop (i + length sub) s"
proof (induction s arbitrary: i)
  case Nil
  then show ?case by (auto split: if_splits)
next
  case (Cons c cs)
  show ?case
  proof (cases "prefix sub (c # cs)")
    case True
    with Cons.prems have "i = 0" by (cases "sub = []") auto
    with True show ?thesis by (auto simp: prefix_def)
  next
    case False
    with Cons.prems obtain j where "i = Suc j" "Index cs sub = Some j" by auto
    then show ?thesis using Cons.IH by simp
  qed
qed

lemma Index_shrinks: "Index s sub = Some i \<Longrightarrow> sub \<noteq> [] \<Longrightarrow> length s - (i + length sub) < length s"
  using Index_bound [of s sub i] by (cases sub) auto

text \<open>
  \<open>strings.Split\<close>: the pieces between the separators, one piece when there is none. With
  an empty separator Go explodes the string.
\<close>

function Split :: "string \<Rightarrow> string \<Rightarrow> string list" where
  "Split s sep =
     (if sep = [] then map (\<lambda>c. [c]) s
      else case Index s sep of
        None \<Rightarrow> [s]
      | Some i \<Rightarrow> take i s # Split (drop (i + length sep) s) sep)"
  by pat_completeness auto
termination
  by (relation "measure (\<lambda>(s, sep). length s)") (auto intro: Index_shrinks)

declare Split.simps [simp del]

text \<open>\<open>strings.SplitN(s, sep, n)\<close> for a non-negative \<open>n\<close>.\<close>

fun SplitN :: "string \<Rightarrow> string \<Rightarrow> nat \<Rightarrow> string list" where
  "SplitN s sep 0 = []"
| "SplitN s sep (Suc 0) = [s]"
| "SplitN s sep (Suc (Suc n)) =
     (case Index s sep of
        None \<Rightarrow> [s]
      | Some i \<Rightarrow> take i s # SplitN (drop (i + length sep) s) sep (Suc n))"

text \<open>\<open>strings.Join\<close>.\<close>

fun Join :: "string list \<Rightarrow> string \<Rightarrow> string" where
  "Join [] sep = []"
| "Join [x] sep = x"
| "Join (x # y # ys) sep = x @ sep @ Join (y # ys) sep"

text \<open>\<open>strings.Contains\<close>, \<open>strings.HasPrefix\<close>, \<open>strings.HasSuffix\<close>.\<close>

definition Contains :: "string \<Rightarrow> string \<Rightarrow> bool" where
  "Contains s sub \<longleftrightarrow> Index s sub \<noteq> None"

definition HasPrefix :: "string \<Rightarrow> string \<Rightarrow> bool" where
  "HasPrefix s p \<longleftrightarrow> prefix p s"

definition HasSuffix :: "string \<Rightarrow> string \<Rightarrow> bool" where
  "HasSuffix s p \<longleftrightarrow> suffix p s"

text \<open>\<open>strings.Replace(s, old, new, -1)\<close> for a non-empty \<open>old\<close>: every occurrence, from the left.\<close>

definition ReplaceAll :: "string \<Rightarrow> string \<Rightarrow> string \<Rightarrow> string" where
  "ReplaceAll s old new = Join (Split s old) new"

section \<open>Case and trimming\<close>

abbreviation byte :: "char \<Rightarrow> nat" where
  "byte c \<equiv> of_char c"

definition byte_lower :: "char \<Rightarrow> char" where
  "byte_lower c = (if 65 \<le> byte c \<and> byte c \<le> 90 then char_of (byte c + 32 :: nat) else c)"

definition ToLower :: "string \<Rightarrow> string" where
  "ToLower s = map byte_lower s"

definition TrimLeft :: "string \<Rightarrow> string \<Rightarrow> string" where
  "TrimLeft s cutset = dropWhile (\<lambda>c. c \<in> set cutset) s"

definition TrimRight :: "string \<Rightarrow> string \<Rightarrow> string" where
  "TrimRight s cutset = rev (dropWhile (\<lambda>c. c \<in> set cutset) (rev s))"

definition TrimBoth :: "string \<Rightarrow> string \<Rightarrow> string" where
  "TrimBoth s cutset = TrimRight (TrimLeft s cutset) cutset"

definition TrimSpace :: "string \<Rightarrow> string" where
  "TrimSpace s = TrimBoth s [CHR 0x09, CHR 0x0A, CHR 0x0B, CHR 0x0C, CHR 0x0D, CHR '' '']"

section \<open>Decimal numbers\<close>

text \<open>\<open>strconv.Itoa\<close>.\<close>

fun digits :: "nat \<Rightarrow> string" where
  "digits n = (if n < 10 then [char_of (48 + n)] else digits (n div 10) @ [char_of (48 + n mod 10)])"

declare digits.simps [simp del]

definition Itoa :: "int \<Rightarrow> string" where
  "Itoa i = (if i < 0 then CHR ''-'' # digits (nat (- i)) else digits (nat i))"

text \<open>
  \<open>strconv.Atoi\<close> on a 64-bit platform: the value and whether \<open>err\<close> is nil. A syntax error
  yields 0, a range error the nearest bound. \<open>ParseUint\<close> stops at the first character
  that is not a digit or that takes the value past \<open>2^64 - 1\<close>, whichever comes first.
\<close>

datatype num_error = ErrSyntax | ErrRange

abbreviation is_digit :: "char \<Rightarrow> bool" where
  "is_digit c \<equiv> 48 \<le> byte c \<and> byte c \<le> 57"

abbreviation digit_val :: "char \<Rightarrow> int" where
  "digit_val c \<equiv> of_char c - 48"

definition max_uint64 :: int where "max_uint64 = 18446744073709551615"
definition max_int64 :: int where "max_int64 = 9223372036854775807"

fun parse_digits :: "int \<Rightarrow> string \<Rightarrow> num_error + int" where
  "parse_digits n [] = Inr n"
| "parse_digits n (c # cs) =
     (if \<not> is_digit c then Inl ErrSyntax
      else if n * 10 + digit_val c > max_uint64 then Inl ErrRange
      else parse_digits (n * 10 + digit_val c) cs)"

definition ParseUint :: "string \<Rightarrow> num_error + int" where
  "ParseUint s = (if s = [] then Inl ErrSyntax else parse_digits 0 s)"

definition signed_result :: "bool \<Rightarrow> num_error + int \<Rightarrow> int \<times> num_error option" where
  "signed_result neg r =
     (case r of
        Inl ErrSyntax \<Rightarrow> (0, Some ErrSyntax)
      | Inl ErrRange \<Rightarrow> (if neg then (- max_int64 - 1, Some ErrRange) else (max_int64, Some ErrRange))
      | Inr un \<Rightarrow>
          if \<not> neg \<and> un > max_int64 then (max_int64, Some ErrRange)
          else if neg \<and> un > max_int64 + 1 then (- max_int64 - 1, Some ErrRange)
          else (if neg then - un else un, None))"

definition Atoi :: "string \<Rightarrow> int \<times> num_error option" where
  "Atoi s =
     (case s of
        [] \<Rightarrow> (0, Some ErrSyntax)
      | c # cs \<Rightarrow>
          if c = CHR ''+'' then signed_result False (ParseUint cs)
          else if c = CHR ''-'' then signed_result True (ParseUint cs)
          else signed_result False (ParseUint s))"

section \<open>Lemmas: one-byte separators\<close>

lemma Index_single_Cons:
  "Index (x # xs) [c] = (if x = c then Some 0 else map_option Suc (Index xs [c]))"
  by auto

lemma Index_single_None: "Index s [c] = None \<longleftrightarrow> c \<notin> set s"
  by (induction s) auto

lemma Split_Nil [simp, go_string_simps]: "Split [] [c] = [[]]"
  by (subst Split.simps) simp

lemma Split_not_Nil [simp]: "sep \<noteq> [] \<Longrightarrow> Split s sep \<noteq> []"
  by (subst Split.simps) (auto split: option.splits)

lemma Split_Cons [simp, go_string_simps]:
  "Split (x # xs) [c] =
     (if x = c then [] # Split xs [c] else (x # hd (Split xs [c])) # tl (Split xs [c]))"
proof (cases "x = c")
  case True
  then show ?thesis by (subst Split.simps) simp
next
  case False
  then show ?thesis
    by (subst (1 2 3) Split.simps) (auto split: option.splits)
qed

lemma Split_hd_tl: "hd (Split s [c]) # tl (Split s [c]) = Split s [c]"
  by simp

lemma Split_no_sep: "c \<notin> set s \<Longrightarrow> Split s [c] = [s]"
  by (induction s) auto

lemma Split_append:
  "c \<notin> set a \<Longrightarrow> Split (a @ c # b) [c] = a # Split b [c]"
  by (induction a) auto

lemma Split_parts_no_sep: "p \<in> set (Split s [c]) \<Longrightarrow> c \<notin> set p"
proof (induction s arbitrary: p)
  case Nil
  then show ?case by simp
next
  case (Cons x xs)
  have hd: "hd (Split xs [c]) \<in> set (Split xs [c])" by (rule hd_in_set) simp
  show ?case
  proof (cases "x = c")
    case True
    with Cons show ?thesis by auto
  next
    case False
    with Cons.prems consider "p = x # hd (Split xs [c])" | "p \<in> set (tl (Split xs [c]))" by auto
    then show ?thesis
    proof cases
      case 1
      with Cons.IH [OF hd] False show ?thesis by auto
    next
      case 2
      then have "p \<in> set (Split xs [c])" by (metis Split_hd_tl list.set_intros(2))
      then show ?thesis by (rule Cons.IH)
    qed
  qed
qed

lemma Split_parts_subset: "p \<in> set (Split s [c]) \<Longrightarrow> set p \<subseteq> set s"
proof (induction s arbitrary: p)
  case Nil
  then show ?case by simp
next
  case (Cons x xs)
  have h: "set (hd (Split xs [c])) \<subseteq> set xs"
    by (rule Cons.IH, rule hd_in_set) simp
  have t: "set q \<subseteq> set xs" if "q \<in> set (tl (Split xs [c]))" for q
    using Cons.IH [of q] that by (metis Split_hd_tl list.set_intros(2))
  show ?case
  proof (cases "x = c")
    case True
    with Cons show ?thesis by auto
  next
    case False
    with Cons.prems h t show ?thesis by auto
  qed
qed

lemma Join_Cons: "xs \<noteq> [] \<Longrightarrow> Join (x # xs) sep = x @ sep @ Join xs sep"
  by (cases xs) auto

lemma Join_hd_Cons: "xs \<noteq> [] \<Longrightarrow> Join ((x # hd xs) # tl xs) sep = x # Join xs sep"
  by (cases xs; cases "tl xs") auto

lemma Join_Split: "Join (Split s [c]) [c] = s"
  by (induction s) (auto simp: Join_Cons Join_hd_Cons)

lemma Split_Join:
  "xs \<noteq> [] \<Longrightarrow> (\<And>x. x \<in> set xs \<Longrightarrow> c \<notin> set x) \<Longrightarrow> Split (Join xs [c]) [c] = xs"
proof (induction xs rule: list_nonempty_induct)
  case (single x)
  then show ?case by (simp add: Split_no_sep)
next
  case (cons x xs)
  then show ?case by (simp add: Join_Cons Split_append)
qed

lemma set_Join: "set (Join xs sep) \<subseteq> (\<Union>x\<in>set xs. set x) \<union> set sep"
  by (induction xs sep rule: Join.induct) auto

lemma SplitN_2: "SplitN s [c] 2 = (if c \<in> set s then [takeWhile (\<lambda>x. x \<noteq> c) s, tl (dropWhile (\<lambda>x. x \<noteq> c) s)] else [s])"
proof -
  have "SplitN s [c] 2 = (case Index s [c] of None \<Rightarrow> [s] | Some i \<Rightarrow> [take i s, drop (Suc i) s])"
    by (simp add: numeral_2_eq_2 split: option.split)
  also have "\<dots> = (if c \<in> set s then [takeWhile (\<lambda>x. x \<noteq> c) s, tl (dropWhile (\<lambda>x. x \<noteq> c) s)] else [s])"
    by (induction s) (auto split: option.splits if_splits)
  finally show ?thesis .
qed

lemma ReplaceAll_absent: "Index s old = None \<Longrightarrow> old \<noteq> [] \<Longrightarrow> ReplaceAll s old new = s"
  by (subst ReplaceAll_def, subst Split.simps) simp

section \<open>Lemmas: trimming and case\<close>

lemma TrimLeft_Nil [simp]: "TrimLeft [] cs = []"
  by (simp add: TrimLeft_def)

lemma TrimRight_Nil [simp]: "TrimRight [] cs = []"
  by (simp add: TrimRight_def)

lemma TrimLeft_id: "s = [] \<or> hd s \<notin> set cs \<Longrightarrow> TrimLeft s cs = s"
  by (cases s) (auto simp: TrimLeft_def)

lemma TrimRight_id: "s = [] \<or> last s \<notin> set cs \<Longrightarrow> TrimRight s cs = s"
  by (cases s rule: rev_cases) (auto simp: TrimRight_def)

lemma TrimLeft_hd: "TrimLeft s cs \<noteq> [] \<Longrightarrow> hd (TrimLeft s cs) \<notin> set cs"
  using hd_dropWhile [of "\<lambda>c. c \<in> set cs" s] by (simp add: TrimLeft_def)

lemma TrimRight_last: "TrimRight s cs \<noteq> [] \<Longrightarrow> last (TrimRight s cs) \<notin> set cs"
  using hd_dropWhile [of "\<lambda>c. c \<in> set cs" "rev s"]
  by (simp add: TrimRight_def last_rev)

lemma TrimRight_prefix: "prefix (TrimRight s cs) s"
proof -
  have "s = rev (takeWhile (\<lambda>c. c \<in> set cs) (rev s) @ dropWhile (\<lambda>c. c \<in> set cs) (rev s))"
    by simp
  then have "s = TrimRight s cs @ rev (takeWhile (\<lambda>c. c \<in> set cs) (rev s))"
    by (metis TrimRight_def rev_append)
  then show ?thesis by (metis prefixI)
qed

lemma TrimRight_hd: "TrimRight s cs \<noteq> [] \<Longrightarrow> hd (TrimRight s cs) = hd s"
  using TrimRight_prefix [of s cs] by (metis hd_append2 prefix_def)

lemma set_TrimLeft: "set (TrimLeft s cs) \<subseteq> set s"
  by (simp add: TrimLeft_def set_mono_dropWhile)

lemma set_TrimRight: "set (TrimRight s cs) \<subseteq> set s"
  using set_mono_dropWhile [of _ "rev s"] by (simp add: TrimRight_def)

lemma length_TrimLeft: "length (TrimLeft s cs) \<le> length s"
  by (simp add: TrimLeft_def length_dropWhile_le)

lemma length_TrimRight: "length (TrimRight s cs) \<le> length s"
  using length_dropWhile_le [of _ "rev s"] by (simp add: TrimRight_def)

lemma TrimRight_nonempty: "s \<noteq> [] \<Longrightarrow> hd s \<notin> set cs \<Longrightarrow> TrimRight s cs \<noteq> []"
  by (cases s) (auto simp: TrimRight_def dropWhile_append)

lemma byte_char_of [simp]: "n < 256 \<Longrightarrow> byte (char_of n) = n"
  by simp

lemma int_char_of [simp]: "n < 256 \<Longrightarrow> of_char (char_of n :: char) = int n" for n :: nat
  by (metis byte_char_of of_nat_of_char)

lemma byte_bound: "byte c < 256"
  by simp

lemma byte_lower_idem [simp]: "byte_lower (byte_lower c) = byte_lower c"
  by (auto simp: byte_lower_def)

lemma ToLower_idem [simp]: "ToLower (ToLower s) = ToLower s"
  by (simp add: ToLower_def)

lemma ToLower_append: "ToLower (a @ b) = ToLower a @ ToLower b"
  by (simp add: ToLower_def)

lemma ToLower_length [simp]: "length (ToLower s) = length s"
  by (simp add: ToLower_def)

section \<open>Lemmas: decimal numbers\<close>

lemma digits_not_Nil [simp]: "digits n \<noteq> []"
  by (subst digits.simps) simp

lemma digits_are_digits: "c \<in> set (digits n) \<Longrightarrow> is_digit c"
proof (induction n rule: digits.induct)
  case (1 n)
  show ?case
  proof (cases "n < 10")
    case True
    with "1.prems" show ?thesis by (simp add: digits.simps [of n])
  next
    case False
    with "1.prems" consider "c \<in> set (digits (n div 10))" | "c = char_of (48 + n mod 10)"
      by (auto simp: digits.simps [of n])
    then show ?thesis
    proof cases
      case 1
      with "1.IH" False show ?thesis by simp
    next
      case 2
      moreover have "n mod 10 < 10" by simp
      ultimately show ?thesis by (simp del: mod_less_divisor)
    qed
  qed
qed

lemma parse_digits_append:
  "parse_digits n (xs @ ys) = (case parse_digits n xs of Inl e \<Rightarrow> Inl e | Inr k \<Rightarrow> parse_digits k ys)"
  by (induction xs arbitrary: n) auto

lemma parse_digits_digits: "int m \<le> max_uint64 \<Longrightarrow> parse_digits 0 (digits m) = Inr (int m)"
proof (induction m rule: digits.induct)
  case (1 m)
  show ?case
  proof (cases "m < 10")
    case True
    with "1.prems" show ?thesis by (simp add: digits.simps [of m] max_uint64_def)
  next
    case False
    let ?d = "m mod 10"
    have d: "?d < 10" by simp
    have dv: "digit_val (char_of (48 + ?d)) = int ?d"
      using d by (simp add: of_char_of)
    have isd: "is_digit (char_of (48 + ?d))" using d by simp
    have split: "int (m div 10) * 10 + int ?d = int m" by presburger
    have "int (m div 10) \<le> max_uint64" using "1.prems" by linarith
    then have "parse_digits 0 (digits (m div 10)) = Inr (int (m div 10))"
      using "1.IH" False by simp
    then show ?thesis
      using False "1.prems" dv isd split by (simp add: digits.simps [of m] parse_digits_append)
  qed
qed

lemma hd_digits_not_sign: "hd (digits n) \<noteq> CHR ''+'' \<and> hd (digits n) \<noteq> CHR ''-''"
  using digits_are_digits [of "hd (digits n)" n] by (auto simp: hd_in_set)

text \<open>Printing and reading back every \<open>int\<close> of a 64-bit machine.\<close>

lemma Atoi_Itoa:
  assumes "- max_int64 - 1 \<le> i" and "i \<le> max_int64"
  shows "Atoi (Itoa i) = (i, None)"
proof (cases "i < 0")
  case True
  with assms have "parse_digits 0 (digits (nat (- i))) = Inr (- i)"
    using parse_digits_digits [of "nat (- i)"] by (simp add: max_int64_def max_uint64_def)
  with True assms show ?thesis
    by (simp add: Itoa_def Atoi_def ParseUint_def signed_result_def max_int64_def)
next
  case False
  then have p: "parse_digits 0 (digits (nat i)) = Inr i"
    using assms parse_digits_digits [of "nat i"] by (simp add: max_int64_def max_uint64_def)
  obtain c cs where c: "digits (nat i) = c # cs" by (cases "digits (nat i)") auto
  then have "c \<noteq> CHR ''+''" "c \<noteq> CHR ''-''" using hd_digits_not_sign [of "nat i"] by auto
  with c p False assms show ?thesis
    by (simp add: Itoa_def Atoi_def ParseUint_def signed_result_def max_int64_def)
qed

lemma Itoa_set: "c \<in> set (Itoa i) \<Longrightarrow> is_digit c \<or> c = CHR ''-''"
  using digits_are_digits by (auto simp: Itoa_def split: if_splits)

lemma Itoa_not_Nil [simp]: "Itoa i \<noteq> []"
  by (simp add: Itoa_def)

lemma digits_value: "foldl (\<lambda>v c. 10 * v + (byte c - 48)) 0 (digits n) = n"
proof (induction n rule: digits.induct)
  case (1 n)
  have "48 + n mod 10 < 256" using mod_less_divisor [of 10 n] by linarith
  then show ?case using 1 by (subst digits.simps) (auto simp: of_char_of)
qed

lemma digits_inject: "digits m = digits n \<longleftrightarrow> m = n"
  using digits_value by metis

text \<open>Evaluation of closed numerals by the simplifier.\<close>

lemma char_of_digit [go_string_simps]:
  "char_of (48 :: nat) = CHR ''0''" "char_of (49 :: nat) = CHR ''1''" "char_of (50 :: nat) = CHR ''2''"
  "char_of (51 :: nat) = CHR ''3''" "char_of (52 :: nat) = CHR ''4''" "char_of (53 :: nat) = CHR ''5''"
  "char_of (54 :: nat) = CHR ''6''" "char_of (55 :: nat) = CHR ''7''" "char_of (56 :: nat) = CHR ''8''"
  "char_of (57 :: nat) = CHR ''9''"
  by code_simp+

lemmas Itoa_eval = Itoa_def digits.simps char_of_digit

end
