(* ===== verification/Dns_Message.thy ===== *)
theory Dns_Message
  imports Go_Strings "HOL-Library.Word"
begin

text \<open>
  The DNS messages of the vendored package \<open>miekg/dns\<close> as far as the program reads or writes
  them, and the counters of \<open>logging/logging.go\<close>. Resource records of other types, which
  occur only in forwarded replies, keep their header and an opaque payload.
\<close>

section \<open>Messages\<close>

record RR_Header =
  Hdr_Name :: string
  Hdr_Rrtype :: "16 word"
  Hdr_Class :: "16 word"
  Hdr_Ttl :: "32 word"
  Hdr_Rdlength :: "16 word"

datatype RR =
    SRV_RR RR_Header "16 word" "16 word" "16 word" string  (* Priority, Weight, Port, Target *)
  | A_RR RR_Header "nat list option"
  | SOA_RR RR_Header string string "32 word" "32 word" "32 word" "32 word" "32 word"
      (* Ns, Mbox, Serial, Refresh, Retry, Expire, Minttl *)
  | NS_RR RR_Header string
  | OPT_RR RR_Header
  | Other_RR RR_Header string

fun RR_Hdr :: "RR \<Rightarrow> RR_Header" where
  "RR_Hdr (SRV_RR h _ _ _ _) = h"
| "RR_Hdr (A_RR h _) = h"
| "RR_Hdr (SOA_RR h _ _ _ _ _ _ _) = h"
| "RR_Hdr (NS_RR h _) = h"
| "RR_Hdr (OPT_RR h) = h"
| "RR_Hdr (Other_RR h _) = h"

definition TypeA :: "16 word" where "TypeA = 1"
definition TypeNS :: "16 word" where "TypeNS = 2"
definition TypeSOA :: "16 word" where "TypeSOA = 6"
definition TypeAAAA :: "16 word" where "TypeAAAA = 28"
definition TypeSRV :: "16 word" where "TypeSRV = 33"
definition TypeOPT :: "16 word" where "TypeOPT = 41"
definition TypeANY :: "16 word" where "TypeANY = 255"
definition ClassINET :: "16 word" where "ClassINET = 1"

definition RcodeSuccess :: int where "RcodeSuccess = 0"
definition RcodeServerFailure :: int where "RcodeServerFailure = 2"
definition RcodeNameError :: int where "RcodeNameError = 3"
definition RcodeRefused :: int where "RcodeRefused = 5"
definition OpcodeQuery :: int where "OpcodeQuery = 0"

definition MinMsgSize :: int where "MinMsgSize = 512"
definition MaxMsgSize :: int where "MaxMsgSize = 65535"

record Question =
  Question_Name :: string
  Question_Qtype :: "16 word"
  Question_Qclass :: "16 word"

record Msg =
  Msg_Id :: "16 word"
  Msg_Response :: bool
  Msg_Opcode :: int
  Msg_Authoritative :: bool
  Msg_Truncated :: bool
  Msg_RecursionDesired :: bool
  Msg_RecursionAvailable :: bool
  Msg_Zero :: bool
  Msg_AuthenticatedData :: bool
  Msg_CheckingDisabled :: bool
  Msg_Rcode :: int
  Msg_Compress :: bool
  Msg_Question :: "Question list"
  Msg_Answer :: "RR list"
  Msg_Ns :: "RR list"
  Msg_Extra :: "RR list"

definition new_Msg :: Msg where
  "new_Msg = \<lparr>Msg_Id = 0, Msg_Response = False, Msg_Opcode = 0, Msg_Authoritative = False, Msg_Truncated = False,
     Msg_RecursionDesired = False, Msg_RecursionAvailable = False, Msg_Zero = False, Msg_AuthenticatedData = False,
     Msg_CheckingDisabled = False, Msg_Rcode = 0, Msg_Compress = False,
     Msg_Question = [], Msg_Answer = [], Msg_Ns = [], Msg_Extra = []\<rparr>"

definition SetReply :: "Msg \<Rightarrow> Msg \<Rightarrow> Msg" where
  "SetReply request m = m\<lparr>Msg_Id := Msg_Id request, Msg_RecursionDesired := Msg_RecursionDesired request,
     Msg_Response := True, Msg_Opcode := OpcodeQuery, Msg_Rcode := RcodeSuccess,
     Msg_Question := (case Msg_Question request of [] \<Rightarrow> Msg_Question m | q # _ \<Rightarrow> [q])\<rparr>"

definition SetRcode :: "Msg \<Rightarrow> int \<Rightarrow> Msg \<Rightarrow> Msg" where
  "SetRcode request rcode m = (SetReply request m)\<lparr>Msg_Rcode := rcode\<rparr>"

text \<open>
  \<open>IsEdns0\<close>: the header of the first OPT record, if any. A record with the type code of OPT
  that is not an \<open>*OPT\<close> makes the type assertion panic.
\<close>

definition IsEdns0 :: "Msg \<Rightarrow> RR_Header option option" where
  "IsEdns0 m =
     (case filter (\<lambda>r. Hdr_Rrtype (RR_Hdr r) = TypeOPT) (Msg_Extra m) of
        [] \<Rightarrow> Some None
      | OPT_RR h # _ \<Rightarrow> Some (Some h)
      | _ \<Rightarrow> None)"

definition UDPSize :: "RR_Header \<Rightarrow> 16 word" where
  "UDPSize h = Hdr_Class h"

section \<open>Counters\<close>

record LogOut =
  MesosRequests :: "64 word"
  MesosSuccess :: "64 word"
  MesosNXDomain :: "64 word"
  MesosFailed :: "64 word"
  NonMesosRequests :: "64 word"
  NonMesosSuccess :: "64 word"
  NonMesosNXDomain :: "64 word"
  NonMesosFailed :: "64 word"
  NonMesosForwarded :: "64 word"

definition CurLog :: LogOut where
  "CurLog = \<lparr>MesosRequests = 0, MesosSuccess = 0, MesosNXDomain = 0, MesosFailed = 0, NonMesosRequests = 0,
     NonMesosSuccess = 0, NonMesosNXDomain = 0, NonMesosFailed = 0, NonMesosForwarded = 0\<rparr>"

text \<open>\<open>LogCounter.Inc\<close> adds one modulo \<open>2^64\<close>; \<open>String\<close> prints the register in decimal.\<close>

definition Inc :: "64 word \<Rightarrow> 64 word" where
  "Inc v = v + 1"

definition LogCounter_String :: "64 word \<Rightarrow> string" where
  "LogCounter_String v = Itoa (uint v)"

section \<open>Lemmas\<close>

lemma SetReply_fields [simp]:
  "Msg_Response (SetReply r m)" "Msg_Id (SetReply r m) = Msg_Id r" "Msg_Rcode (SetReply r m) = RcodeSuccess"
  "Msg_Answer (SetReply r m) = Msg_Answer m" "Msg_Ns (SetReply r m) = Msg_Ns m" "Msg_Extra (SetReply r m) = Msg_Extra m"
  "Msg_Authoritative (SetReply r m) = Msg_Authoritative m"
  "Msg_RecursionDesired (SetReply r m) = Msg_RecursionDesired r"
  "Msg_RecursionAvailable (SetReply r m) = Msg_RecursionAvailable m"
  "Msg_Truncated (SetReply r m) = Msg_Truncated m"
  by (simp_all add: SetReply_def)

lemma SetRcode_fields [simp]:
  "Msg_Response (SetRcode r c m)" "Msg_Id (SetRcode r c m) = Msg_Id r" "Msg_Rcode (SetRcode r c m) = c"
  "Msg_Answer (SetRcode r c m) = Msg_Answer m" "Msg_Ns (SetRcode r c m) = Msg_Ns m" "Msg_Extra (SetRcode r c m) = Msg_Extra m"
  by (simp_all add: SetRcode_def)

end
