(* ===== verification/Go_Net.thy ===== *)
theory Go_Net
  imports Go_Strings
begin

text \<open>
  The functions of Go's package \<open>net\<close> the program calls, as in the Go 1.6 library the
  repository is built with: \<open>ParseIP\<close>, \<open>IP.To4\<close>, \<open>IP.String\<close>, \<open>JoinHostPort\<close> and
  \<open>SplitHostPort\<close>. An address is the 16-byte form \<open>ParseIP\<close> returns; the four-byte form
  of IPv4 appears as the result of \<open>To4\<close>.
\<close>

type_synonym IP = "nat list"

section \<open>Parsing addresses\<close>

fun dtoi_loop :: "nat \<Rightarrow> string \<Rightarrow> (nat \<times> string) option" where
  "dtoi_loop n [] = Some (n, [])"
| "dtoi_loop n (c # cs) =
     (if is_digit c then
        let n' = n * 10 + (byte c - 48) in if n' \<ge> 0xFFFFFF then None else dtoi_loop n' cs
      else Some (n, c # cs))"

definition dtoi :: "string \<Rightarrow> (nat \<times> string) option" where
  "dtoi s = (if s \<noteq> [] \<and> is_digit (hd s) then dtoi_loop 0 s else None)"

definition hex_val :: "char \<Rightarrow> nat option" where
  "hex_val c =
     (if is_digit c then Some (byte c - 48)
      else if 97 \<le> byte c \<and> byte c \<le> 102 then Some (byte c - 87)
      else if 65 \<le> byte c \<and> byte c \<le> 70 then Some (byte c - 55)
      else None)"

fun xtoi_loop :: "nat \<Rightarrow> string \<Rightarrow> (nat \<times> string) option" where
  "xtoi_loop n [] = Some (n, [])"
| "xtoi_loop n (c # cs) =
     (case hex_val c of
        None \<Rightarrow> Some (n, c # cs)
      | Some d \<Rightarrow> if n * 16 + d \<ge> 0xFFFFFF then None else xtoi_loop (n * 16 + d) cs)"

definition xtoi :: "string \<Rightarrow> (nat \<times> string) option" where
  "xtoi s = (if s \<noteq> [] \<and> hex_val (hd s) \<noteq> None then xtoi_loop 0 s else None)"

text \<open>The \<open>k\<close> remaining fields of a dotted quad; \<open>first\<close> when no dot is expected.\<close>

fun v4_fields :: "nat \<Rightarrow> bool \<Rightarrow> string \<Rightarrow> nat list option" where
  "v4_fields 0 first s = (if s = [] then Some [] else None)"
| "v4_fields (Suc k) first s =
     (if s = [] then None
      else if \<not> first \<and> hd s \<noteq> CHR ''.'' then None
      else case dtoi (if first then s else tl s) of
        None \<Rightarrow> None
      | Some (n, r) \<Rightarrow> if n > 0xFF then None else map_option ((#) n) (v4_fields k False r))"

definition v4InV6Prefix :: "nat list" where
  "v4InV6Prefix = [0, 0, 0, 0, 0, 0, 0, 0, 0, 0, 255, 255]"

definition parseIPv4 :: "string \<Rightarrow> IP option" where
  "parseIPv4 s = map_option ((@) v4InV6Prefix) (v4_fields 4 True s)"

text \<open>
  The group loop of \<open>parseIPv6\<close>: \<open>k\<close> groups may follow, \<open>acc\<close> the bytes read so far and
  \<open>e\<close> the position of the ellipsis in them.
\<close>

fun v6_loop :: "nat \<Rightarrow> string \<Rightarrow> nat list \<Rightarrow> nat option \<Rightarrow> (string \<times> nat list \<times> nat option) option" where
  "v6_loop 0 s acc e = Some (s, acc, e)"
| "v6_loop (Suc k) s acc e =
     (case xtoi s of
        None \<Rightarrow> None
      | Some (n, r) \<Rightarrow>
          if n > 0xFFFF then None
          else if r \<noteq> [] \<and> hd r = CHR ''.'' then
            (if e = None \<and> length acc \<noteq> 12 then None
             else if length acc + 4 > 16 then None
             else map_option (\<lambda>p. ([], acc @ p, e)) (v4_fields 4 True s))
          else
            let acc' = acc @ [n div 256, n mod 256] in
            if r = [] then Some ([], acc', e)
            else if hd r \<noteq> CHR '':'' \<or> tl r = [] then None
            else if hd (tl r) = CHR '':'' then
              (if e \<noteq> None then None
               else if tl (tl r) = [] then Some ([], acc', Some (length acc'))
               else v6_loop k (tl (tl r)) acc' (Some (length acc')))
            else v6_loop k (tl r) acc' e)"

definition v6_finish :: "string \<times> nat list \<times> nat option \<Rightarrow> IP option" where
  "v6_finish = (\<lambda>(s, acc, e).
     if s \<noteq> [] then None
     else if length acc < 16 then
       (case e of
          None \<Rightarrow> None
        | Some j \<Rightarrow> Some (take j acc @ replicate (16 - length acc) 0 @ drop j acc))
     else if e \<noteq> None then None
     else Some acc)"

definition parseIPv6 :: "string \<Rightarrow> IP option" where
  "parseIPv6 s =
     (if prefix ''::'' s then
        (if length s = 2 then Some (replicate 16 0)
         else Option.bind (v6_loop 8 (drop 2 s) [] (Some 0)) v6_finish)
      else Option.bind (v6_loop 8 s [] None) v6_finish)"

definition ParseIP :: "string \<Rightarrow> IP option" where
  "ParseIP s =
     (case dropWhile (\<lambda>c. c \<noteq> CHR ''.'' \<and> c \<noteq> CHR '':'') s of
        [] \<Rightarrow> None
      | c # _ \<Rightarrow> if c = CHR ''.'' then parseIPv4 s else parseIPv6 s)"

section \<open>Printing addresses\<close>

definition To4 :: "IP \<Rightarrow> nat list option" where
  "To4 ip =
     (if length ip = 4 then Some ip
      else if length ip = 16 \<and> take 12 ip = v4InV6Prefix then Some (drop 12 ip)
      else None)"

fun hex_digits :: "nat \<Rightarrow> string" where
  "hex_digits n =
     (let d = n mod 16; c = char_of (if d < 10 then 48 + d else 87 + d)
      in if n < 16 then [c] else hex_digits (n div 16) @ [c])"

declare hex_digits.simps [simp del]

fun v6_groups :: "nat list \<Rightarrow> nat list" where
  "v6_groups (a # b # bs) = (a * 256 + b) # v6_groups bs"
| "v6_groups _ = []"

definition run_len :: "(nat \<times> nat) option \<Rightarrow> nat" where
  "run_len e = (case e of None \<Rightarrow> 0 | Some (e0, e1) \<Rightarrow> e1 - e0)"

text \<open>The longest run of zero groups, the first one among equals.\<close>

function zero_run :: "nat list \<Rightarrow> nat \<Rightarrow> (nat \<times> nat) option \<Rightarrow> (nat \<times> nat) option" where
  "zero_run gs i e =
     (if i \<ge> length gs then e
      else let n = length (takeWhile (\<lambda>g. g = 0) (drop i gs)) in
        if n > run_len e then zero_run gs (i + n + 1) (Some (i, i + n))
        else zero_run gs (i + 1) e)"
  by pat_completeness auto
termination
  by (relation "measure (\<lambda>(gs, i, e). length gs - i)") auto

declare zero_run.simps [simp del]

function v6_print :: "nat list \<Rightarrow> (nat \<times> nat) option \<Rightarrow> nat \<Rightarrow> string" where
  "v6_print gs e i =
     (if i \<ge> length gs then []
      else case e of
        Some (e0, e1) \<Rightarrow>
          if i = e0 \<and> e0 < e1 then
            ''::'' @ (if e1 \<ge> length gs then [] else hex_digits (gs ! e1) @ v6_print gs e (e1 + 1))
          else (if i > 0 then '':'' else []) @ hex_digits (gs ! i) @ v6_print gs e (i + 1)
      | None \<Rightarrow> (if i > 0 then '':'' else []) @ hex_digits (gs ! i) @ v6_print gs e (i + 1))"
  by pat_completeness auto
termination
  by (relation "measure (\<lambda>(gs, e, i). length gs - i)") auto

declare v6_print.simps [simp del]

definition dotted :: "nat list \<Rightarrow> string" where
  "dotted p = Join (map digits p) ''.''"

definition IP_String :: "IP \<Rightarrow> string" where
  "IP_String ip =
     (if ip = [] then ''<nil>''
      else case To4 ip of
        Some p4 \<Rightarrow> dotted p4
      | None \<Rightarrow>
          if length ip \<noteq> 16 then ''?''
          else
            let gs = v6_groups ip; e = zero_run gs 0 None
            in v6_print gs (if run_len e \<le> 1 then None else e) 0)"

section \<open>Host and port\<close>

definition IndexByte :: "string \<Rightarrow> char \<Rightarrow> nat option" where
  "IndexByte s c = (if c \<in> set s then Some (length (takeWhile (\<lambda>x. x \<noteq> c) s)) else None)"

definition LastIndexByte :: "string \<Rightarrow> char \<Rightarrow> nat option" where
  "LastIndexByte s c =
     (if c \<in> set s then Some (length s - 1 - length (takeWhile (\<lambda>x. x \<noteq> c) (rev s))) else None)"

definition JoinHostPort :: "string \<Rightarrow> string \<Rightarrow> string" where
  "JoinHostPort host port =
     (if CHR '':'' \<in> set host \<or> CHR ''%'' \<in> set host then ''['' @ host @ '']:'' @ port
      else host @ '':'' @ port)"

datatype addr_error = MissingPort | TooManyColons | MissingBrackets | MissingClose | Unexpected char

text \<open>
  \<open>SplitHostPort\<close> returns the host, the port and the error (\<open>None\<close> for nil). Its results are
  named, so on some error exits the host is already set.
\<close>

definition SplitHostPort :: "string \<Rightarrow> string \<times> string \<times> addr_error option" where
  "SplitHostPort hostport =
     (case LastIndexByte hostport (CHR '':'') of
        None \<Rightarrow> ([], [], Some MissingPort)
      | Some i \<Rightarrow>
          let finish = (\<lambda>host j k.
                if CHR ''['' \<in> set (drop j hostport) then (host, [], Some (Unexpected (CHR ''['')))
                else if CHR '']'' \<in> set (drop k hostport) then (host, [], Some (Unexpected (CHR '']'')))
                else (host, drop (i + 1) hostport, None))
          in if hostport \<noteq> [] \<and> hd hostport = CHR ''['' then
               (case IndexByte hostport (CHR '']'') of
                  None \<Rightarrow> ([], [], Some MissingClose)
                | Some e \<Rightarrow>
                    if e + 1 = length hostport then ([], [], Some MissingPort)
                    else if e + 1 = i then finish (take (e - 1) (drop 1 hostport)) 1 (e + 1)
                    else if hostport ! (e + 1) = CHR '':'' then ([], [], Some TooManyColons)
                    else ([], [], Some MissingPort))
             else
               let host = take i hostport in
               if CHR '':'' \<in> set host then (host, [], Some TooManyColons)
               else if CHR ''%'' \<in> set host then (host, [], Some MissingBrackets)
               else finish host 0 0)"

section \<open>Lemmas\<close>

lemma takeWhile_neq_append: "c \<notin> set h \<Longrightarrow> takeWhile (\<lambda>x. x \<noteq> c) (h @ c # r) = h"
  by (induction h) auto

lemma LastIndexByte_append:
  assumes "c \<notin> set p" shows "LastIndexByte (h @ c # p) c = Some (length h)"
proof -
  have "takeWhile (\<lambda>x. x \<noteq> c) (rev p @ c # rev h) = rev p"
    using assms by (simp add: takeWhile_neq_append)
  then show ?thesis by (simp add: LastIndexByte_def)
qed

lemma SplitHostPort_plain:
  assumes "CHR '':'' \<notin> set h" "CHR ''%'' \<notin> set h" "CHR ''['' \<notin> set h" "CHR '']'' \<notin> set h"
    and "CHR '':'' \<notin> set p" "CHR ''['' \<notin> set p" "CHR '']'' \<notin> set p"
  shows "SplitHostPort (h @ CHR '':'' # p) = (h, p, None)"
proof -
  have "hd (h @ CHR '':'' # p) \<noteq> CHR ''[''" using assms by (cases h) auto
  then show ?thesis
    using assms by (simp add: SplitHostPort_def LastIndexByte_append)
qed

lemma SplitHostPort_bracketed:
  assumes "CHR ''['' \<notin> set h" "CHR '']'' \<notin> set h"
    and "CHR '':'' \<notin> set p" "CHR ''['' \<notin> set p" "CHR '']'' \<notin> set p"
  shows "SplitHostPort (''['' @ h @ '']:'' @ p) = (h, p, None)"
proof -
  let ?s = "(CHR ''['' # h @ [CHR '']'']) @ CHR '':'' # p"
  have last: "LastIndexByte ?s (CHR '':'') = Some (length h + 2)"
    using LastIndexByte_append [OF assms(3), of "CHR ''['' # h @ [CHR '']'']"] by simp
  have "takeWhile (\<lambda>x. x \<noteq> CHR '']'') ?s = CHR ''['' # h"
    using assms by (simp add: takeWhile_neq_append)
  then have idx: "IndexByte ?s (CHR '']'') = Some (length h + 1)" by (simp add: IndexByte_def)
  have "SplitHostPort ?s = (h, p, None)"
    using assms by (simp add: SplitHostPort_def last [simplified] idx [simplified])
  then show ?thesis by simp
qed

text \<open>\<open>SplitHostPort\<close> undoes \<open>JoinHostPort\<close>.\<close>

lemma SplitHostPort_JoinHostPort:
  assumes "CHR ''['' \<notin> set h" "CHR '']'' \<notin> set h"
    and "CHR '':'' \<notin> set p" "CHR ''['' \<notin> set p" "CHR '']'' \<notin> set p"
  shows "SplitHostPort (JoinHostPort h p) = (h, p, None)"
  using assms SplitHostPort_plain [of h p] SplitHostPort_bracketed [of h p]
  by (auto simp: JoinHostPort_def)

text \<open>IPv4 addresses are read back from their dotted form.\<close>

lemma dtoi_loop_append:
  assumes "list_all (\<lambda>c. is_digit c) ds"
  shows "dtoi_loop n (ds @ r) = (case dtoi_loop n ds of None \<Rightarrow> None | Some (m, _) \<Rightarrow> dtoi_loop m r)"
  using assms by (induction ds arbitrary: n) (auto simp: Let_def)

lemma dtoi_loop_digits: "m \<le> 255 \<Longrightarrow> dtoi_loop 0 (digits m) = Some (m, [])"
proof (induction m rule: digits.induct)
  case (1 m)
  show ?case
  proof (cases "m < 10")
    case True
    then show ?thesis by (simp add: digits.simps [of m])
  next
    case False
    have d: "m mod 10 < 10" by simp
    have all: "list_all (\<lambda>c. is_digit c) (digits (m div 10))"
      using digits_are_digits [of _ "m div 10"] by (auto simp: list_all_iff)
    have "dtoi_loop 0 (digits (m div 10)) = Some (m div 10, [])" using 1 False by simp
    then show ?thesis
      using False d "1.prems" all by (simp add: digits.simps [of m] dtoi_loop_append Let_def)
  qed
qed

lemma dtoi_digits:
  assumes "m \<le> 255" and "r = [] \<or> \<not> is_digit (hd r)"
  shows "dtoi (digits m @ r) = Some (m, r)"
proof -
  have all: "list_all (\<lambda>c. is_digit c) (digits m)"
    using digits_are_digits [of _ m] by (auto simp: list_all_iff)
  have "is_digit (hd (digits m @ r))" using digits_are_digits [of "hd (digits m)" m] by simp
  moreover have "dtoi_loop m r = Some (m, r)" using assms(2) by (cases r) auto
  ultimately show ?thesis
    using dtoi_loop_digits [OF assms(1)] all by (simp add: dtoi_def dtoi_loop_append)
qed

lemma v4_fields_dotted:
  assumes "a \<le> 255" "b \<le> 255" "c \<le> 255" "d \<le> 255"
  shows "v4_fields 4 True (dotted [a, b, c, d]) = Some [a, b, c, d]"
proof -
  have "dtoi (digits d) = Some (d, [])" using dtoi_digits [of d "[]"] assms by simp
  then show ?thesis
    using assms by (simp add: dotted_def dtoi_digits numeral_eq_Suc)
qed

lemma dropWhile_digits_dot:
  "dropWhile (\<lambda>c. c \<noteq> CHR ''.'' \<and> c \<noteq> CHR '':'') (digits a @ CHR ''.'' # r) = CHR ''.'' # r"
proof (subst dropWhile_append2)
  fix x assume "x \<in> set (digits a)"
  then have "is_digit x" by (rule digits_are_digits)
  then show "x \<noteq> CHR ''.'' \<and> x \<noteq> CHR '':''" by auto
qed simp

lemma ParseIP_dotted:
  assumes "a \<le> 255" "b \<le> 255" "c \<le> 255" "d \<le> 255"
  shows "ParseIP (dotted [a, b, c, d]) = Some (v4InV6Prefix @ [a, b, c, d])"
proof -
  have "dotted [a, b, c, d] = digits a @ CHR ''.'' # Join (map digits [b, c, d]) ''.''"
    by (simp add: dotted_def)
  then show ?thesis
    using v4_fields_dotted [OF assms] by (simp add: ParseIP_def dropWhile_digits_dot parseIPv4_def)
qed

lemma ParseIP_IP_String_v4:
  assumes "a \<le> 255" "b \<le> 255" "c \<le> 255" "d \<le> 255"
  shows "ParseIP (IP_String (v4InV6Prefix @ [a, b, c, d])) = Some (v4InV6Prefix @ [a, b, c, d])"
  using ParseIP_dotted [OF assms] by (simp add: IP_String_def To4_def v4InV6Prefix_def)

lemma ParseIP_Nil [simp]: "ParseIP [] = None"
  by (simp add: ParseIP_def)

lemma v4_fields_length: "v4_fields k b s = Some p \<Longrightarrow> length p = k \<and> (\<forall>x\<in>set p. x \<le> 255)"
  by (induction k b s arbitrary: p rule: v4_fields.induct) (fastforce split: if_splits option.splits prod.splits)+

lemma hex_digits_not_Nil [simp]: "hex_digits n \<noteq> []"
  by (subst hex_digits.simps) (simp add: Let_def)

lemma v6_groups_not_Nil: "length ip = 16 \<Longrightarrow> v6_groups ip \<noteq> []"
  by (cases ip rule: v6_groups.cases) auto

lemma IP_String_not_Nil [simp]: "IP_String ip \<noteq> []"
proof (cases "To4 ip")
  case None
  then show ?thesis
    using v6_groups_not_Nil [of ip]
    by (cases "length ip = 16") (auto simp: IP_String_def Let_def v6_print.simps [of _ _ 0] split: option.split)
next
  case (Some p)
  then have "p \<noteq> []" by (auto simp: To4_def split: if_splits)
  then show ?thesis using Some by (cases p; cases "tl p") (auto simp: IP_String_def dotted_def)
qed

end
