(* ===== verification/Exchanger.thy ===== *)
theory Exchanger
  imports Dns_Message Go_Net
begin

text \<open>
  \<open>exchanger/exchanger.go\<close> and \<open>exchanger/forwarder.go\<close>: DNS clients as functions, their
  decorators, and the forwarder that tries the configured servers in order. An exchange reads
  and changes the outside world (the network, the log, the counters): the world \<open>'w\<close> is
  passed explicitly, so that the same exchange may answer differently later.
\<close>

section \<open>Definitions\<close>

datatype go_error = ForwardError "string list" string | ExchangeError string

type_synonym exchange_result = "Msg option \<times> int \<times> go_error option"

type_synonym 'w Exchanger = "Msg \<Rightarrow> string \<Rightarrow> 'w \<Rightarrow> exchange_result \<times> 'w"

type_synonym 'w Decorator = "'w Exchanger \<Rightarrow> 'w Exchanger"

definition Decorate :: "'w Exchanger \<Rightarrow> 'w Decorator list \<Rightarrow> 'w Exchanger" where
  "Decorate ex ds = fold (\<lambda>decorate decorated. decorate decorated) ds ex"

text \<open>\<open>printf err m a\<close> is the effect of the logger on the world.\<close>

definition ErrorLogging :: "(go_error \<Rightarrow> Msg \<Rightarrow> string \<Rightarrow> 'w \<Rightarrow> 'w) \<Rightarrow> 'w Decorator" where
  "ErrorLogging printf ex = (\<lambda>m a w.
     let ((r, rtt, err), w') = ex m a w
     in ((r, rtt, err), (case err of None \<Rightarrow> w' | Some e \<Rightarrow> printf e m a w')))"

text \<open>The counters are given by their \<open>Inc\<close> methods.\<close>

definition Instrumentation :: "('w \<Rightarrow> 'w) \<Rightarrow> ('w \<Rightarrow> 'w) \<Rightarrow> ('w \<Rightarrow> 'w) \<Rightarrow> 'w Decorator" where
  "Instrumentation tot success failure ex = (\<lambda>m a w.
     let ((r, rtt, err), w') = ex m a w; w2 = tot w'
     in ((r, rtt, err), (if err \<noteq> None then failure w2 else success w2)))"

type_synonym 'w Forwarder = "Msg \<Rightarrow> string \<Rightarrow> 'w \<Rightarrow> (Msg option \<times> go_error option) \<times> 'w"

text \<open>The loop of the forwarder; \<open>r\<close> and \<open>err\<close> are its named results.\<close>

fun forward_loop :: "'w Exchanger \<Rightarrow> Msg \<Rightarrow> string list \<Rightarrow> Msg option \<times> go_error option \<Rightarrow> 'w \<Rightarrow>
  (Msg option \<times> go_error option) \<times> 'w" where
  "forward_loop ex m [] res w = (res, w)"
| "forward_loop ex m (a # addrs) res w =
     (let ((r, _, err), w') = ex m (JoinHostPort a ''53'') w
      in if err = None then ((r, err), w') else forward_loop ex m addrs (r, err) w')"

definition NewForwarder :: "string list \<Rightarrow> (string \<Rightarrow> 'w Exchanger option) \<Rightarrow> 'w Forwarder" where
  "NewForwarder addrs exs = (\<lambda>m proto w.
     case exs proto of
       None \<Rightarrow> ((None, Some (ForwardError addrs proto)), w)
     | Some ex \<Rightarrow>
         if length addrs = 0 then ((None, Some (ForwardError addrs proto)), w)
         else forward_loop ex m addrs (None, None) w)"

section \<open>What the forwarder does\<close>

text \<open>
  \<open>all_fail ex m xs w w'\<close>: exchanging \<open>m\<close> with every address of \<open>xs\<close> in turn, starting in
  world \<open>w\<close>, fails each time and ends in world \<open>w'\<close>.
\<close>

inductive all_fail :: "'w Exchanger \<Rightarrow> Msg \<Rightarrow> string list \<Rightarrow> 'w \<Rightarrow> 'w \<Rightarrow> bool" for ex m where
  none: "all_fail ex m [] w w"
| fails: "ex m (JoinHostPort a ''53'') w = ((r, t, Some e), w1) \<Longrightarrow> all_fail ex m xs w1 w' \<Longrightarrow>
    all_fail ex m (a # xs) w w'"

lemma forward_loop_fail:
  assumes "all_fail ex m xs w w'" "xs \<noteq> []"
  shows "\<exists>r e. forward_loop ex m (xs @ ys) res w = forward_loop ex m ys (r, Some e) w'"
  using assms
proof (induction arbitrary: res rule: all_fail.induct)
  case (fails a w r t e w1 xs w')
  show ?case
  proof (cases xs)
    case Nil
    then have "w' = w1" using fails.hyps(2) by (auto elim: all_fail.cases)
    then show ?thesis using fails.hyps(1) Nil by auto
  next
    case (Cons b bs)
    then show ?thesis using fails.IH [of "(r, Some e)"] fails.hyps(1) by simp
  qed
qed simp

lemma forward_loop_cases:
  "(\<exists>w'. all_fail ex m addrs w w') \<or>
   (\<exists>xs a ys w1 r t w2. addrs = xs @ a # ys \<and> all_fail ex m xs w w1 \<and>
      ex m (JoinHostPort a ''53'') w1 = ((r, t, None), w2))"
proof (induction addrs arbitrary: w)
  case Nil
  show ?case by (intro disjI1 exI) (rule all_fail.none)
next
  case (Cons a addrs)
  obtain res w1 where "ex m (JoinHostPort a ''53'') w = (res, w1)" by (cases "ex m (JoinHostPort a ''53'') w")
  moreover obtain r t err where "res = (r, t, err)" by (cases res)
  ultimately have x: "ex m (JoinHostPort a ''53'') w = ((r, t, err), w1)" by simp
  show ?case
  proof (cases err)
    case None
    have "a # addrs = [] @ a # addrs" "all_fail ex m [] w w" "ex m (JoinHostPort a ''53'') w = ((r, t, None), w1)"
      using x by (simp_all add: None all_fail.none)
    then show ?thesis by (intro disjI2 exI conjI)
  next
    case (Some e)
    note fail = all_fail.fails [where ex = ex and m = m and a = a, OF x [unfolded Some]]
    from Cons [of w1] show ?thesis
    proof (elim disjE exE conjE)
      fix w' assume "all_fail ex m addrs w1 w'"
      from fail [OF this] show ?thesis by (intro disjI1 exI)
    next
      fix xs b ys w2 r' t' w3
      assume "addrs = xs @ b # ys" and f: "all_fail ex m xs w1 w2"
        and s: "ex m (JoinHostPort b ''53'') w2 = ((r', t', None), w3)"
      then have e: "a # addrs = (a # xs) @ b # ys" by simp
      show ?thesis by (intro disjI2 exI conjI) (rule e, rule fail [OF f], rule s)
    qed
  qed
qed

section \<open>Decorators\<close>

text \<open>
  A decorator is an observer: it passes the message and the address on, returns the result of the
  exchange it wraps, and only afterwards changes the world, by an effect that depends on
  the result.
\<close>

locale observer =
  fixes d :: "'w Decorator" and effect :: "exchange_result \<Rightarrow> Msg \<Rightarrow> string \<Rightarrow> 'w \<Rightarrow> 'w"
  assumes observes: "d ex m a w = (case ex m a w of (res, w') \<Rightarrow> (res, effect res m a w'))"
begin

lemma result_kept: "fst (d ex m a w) = fst (ex m a w)"
  by (simp add: observes case_prod_beta)

lemma decorated_then:
  "Decorate ex (d # ds) m a w = Decorate (\<lambda>m a w. case ex m a w of (res, w') \<Rightarrow> (res, effect res m a w')) ds m a w"
proof -
  have "d ex = (\<lambda>m a w. case ex m a w of (res, w') \<Rightarrow> (res, effect res m a w'))" by (intro ext) (rule observes)
  then show ?thesis by (simp add: Decorate_def)
qed

end

interpretation logging: observer "ErrorLogging printf"
    "\<lambda>res m a w. case snd (snd res) of None \<Rightarrow> w | Some e \<Rightarrow> printf e m a w" for printf
  by unfold_locales (simp add: ErrorLogging_def case_prod_beta)

interpretation counting: observer "Instrumentation tot success failure"
    "\<lambda>res m a w. if snd (snd res) \<noteq> None then failure (tot w) else success (tot w)" for tot success failure
  by unfold_locales (simp add: Instrumentation_def case_prod_beta Let_def)

lemma Decorate_Nil: "Decorate ex [] = ex"
  by (simp add: Decorate_def)

text \<open>A logged and counted exchange, as the resolver composes it.\<close>

lemma logged_and_counted:
  "Decorate ex [ErrorLogging (\<lambda>_ _ _ w. w), Instrumentation tot success failure] m a w =
   (case ex m a w of (res, w') \<Rightarrow> (res, if snd (snd res) \<noteq> None then failure (tot w') else success (tot w')))"
  by (simp add: logging.decorated_then counting.decorated_then Decorate_Nil case_prod_beta split: option.split)

section \<open>Properties\<close>

text \<open>The forwarder refuses a message, without contacting any server, exactly when no server is
  configured or the protocol has no client; otherwise it asks the servers in the configured
  order, returns the first answer without asking the servers after it, and fails, with an
  error of the last server, only when every server failed.\<close>

theorem forwarder_tries_in_order:
  "case NewForwarder addrs exs m proto w of ((r, err), w') \<Rightarrow>
     if exs proto = None \<or> addrs = [] then err = Some (ForwardError addrs proto) \<and> w' = w
     else if err = None
     then \<exists>xs a ys w1 t. addrs = xs @ a # ys \<and> all_fail (the (exs proto)) m xs w w1 \<and>
            the (exs proto) m (JoinHostPort a ''53'') w1 = ((r, t, None), w')
     else all_fail (the (exs proto)) m addrs w w'"
proof (cases "exs proto = None \<or> addrs = []")
  case True
  then show ?thesis by (auto simp: NewForwarder_def split: option.splits)
next
  case False
  then obtain ex where ex: "exs proto = Some ex" by auto
  have run: "NewForwarder addrs exs m proto w = forward_loop ex m addrs (None, None) w"
    using False ex by (simp add: NewForwarder_def)
  from forward_loop_cases [of ex m addrs w] show ?thesis
  proof (elim disjE exE conjE)
    fix w' assume all: "all_fail ex m addrs w w'"
    from forward_loop_fail [OF this, of "[]" "(None, None)"] False
    obtain r e where "forward_loop ex m addrs (None, None) w = ((r, Some e), w')" by auto
    then show ?thesis using run ex False all by simp
  next
    fix xs a ys w1 r t w2
    assume a: "addrs = xs @ a # ys" "all_fail ex m xs w w1" "ex m (JoinHostPort a ''53'') w1 = ((r, t, None), w2)"
    have "forward_loop ex m addrs (None, None) w = ((r, None), w2)"
    proof (cases "xs = []")
      case True
      then have "w1 = w" using a(2) by (auto elim: all_fail.cases)
      then show ?thesis using a True by simp
    next
      case f: False
      from forward_loop_fail [OF a(2) f, of "a # ys" "(None, None)"] show ?thesis using a by auto
    qed
    then show ?thesis using run ex False a by auto
  qed
qed

end
