(* ===== verification/Records_Config.thy ===== *)
theory Records_Config
  imports Complex_Main Go_Net "HOL-Library.Word"
begin

text \<open>
  \<open>records/config.go\<close> and \<open>records/validation.go\<close>: the configuration of the program, its
  defaults, how the configuration file is located and read, and its validation. Reading a
  file, \<open>filepath.Abs\<close>, the environment and JSON decoding are parameters; a call of
  \<open>logging.Error.Fatal\<close>, which ends the process, is a value of type \<open>config_error\<close>.
\<close>

section \<open>Definitions\<close>

text \<open>The dynamic values an \<open>interface{}\<close> field holds after JSON decoding (and typed slices).\<close>

datatype iface =
    INil
  | IBool bool
  | IFloat rat
  | IString string
  | ISlice "iface list"
  | IFloats "rat list"
  | IStrings "string list"
  | IMap "(string \<times> iface) list"

record Config =
  Config_Domain :: string
  Config_EnforceRFC952 :: bool
  Config_File :: string
  Config_IPSources :: "string list"
  Config_Masters :: "string list"
  Config_RefreshSeconds :: int
  Config_Resolvers :: "(string \<times> iface) list option"
  Config_StateTimeoutSeconds :: int
  Config_SOAExpire :: "32 word"
  Config_SOAMinttl :: "32 word"
  Config_SOAMname :: string
  Config_SOARefresh :: "32 word"
  Config_SOARetry :: "32 word"
  Config_SOARname :: string
  Config_SOASerial :: "32 word"
  Config_Zk :: string
  Config_ZkDetectionTimeout :: int

text \<open>\<open>NewConfig\<close>; \<open>now\<close> is \<open>time.Now().Unix()\<close>.\<close>

definition NewConfig :: "int \<Rightarrow> Config" where
  "NewConfig now = \<lparr>
     Config_Domain = ''mesos'',
     Config_EnforceRFC952 = False,
     Config_File = [],
     Config_IPSources = [''netinfo'', ''mesos'', ''host''],
     Config_Masters = [],
     Config_RefreshSeconds = 60,
     Config_Resolvers = None,
     Config_StateTimeoutSeconds = 300,
     Config_SOAExpire = 86400,
     Config_SOAMinttl = 60,
     Config_SOAMname = ''ns1.mesos'',
     Config_SOARefresh = 60,
     Config_SOARetry = 600,
     Config_SOARname = ''root.ns1.mesos'',
     Config_SOASerial = of_int now,
     Config_Zk = [],
     Config_ZkDetectionTimeout = 30\<rparr>"

datatype config_error =
    NoMastersOrZk
  | IllegalMaster string
  | DuplicateMaster string
  | EmptyIPSources
  | DuplicateIPSource
  | InvalidIPSource string
  | CannotFindFile
  | MissingFile string
  | UnmarshalFailed string

definition validateEnabledServices :: "Config \<Rightarrow> config_error option" where
  "validateEnabledServices c =
     (if length (Config_Masters c) = 0 \<and> Config_Zk c = [] then Some NoMastersOrZk else None)"

text \<open>The key under which a master is entered in the set of masters seen so far.\<close>

definition master_key :: "string \<Rightarrow> string" where
  "master_key m =
     (let (h, p, _) = SplitHostPort m
      in case ParseIP h of Some ip \<Rightarrow> IP_String ip @ ''_'' @ p | None \<Rightarrow> m)"

fun validate_masters_loop :: "string list \<Rightarrow> string list \<Rightarrow> config_error option" where
  "validate_masters_loop valid [] = None"
| "validate_masters_loop valid (m # ms) =
     (if snd (snd (SplitHostPort m)) \<noteq> None then Some (IllegalMaster m)
      else if master_key m \<in> set valid then Some (DuplicateMaster m)
      else validate_masters_loop (master_key m # valid) ms)"

definition validateMasters :: "string list \<Rightarrow> config_error option" where
  "validateMasters ms = (if length ms = 0 then None else validate_masters_loop [] ms)"

text \<open>\<open>unique\<close>: the first occurrence of every string, in order.\<close>

fun unique_loop :: "string list \<Rightarrow> string list \<Rightarrow> string list \<Rightarrow> string list" where
  "unique_loop [] seen out = out"
| "unique_loop (s # ss) seen out =
     (if s \<notin> set seen then unique_loop ss (s # seen) (out @ [s]) else unique_loop ss seen out)"

definition unique :: "string list \<Rightarrow> string list" where
  "unique ss = unique_loop ss [] []"

fun validate_sources_loop :: "string list \<Rightarrow> config_error option" where
  "validate_sources_loop [] = None"
| "validate_sources_loop (src # srcs) =
     (if hd (Split src '':'') \<in> {''host'', ''docker'', ''mesos'', ''netinfo'', ''label''}
      then validate_sources_loop srcs
      else Some (InvalidIPSource src))"

definition validateIPSources :: "string list \<Rightarrow> config_error option" where
  "validateIPSources srcs =
     (if length srcs = 0 then Some EmptyIPSources
      else if length srcs \<noteq> length (unique srcs) then Some DuplicateIPSource
      else validate_sources_loop srcs)"

text \<open>\<open>strings.Replace(s, old, new, 1)\<close>.\<close>

definition Replace1 :: "string \<Rightarrow> string \<Rightarrow> string \<Rightarrow> string" where
  "Replace1 s old new =
     (case Index s old of None \<Rightarrow> s | Some i \<Rightarrow> take i s @ new @ drop (i + length old) s)"

text \<open>
  \<open>ReadConfig\<close>: \<open>getenv\<close> is \<open>os.Getenv\<close>, \<open>absp\<close> is \<open>filepath.Abs\<close>, \<open>read\<close> is
  \<open>ioutil.ReadFile\<close> and \<open>unmarshal\<close> is \<open>json.Unmarshal\<close> through the pointer to a
  configuration that already holds the defaults: no result is a decoding error, \<open>Some None\<close>
  the nil pointer that the document \<open>null\<close> leaves.
\<close>

definition workingDir :: "(string \<Rightarrow> string) \<Rightarrow> string" where
  "workingDir getenv =
     fold (\<lambda>name wd. if getenv name \<noteq> [] then getenv name else wd) [''HOME'', ''USERPROFILE''] ''.''"

definition ReadConfig ::
  "(string \<Rightarrow> string) \<Rightarrow> (string \<Rightarrow> string option) \<Rightarrow> (string \<Rightarrow> string option) \<Rightarrow>
   (string \<Rightarrow> Config \<Rightarrow> Config option option) \<Rightarrow> int \<Rightarrow> string \<Rightarrow> config_error + Config option" where
  "ReadConfig getenv absp read unmarshal now file =
     (case absp (Replace1 file ''~/'' (workingDir getenv @ ''/'')) of
        None \<Rightarrow> Inl CannotFindFile
      | Some path \<Rightarrow>
          (case read path of
             None \<Rightarrow> Inl (MissingFile path)
           | Some bs \<Rightarrow>
               (case unmarshal bs (NewConfig now) of
                  None \<Rightarrow> Inl (UnmarshalFailed path)
                | Some c \<Rightarrow> Inr c)))"

text \<open>\<open>SetConfig\<close>: the assignments that complete the configuration, and the whole function.\<close>

definition complete_config :: "Config \<Rightarrow> Config" where
  "complete_config c = c\<lparr>
     Config_Resolvers := (case Config_Resolvers c of None \<Rightarrow> Some [(''builtin'', INil)] | r \<Rightarrow> r),
     Config_Domain := ToLower (Config_Domain c),
     Config_SOARname := TrimRight (ReplaceAll (Config_SOARname c) ''@'' ''.'') ''.'' @ ''.'',
     Config_SOAMname := TrimRight (Config_SOAMname c) ''.'' @ ''.''\<rparr>"

definition SetConfig ::
  "(string \<Rightarrow> string) \<Rightarrow> (string \<Rightarrow> string option) \<Rightarrow> (string \<Rightarrow> string option) \<Rightarrow>
   (string \<Rightarrow> Config \<Rightarrow> Config option option) \<Rightarrow> int \<Rightarrow> string \<Rightarrow> (config_error + Config) option" where
  "SetConfig getenv absp read unmarshal now cjson =
     (case ReadConfig getenv absp read unmarshal now cjson of
        Inl e \<Rightarrow> Some (Inl e)
      | Inr None \<Rightarrow> None
      | Inr (Some c) \<Rightarrow>
          (case validateMasters (Config_Masters c) of
             Some e \<Rightarrow> Some (Inl e)
           | None \<Rightarrow>
               (case validateIPSources (Config_IPSources c) of
                  Some e \<Rightarrow> Some (Inl e)
                | None \<Rightarrow> Some (Inr (complete_config c)))))"

section \<open>Lemmas\<close>

lemma validate_masters_loop_None:
  "validate_masters_loop valid ms = None \<longleftrightarrow>
     (\<forall>m\<in>set ms. snd (snd (SplitHostPort m)) = None) \<and> distinct (map master_key ms)
     \<and> set (map master_key ms) \<inter> set valid = {}"
  by (induction ms arbitrary: valid) auto

lemma validateMasters_None:
  "validateMasters ms = None \<longleftrightarrow>
     (\<forall>m\<in>set ms. snd (snd (SplitHostPort m)) = None) \<and> distinct (map master_key ms)"
  by (auto simp: validateMasters_def validate_masters_loop_None)

lemma unique_loop_props:
  assumes "distinct out" "set out = set seen"
  shows "distinct (unique_loop ss seen out) \<and> set (unique_loop ss seen out) = set ss \<union> set seen"
  using assms by (induction ss arbitrary: seen out) auto

lemma distinct_unique [simp]: "distinct (unique ss)" and set_unique [simp]: "set (unique ss) = set ss"
  using unique_loop_props [of "[]" "[]" ss] by (auto simp: unique_def)

lemma length_unique_eq: "length (unique ss) = length ss \<longleftrightarrow> distinct ss"
  by (metis card_distinct distinct_card distinct_unique set_unique)

lemma validate_sources_loop_None:
  "validate_sources_loop srcs = None \<longleftrightarrow>
     (\<forall>s\<in>set srcs. hd (Split s '':'') \<in> {''host'', ''docker'', ''mesos'', ''netinfo'', ''label''})"
  by (induction srcs) auto

lemma TrimRight_dot_suffix: "\<exists>s. TrimRight t ''.'' @ ''.'' = s @ ''.'' \<and> (s = [] \<or> last s \<noteq> CHR ''.'')"
  using TrimRight_last [of t "''.''"] by auto

section \<open>Properties\<close>

text \<open>\<open>validateMasters\<close> accepts a list exactly when every entry is a host:port pair and no two
  entries denote the same address: IP addresses are compared in canonical form, so two
  spellings of one IPv6 address are duplicates.\<close>

theorem validateMasters_correct:
  "validateMasters ms = None \<longleftrightarrow>
     list_all (\<lambda>m. snd (snd (SplitHostPort m)) = None) ms \<and> distinct (map master_key ms)"
  by (simp add: validateMasters_None list_all_iff)

text \<open>\<open>validateIPSources\<close> accepts a list exactly when it is non-empty, has no repetition and
  names only known sources (the part before the first colon).\<close>

theorem validateIPSources_correct:
  "validateIPSources srcs = None \<longleftrightarrow>
     srcs \<noteq> [] \<and> distinct srcs \<and>
     list_all (\<lambda>s. hd (Split s '':'') \<in> {''host'', ''docker'', ''mesos'', ''netinfo'', ''label''}) srcs"
  using length_unique_eq [of srcs]
  by (auto simp: validateIPSources_def validate_sources_loop_None list_all_iff)

text \<open>C38: a configuration \<open>SetConfig\<close> returns was read from the file over the defaults, has
  validated masters and IP sources, the builtin resolver when none was configured, a
  lower-case domain, and primary server and mailbox names that end in exactly one dot; the
  other fields are as they were read.\<close>

theorem SetConfig_normalises:
  assumes "SetConfig getenv absp read unmarshal now cjson = Some (Inr c')"
  shows "\<exists>c path bs. absp (Replace1 cjson ''~/'' (workingDir getenv @ ''/'')) = Some path
    \<and> read path = Some bs \<and> unmarshal bs (NewConfig now) = Some (Some c)
    \<and> validateMasters (Config_Masters c') = None \<and> validateIPSources (Config_IPSources c') = None
    \<and> Config_Resolvers c' = (if Config_Resolvers c = None then Some [(''builtin'', INil)] else Config_Resolvers c)
    \<and> ToLower (Config_Domain c') = Config_Domain c'
    \<and> (\<exists>s. Config_SOAMname c' = s @ ''.'' \<and> (s = [] \<or> last s \<noteq> CHR ''.''))
    \<and> (\<exists>s. Config_SOARname c' = s @ ''.'' \<and> (s = [] \<or> last s \<noteq> CHR ''.''))
    \<and> Config_Masters c' = Config_Masters c \<and> Config_Zk c' = Config_Zk c
    \<and> Config_RefreshSeconds c' = Config_RefreshSeconds c"
proof -
  from assms obtain c where rd: "ReadConfig getenv absp read unmarshal now cjson = Inr (Some c)"
    and v: "validateMasters (Config_Masters c) = None" "validateIPSources (Config_IPSources c) = None"
    and c': "c' = complete_config c"
    by (auto simp: SetConfig_def split: option.splits sum.splits)
  from rd obtain path bs where src: "absp (Replace1 cjson ''~/'' (workingDir getenv @ ''/'')) = Some path"
    "read path = Some bs" "unmarshal bs (NewConfig now) = Some (Some c)"
    by (auto simp: ReadConfig_def split: option.splits)
  have "\<exists>s. Config_SOAMname c' = s @ ''.'' \<and> (s = [] \<or> last s \<noteq> CHR ''.'')"
    "\<exists>s. Config_SOARname c' = s @ ''.'' \<and> (s = [] \<or> last s \<noteq> CHR ''.'')"
    using TrimRight_dot_suffix c' by (auto simp: complete_config_def)
  then show ?thesis
    using v c' src by (intro exI [of _ c] exI [of _ path] exI [of _ bs])
      (auto simp: complete_config_def split: option.split)
qed

text \<open>A file that only sets the domain.\<close>

theorem SetConfig_normalises_witness:
  "\<exists>c'. SetConfig (\<lambda>_. []) Some (\<lambda>f. Some ''Mesos'') (\<lambda>bs c. Some (Some (c\<lparr>Config_Domain := bs\<rparr>))) 0 ''config.json''
       = Some (Inr c')
     \<and> Config_Domain c' = ''mesos'' \<and> ToLower (Config_Domain c') = Config_Domain c'
     \<and> Config_Resolvers c' = Some [(''builtin'', INil)] \<and> Config_SOAMname c' = ''ns1.mesos.''"
proof -
  let ?c = "(NewConfig 0)\<lparr>Config_Domain := ''Mesos''\<rparr>"
  have v: "validateMasters (Config_Masters ?c) = None" "validateIPSources (Config_IPSources ?c) = None"
    by (simp_all add: NewConfig_def validateMasters_def validateIPSources_def unique_def)
  have low: "ToLower ''Mesos'' = ''mesos''" by code_simp
  have trim: "TrimRight ''ns1.mesos'' ''.'' @ ''.'' = ''ns1.mesos.''" by code_simp
  let ?set = "SetConfig (\<lambda>_. []) Some (\<lambda>f. Some ''Mesos'') (\<lambda>bs c. Some (Some (c\<lparr>Config_Domain := bs\<rparr>))) 0 ''config.json''"
  have c': "?set = Some (Inr (complete_config ?c))"
    using v by (simp add: SetConfig_def ReadConfig_def)
  moreover have "Config_Domain (complete_config ?c) = ''mesos''"
    "Config_SOAMname (complete_config ?c) = ''ns1.mesos.''"
    "Config_Resolvers (complete_config ?c) = Some [(''builtin'', INil)]"
    using low trim by (simp_all add: complete_config_def NewConfig_def)
  ultimately show ?thesis using SetConfig_normalises [OF c'] by blast
qed

end
