(* ===== verification/Merge.thy ===== *)
theory Merge
  imports Records_Config "HOL-Library.AList"
begin

text \<open>
  \<open>utils/merge.go\<close>: merging a decoded JSON object into a configuration struct by reflection. A
  struct is the list of its exported (hence settable) fields with typed values. A float that
  the target integer type cannot represent converts to an implementation-specific value: this
  conversion and the rounding to 32-bit floats are the fields of the parameter \<open>oor\<close>.
\<close>

section \<open>Definitions\<close>

datatype gval =
    GBool bool
  | GInt int
  | GInt8 int
  | GInt16 int
  | GInt32 int
  | GInt64 int
  | GUint8 int
  | GUint16 int
  | GUint32 int
  | GUint64 int
  | GFloat32 rat
  | GFloat64 rat
  | GString string
  | GStrings "string list"

datatype gtype =
    TBool | TInt | TInt8 | TInt16 | TInt32 | TInt64 | TUint8 | TUint16 | TUint32 | TUint64
  | TFloat32 | TFloat64 | TString | TStrings | TFloats | TIfaces | TMap

fun gtype_of :: "gval \<Rightarrow> gtype" where
  "gtype_of (GBool _) = TBool"
| "gtype_of (GInt _) = TInt"
| "gtype_of (GInt8 _) = TInt8"
| "gtype_of (GInt16 _) = TInt16"
| "gtype_of (GInt32 _) = TInt32"
| "gtype_of (GInt64 _) = TInt64"
| "gtype_of (GUint8 _) = TUint8"
| "gtype_of (GUint16 _) = TUint16"
| "gtype_of (GUint32 _) = TUint32"
| "gtype_of (GUint64 _) = TUint64"
| "gtype_of (GFloat32 _) = TFloat32"
| "gtype_of (GFloat64 _) = TFloat64"
| "gtype_of (GString _) = TString"
| "gtype_of (GStrings _) = TStrings"

text \<open>The dynamic type of an \<open>interface{}\<close>; asking a nil interface for it panics.\<close>

fun itype_of :: "iface \<Rightarrow> gtype option" where
  "itype_of INil = None"
| "itype_of (IBool _) = Some TBool"
| "itype_of (IFloat _) = Some TFloat64"
| "itype_of (IString _) = Some TString"
| "itype_of (ISlice _) = Some TIfaces"
| "itype_of (IFloats _) = Some TFloats"
| "itype_of (IStrings _) = Some TStrings"
| "itype_of (IMap _) = Some TMap"

type_synonym struct = "(string \<times> gval) list"

datatype merge_error = NoSuchField string | UnexpectedType string | CannotUse gtype gtype

text \<open>A float64 converted to an integer type is truncated towards zero.\<close>

definition trunc :: "rat \<Rightarrow> int" where
  "trunc x = (if x \<ge> 0 then \<lfloor>x\<rfloor> else \<lceil>x\<rceil>)"

record conversion =
  conv_int :: "gtype \<Rightarrow> rat \<Rightarrow> int"
  conv_float32 :: "rat \<Rightarrow> rat"

definition to_range :: "conversion \<Rightarrow> gtype \<Rightarrow> int \<Rightarrow> int \<Rightarrow> rat \<Rightarrow> int" where
  "to_range oor t lo hi x = (if lo \<le> trunc x \<and> trunc x \<le> hi then trunc x else conv_int oor t x)"

definition ConvertNum :: "conversion \<Rightarrow> rat \<Rightarrow> gval \<Rightarrow> string \<Rightarrow> merge_error + gval" where
  "ConvertNum oor val field name =
     (case field of
        GInt _ \<Rightarrow> Inr (GInt (to_range oor TInt (- (2 ^ 63)) (2 ^ 63 - 1) val))
      | GUint8 _ \<Rightarrow> Inr (GUint8 (to_range oor TUint8 0 (2 ^ 8 - 1) val))
      | GUint16 _ \<Rightarrow> Inr (GUint16 (to_range oor TUint16 0 (2 ^ 16 - 1) val))
      | GUint32 _ \<Rightarrow> Inr (GUint32 (to_range oor TUint32 0 (2 ^ 32 - 1) val))
      | GUint64 _ \<Rightarrow> Inr (GUint64 (to_range oor TUint64 0 (2 ^ 64 - 1) val))
      | GInt8 _ \<Rightarrow> Inr (GInt8 (to_range oor TInt8 (- (2 ^ 7)) (2 ^ 7 - 1) val))
      | GInt16 _ \<Rightarrow> Inr (GInt16 (to_range oor TInt16 (- (2 ^ 15)) (2 ^ 15 - 1) val))
      | GInt32 _ \<Rightarrow> Inr (GInt32 (to_range oor TInt32 (- (2 ^ 31)) (2 ^ 31 - 1) val))
      | GInt64 _ \<Rightarrow> Inr (GInt64 (to_range oor TInt64 (- (2 ^ 63)) (2 ^ 63 - 1) val))
      | GFloat32 _ \<Rightarrow> Inr (GFloat32 (conv_float32 oor val))
      | GFloat64 _ \<Rightarrow> Inr (GFloat64 val)
      | _ \<Rightarrow> Inl (UnexpectedType name))"

text \<open>
  \<open>SetField\<close>: \<open>None\<close> is a panic of the reflection package: a nil value has no type, and
  storing a slice in a field of another type is not assignable.
\<close>

definition SetField :: "conversion \<Rightarrow> struct \<Rightarrow> string \<Rightarrow> iface \<Rightarrow> (merge_error option \<times> struct) option" where
  "SetField oor obj name value =
     (case map_of obj name of
        None \<Rightarrow> Some (Some (NoSuchField name), obj)
      | Some field \<Rightarrow> do {
          t \<leftarrow> itype_of value;
          if gtype_of field \<noteq> t then
            (case value of
               IFloat x \<Rightarrow>
                 (case ConvertNum oor x field name of
                    Inl e \<Rightarrow> Some (Some e, obj)
                  | Inr v \<Rightarrow> Some (None, AList.update name v obj))
             | IFloats _ \<Rightarrow> None
             | IStrings _ \<Rightarrow> None
             | ISlice _ \<Rightarrow> Some (None, obj)
             | _ \<Rightarrow> Some (Some (CannotUse t (gtype_of field)), obj))
          else
            (case value of
               IBool b \<Rightarrow> Some (None, AList.update name (GBool b) obj)
             | IFloat x \<Rightarrow> Some (None, AList.update name (GFloat64 x) obj)
             | IString s \<Rightarrow> Some (None, AList.update name (GString s) obj)
             | IStrings ss \<Rightarrow> Some (None, AList.update name (GStrings ss) obj)
             | _ \<Rightarrow> Some (None, obj)) })"

text \<open>
  \<open>Merge\<close>: the loop over the map visits the entries in an order of Go's choosing, so the
  list of entries is the map in that order. Errors are only logged.
\<close>

definition merge_step :: "conversion \<Rightarrow> string \<times> iface \<Rightarrow> struct \<Rightarrow> struct option" where
  "merge_step oor = (\<lambda>(k, v) obj. do { (_, obj') \<leftarrow> SetField oor obj k v; Some obj' })"

definition Merge :: "conversion \<Rightarrow> iface \<Rightarrow> struct \<Rightarrow> struct option" where
  "Merge oor data config =
     (case data of IMap m \<Rightarrow> fold_opt (merge_step oor) m config | _ \<Rightarrow> Some config)"

section \<open>What merging does to one field\<close>

text \<open>Values as \<open>encoding/json\<close> produces them for \<open>interface{}\<close>, except null.\<close>

fun json_value :: "iface \<Rightarrow> bool" where
  "json_value INil = False"
| "json_value (IFloats _) = False"
| "json_value (IStrings _) = False"
| "json_value _ = True"

definition assign :: "conversion \<Rightarrow> string \<Rightarrow> iface \<Rightarrow> gval \<Rightarrow> gval" where
  "assign oor name value field =
     (case value of
        IFloat x \<Rightarrow> (case ConvertNum oor x field name of Inr v \<Rightarrow> v | Inl _ \<Rightarrow> field)
      | IBool b \<Rightarrow> (case field of GBool _ \<Rightarrow> GBool b | _ \<Rightarrow> field)
      | IString s \<Rightarrow> (case field of GString _ \<Rightarrow> GString s | _ \<Rightarrow> field)
      | _ \<Rightarrow> field)"

lemma gtype_of_eq [simp]:
  "gtype_of f = TBool \<longleftrightarrow> (\<exists>b. f = GBool b)" "gtype_of f = TFloat64 \<longleftrightarrow> (\<exists>x. f = GFloat64 x)"
  "gtype_of f = TString \<longleftrightarrow> (\<exists>s. f = GString s)" "gtype_of f \<noteq> TIfaces" "gtype_of f \<noteq> TMap"
  by (cases f; simp)+

lemma SetField_json:
  assumes "json_value v"
  shows "\<exists>err obj'. SetField oor obj k v = Some (err, obj') \<and>
    map_of obj' = (\<lambda>n. if n = k then map_option (assign oor k v) (map_of obj n) else map_of obj n)"
proof (cases "map_of obj k")
  case None
  then show ?thesis by (auto simp: SetField_def)
next
  case (Some field)
  then show ?thesis
    using assms
    by (cases v; cases field) (auto simp: SetField_def assign_def ConvertNum_def update_conv fun_eq_iff)
qed

lemma assign_type: "gtype_of (assign oor k v field) = gtype_of field"
  by (cases v; cases field) (simp_all add: assign_def ConvertNum_def)

text \<open>A null for an existing field has no type, which panics; other nulls are ignored.\<close>

lemma SetField_null: "SetField oor obj k INil = (if map_of obj k = None then Some (Some (NoSuchField k), obj) else None)"
  by (simp add: SetField_def split: option.split)

definition null_field :: "(string \<times> iface) list \<Rightarrow> struct \<Rightarrow> bool" where
  "null_field m obj \<longleftrightarrow> (\<exists>k. (k, INil) \<in> set m \<and> map_of obj k \<noteq> None)"

lemma merge_step_json:
  assumes "json_value v \<or> v = INil" "\<not> null_field [(k, v)] obj"
  shows "\<exists>obj'. merge_step oor (k, v) obj = Some obj' \<and>
    map_of obj' = (\<lambda>n. if n = k then map_option (assign oor k v) (map_of obj n) else map_of obj n)"
proof (cases "v = INil")
  case True
  then have "map_of obj k = None" using assms(2) by (simp add: null_field_def)
  then show ?thesis using True by (auto simp: merge_step_def SetField_null)
next
  case False
  then show ?thesis using SetField_json [of v oor obj k] assms(1) by (auto simp: merge_step_def)
qed

lemma fold_merge:
  assumes "list_all (\<lambda>(k, v). json_value v \<or> v = INil) m" "distinct (map fst m)"
  shows "if null_field m obj then fold_opt (merge_step oor) m obj = None
    else \<exists>obj'. fold_opt (merge_step oor) m obj = Some obj' \<and>
      (\<forall>n. map_of obj' n = (case map_of m n of
        None \<Rightarrow> map_of obj n | Some v \<Rightarrow> map_option (assign oor n v) (map_of obj n)))"
  using assms
proof (induction m arbitrary: obj)
  case (Cons kv m)
  obtain k v where kv: "kv = (k, v)" by (cases kv)
  have v: "json_value v \<or> v = INil" and k: "map_of m k = None" "k \<notin> fst ` set m"
    and m: "list_all (\<lambda>(k, v). json_value v \<or> v = INil) m" "distinct (map fst m)"
    using Cons.prems by (auto simp: kv map_of_eq_None_iff)
  show ?case
  proof (cases "null_field [(k, v)] obj")
    case True
    then have "v = INil" "map_of obj k \<noteq> None" "null_field (kv # m) obj" by (auto simp: null_field_def kv)
    then show ?thesis by (auto simp: kv merge_step_def SetField_null)
  next
    case False
    from merge_step_json [OF v False, of oor] obtain o1 where o1: "merge_step oor (k, v) obj = Some o1"
      "map_of o1 = (\<lambda>n. if n = k then map_option (assign oor k v) (map_of obj n) else map_of obj n)" by blast
    have "n \<noteq> k" if "(n, INil) \<in> set m" for n using that k(2) by force
    then have "null_field (kv # m) obj \<longleftrightarrow> null_field m o1"
      using False unfolding null_field_def kv o1(2) by (simp cong: conj_cong) (metis option.distinct(1))
    then show ?thesis using Cons.IH [OF m, of o1] o1 k(1)
      by (cases "null_field m o1") (auto simp: kv split: option.split)
  qed
qed (simp add: null_field_def)

section \<open>Properties\<close>

text \<open>C39: merging a decoded JSON object into a configuration, whatever order its map is visited in:
  it panics exactly when the value of a key that names a field is null. Otherwise every field
  keeps its type, a field named by no key keeps its value, and a field named by a key takes the
  key's value when it is a boolean, a string or a number of the field's kind and keeps its own
  otherwise. In particular lists are never taken over.\<close>

theorem Merge_correct:
  assumes "list_all (\<lambda>(k, v). json_value v \<or> v = INil) m" and "distinct (map fst m)"
  shows "if \<exists>k. (k, INil) \<in> set m \<and> map_of obj k \<noteq> None then Merge oor (IMap m) obj = None
    else \<exists>obj'. Merge oor (IMap m) obj = Some obj'
      \<and> (\<forall>n. map_of obj' n = (case map_of m n of
            None \<Rightarrow> map_of obj n
          | Some v \<Rightarrow> map_option (assign oor n v) (map_of obj n))
         \<and> map_option gtype_of (map_of obj' n) = map_option gtype_of (map_of obj n))"
proof (cases "null_field m obj")
  case True
  then show ?thesis using fold_merge [OF assms, of obj oor] unfolding null_field_def by (simp add: Merge_def)
next
  case False
  then obtain obj' where o: "fold_opt (merge_step oor) m obj = Some obj'"
    "\<And>n. map_of obj' n = (case map_of m n of
        None \<Rightarrow> map_of obj n | Some v \<Rightarrow> map_option (assign oor n v) (map_of obj n))"
    using fold_merge [OF assms, of obj oor] by auto
  have "map_option gtype_of (map_of obj' n) = map_option gtype_of (map_of obj n)" for n
    unfolding o(2) by (cases "map_of obj n") (auto simp: assign_type split: option.split)
  then show ?thesis using o False unfolding null_field_def by (auto simp: Merge_def)
qed

definition no_conversion :: conversion where
  "no_conversion = \<lparr>conv_int = (\<lambda>_ _. 0), conv_float32 = (\<lambda>x. x)\<rparr>"

theorem Merge_correct_witness:
  "\<exists>obj'. Merge no_conversion (IMap [(''Port'', IFloat 8053), (''ExternalDNS'', ISlice [IString ''1.1.1.1'']), (''Nothing'', INil)])
       [(''Port'', GInt 53), (''ExternalDNS'', GStrings [''8.8.8.8''])] = Some obj'
     \<and> map_of obj' ''Port'' = Some (GInt 8053) \<and> map_of obj' ''ExternalDNS'' = Some (GStrings [''8.8.8.8''])"
proof -
  let ?m = "[(''Port'', IFloat 8053), (''ExternalDNS'', ISlice [IString ''1.1.1.1'']), (''Nothing'', INil)]"
  let ?obj = "[(''Port'', GInt 53), (''ExternalDNS'', GStrings [''8.8.8.8''])]"
  have m: "list_all (\<lambda>(k, v). json_value v \<or> v = INil) ?m" "distinct (map fst ?m)" by simp_all
  have port: "assign no_conversion ''Port'' (IFloat 8053) (GInt 53) = GInt 8053"
    and ext: "assign no_conversion ''ExternalDNS'' (ISlice [IString ''1.1.1.1'']) (GStrings [''8.8.8.8'']) = GStrings [''8.8.8.8'']"
    by (simp_all add: assign_def ConvertNum_def to_range_def trunc_def)
  have no_null: "\<not> (\<exists>k. (k, INil) \<in> set ?m \<and> map_of ?obj k \<noteq> None)" by simp
  from Merge_correct [OF m, of ?obj no_conversion, unfolded if_not_P [OF no_null]] port ext
  show ?thesis by auto
qed

end
