(* ===== verification/Builtin_Config.thy ===== *)
theory Builtin_Config
  imports Merge
begin

text \<open>
  \<open>resolvers/builtin/config.go\<close> and \<open>resolvers/builtin/validation.go\<close>: the configuration of the
  builtin resolver, its completion and validation, and the view of it as a struct that
  \<open>utils.Merge\<close> works on. The contents of \<open>/etc/resolv.conf\<close>, the addresses of the host's
  interfaces and \<open>net.ParseCIDR\<close> are parameters.
\<close>

section \<open>Definitions\<close>

record BuiltinConfig =
  BC_DNSOn :: bool
  BC_ExternalOn :: bool
  BC_HTTPOn :: bool
  BC_HTTPPort :: int
  BC_HTTPListener :: string
  BC_Listener :: string
  BC_Port :: int
  BC_RecurseOn :: bool
  BC_ExternalDNS :: "string list"
  BC_Timeout :: int
  BC_TTL :: int
  BC_EnumerationOn :: bool

definition builtin_NewConfig :: BuiltinConfig where
  "builtin_NewConfig = \<lparr>
     BC_DNSOn = True, BC_ExternalOn = True, BC_HTTPOn = True, BC_HTTPPort = 8123,
     BC_HTTPListener = ''0.0.0.0'', BC_Listener = ''0.0.0.0'', BC_Port = 53, BC_RecurseOn = True,
     BC_ExternalDNS = [''8.8.8.8''], BC_Timeout = 5, BC_TTL = 60, BC_EnumerationOn = True\<rparr>"

text \<open>The struct as reflection sees it, and back.\<close>

definition builtin_struct :: "BuiltinConfig \<Rightarrow> struct" where
  "builtin_struct c =
     [(''DNSOn'', GBool (BC_DNSOn c)), (''ExternalOn'', GBool (BC_ExternalOn c)), (''HTTPOn'', GBool (BC_HTTPOn c)),
      (''HTTPPort'', GInt (BC_HTTPPort c)), (''HTTPListener'', GString (BC_HTTPListener c)),
      (''Listener'', GString (BC_Listener c)), (''Port'', GInt (BC_Port c)), (''RecurseOn'', GBool (BC_RecurseOn c)),
      (''ExternalDNS'', GStrings (BC_ExternalDNS c)), (''Timeout'', GInt (BC_Timeout c)), (''TTL'', GInt32 (BC_TTL c)),
      (''EnumerationOn'', GBool (BC_EnumerationOn c))]"

definition get_bool :: "struct \<Rightarrow> string \<Rightarrow> bool" where
  "get_bool s n = (case map_of s n of Some (GBool b) \<Rightarrow> b | _ \<Rightarrow> False)"

definition get_int :: "struct \<Rightarrow> string \<Rightarrow> int" where
  "get_int s n = (case map_of s n of Some (GInt i) \<Rightarrow> i | Some (GInt32 i) \<Rightarrow> i | _ \<Rightarrow> 0)"

definition get_string :: "struct \<Rightarrow> string \<Rightarrow> string" where
  "get_string s n = (case map_of s n of Some (GString x) \<Rightarrow> x | _ \<Rightarrow> [])"

definition get_strings :: "struct \<Rightarrow> string \<Rightarrow> string list" where
  "get_strings s n = (case map_of s n of Some (GStrings x) \<Rightarrow> x | _ \<Rightarrow> [])"

definition builtin_of_struct :: "struct \<Rightarrow> BuiltinConfig" where
  "builtin_of_struct s = \<lparr>
     BC_DNSOn = get_bool s ''DNSOn'', BC_ExternalOn = get_bool s ''ExternalOn'', BC_HTTPOn = get_bool s ''HTTPOn'',
     BC_HTTPPort = get_int s ''HTTPPort'', BC_HTTPListener = get_string s ''HTTPListener'',
     BC_Listener = get_string s ''Listener'', BC_Port = get_int s ''Port'', BC_RecurseOn = get_bool s ''RecurseOn'',
     BC_ExternalDNS = get_strings s ''ExternalDNS'', BC_Timeout = get_int s ''Timeout'', BC_TTL = get_int s ''TTL'',
     BC_EnumerationOn = get_bool s ''EnumerationOn''\<rparr>"

datatype builtin_error = NoService | IllegalIP string | DuplicateIP string | ResolvConf string

definition builtin_validateEnabledServices :: "BuiltinConfig \<Rightarrow> builtin_error option" where
  "builtin_validateEnabledServices c = (if \<not> BC_DNSOn c \<and> \<not> BC_HTTPOn c then Some NoService else None)"

fun external_loop :: "string list \<Rightarrow> string list \<Rightarrow> builtin_error option" where
  "external_loop [] ips = None"
| "external_loop (r # rs) ips =
     (case ParseIP r of
        None \<Rightarrow> Some (IllegalIP r)
      | Some ip \<Rightarrow>
          let ipstr = IP_String ip
          in if ipstr \<in> set ips then Some (DuplicateIP r) else external_loop rs (ipstr # ips))"

definition validateExternalDNS :: "string list \<Rightarrow> builtin_error option" where
  "validateExternalDNS rs = (if length rs = 0 then None else external_loop rs [])"

text \<open>\<open>addies\<close> are the interface addresses in CIDR notation; \<open>parseCIDR\<close> yields no IP on an error.\<close>

definition localAddies :: "(string \<Rightarrow> IP option) \<Rightarrow> string list \<Rightarrow> string list" where
  "localAddies parseCIDR addies =
     List.map_filter (\<lambda>a. case parseCIDR a of None \<Rightarrow> None | Some ip \<Rightarrow> map_option IP_String (To4 ip)) addies"

definition nonLocalAddies :: "(string \<Rightarrow> IP option) \<Rightarrow> string list \<Rightarrow> string list \<Rightarrow> string list" where
  "nonLocalAddies parseCIDR addies cservers =
     (let bad = localAddies parseCIDR addies in filter (\<lambda>c. c \<notin> set bad) cservers)"

definition GetLocalDNS ::
  "(string \<Rightarrow> IP option) \<Rightarrow> string list \<Rightarrow> string + string list \<Rightarrow> builtin_error + string list" where
  "GetLocalDNS parseCIDR addies conf =
     (case conf of Inl e \<Rightarrow> Inl (ResolvConf e) | Inr servers \<Rightarrow> Inr (nonLocalAddies parseCIDR addies servers))"

text \<open>\<open>Config.SetConfig\<close>: an error ends the process (\<open>logging.Error.Fatalf\<close>).\<close>

definition builtin_SetConfig ::
  "(string \<Rightarrow> IP option) \<Rightarrow> string list \<Rightarrow> string + string list \<Rightarrow> BuiltinConfig \<Rightarrow> builtin_error + BuiltinConfig" where
  "builtin_SetConfig parseCIDR addies conf c =
     (let external =
        (if BC_ExternalOn c then
           (case (if length (BC_ExternalDNS c) = 0
                  then map_sum id (\<lambda>s. c\<lparr>BC_ExternalDNS := s\<rparr>) (GetLocalDNS parseCIDR addies conf)
                  else Inr c) of
              Inl e \<Rightarrow> Inl e
            | Inr c' \<Rightarrow>
                (case validateExternalDNS (BC_ExternalDNS c') of Some e \<Rightarrow> Inl e | None \<Rightarrow> Inr c'))
         else Inr c)
      in case external of
           Inl e \<Rightarrow> Inl e
         | Inr c' \<Rightarrow> (case builtin_validateEnabledServices c' of Some e \<Rightarrow> Inl e | None \<Rightarrow> Inr c'))"

section \<open>Lemmas\<close>

lemma builtin_struct_roundtrip: "builtin_of_struct (builtin_struct c) = c"
  by (simp add: builtin_of_struct_def builtin_struct_def get_bool_def get_int_def get_string_def get_strings_def)

definition canonical_ip :: "string \<Rightarrow> string option" where
  "canonical_ip r = map_option IP_String (ParseIP r)"

lemma external_loop_Cons:
  "external_loop (r # rs) ips =
     (case canonical_ip r of
        None \<Rightarrow> Some (IllegalIP r)
      | Some s \<Rightarrow> if s \<in> set ips then Some (DuplicateIP r) else external_loop rs (s # ips))"
  by (simp add: canonical_ip_def Let_def split: option.split)

lemma external_loop_None:
  "external_loop rs ips = None \<longleftrightarrow>
     None \<notin> canonical_ip ` set rs \<and> distinct (map canonical_ip rs) \<and> canonical_ip ` set rs \<inter> Some ` set ips = {}"
proof (induction rs arbitrary: ips)
  case (Cons r rs)
  then show ?case
    by (cases "canonical_ip r") (auto simp: external_loop_Cons simp del: external_loop.simps)
qed simp

section \<open>Properties\<close>

text \<open>C40: the completed configuration of the builtin resolver runs at least one service and, when
  external queries are on, forwards only to IP addresses without two spellings of the same
  one; servers taken from \<open>resolv.conf\<close> exclude the host's own IPv4 addresses.\<close>

theorem builtin_SetConfig_valid:
  assumes "builtin_SetConfig parseCIDR addies conf c = Inr c'"
  shows "(BC_DNSOn c' \<or> BC_HTTPOn c')
    \<and> (BC_ExternalOn c' \<longrightarrow> None \<notin> canonical_ip ` set (BC_ExternalDNS c')
         \<and> distinct (map canonical_ip (BC_ExternalDNS c')))
    \<and> (BC_ExternalDNS c' = BC_ExternalDNS c
       \<or> (\<exists>servers. conf = Inr servers \<and> BC_ExternalDNS c' = filter (\<lambda>s. s \<notin> set (localAddies parseCIDR addies)) servers))"
proof -
  have svc: "BC_DNSOn c' \<or> BC_HTTPOn c'"
    using assms by (auto simp: builtin_SetConfig_def builtin_validateEnabledServices_def Let_def
        split: if_splits sum.splits option.splits)
  have src: "BC_ExternalDNS c' = BC_ExternalDNS c
      \<or> (\<exists>servers. conf = Inr servers \<and> BC_ExternalDNS c' = filter (\<lambda>s. s \<notin> set (localAddies parseCIDR addies)) servers)"
    using assms by (auto simp: builtin_SetConfig_def GetLocalDNS_def nonLocalAddies_def Let_def
        split: if_splits sum.splits option.splits)
  have "BC_ExternalOn c' \<Longrightarrow> validateExternalDNS (BC_ExternalDNS c') = None"
    using assms by (auto simp: builtin_SetConfig_def GetLocalDNS_def Let_def split: if_splits sum.splits option.splits)
  then have "BC_ExternalOn c' \<Longrightarrow> None \<notin> canonical_ip ` set (BC_ExternalDNS c')
      \<and> distinct (map canonical_ip (BC_ExternalDNS c'))"
    using external_loop_None [of "BC_ExternalDNS c'" "[]"]
    by (cases "BC_ExternalDNS c' = []") (auto simp: validateExternalDNS_def)
  then show ?thesis using svc src by blast
qed

theorem builtin_SetConfig_valid_witness:
  "\<exists>c'. builtin_SetConfig (\<lambda>_. None) [] (Inl ''missing'') (builtin_NewConfig\<lparr>BC_ExternalOn := False\<rparr>) = Inr c'
     \<and> (BC_DNSOn c' \<or> BC_HTTPOn c')"
proof -
  have "builtin_SetConfig (\<lambda>_. None) [] (Inl ''missing'') (builtin_NewConfig\<lparr>BC_ExternalOn := False\<rparr>)
      = Inr (builtin_NewConfig\<lparr>BC_ExternalOn := False\<rparr>)"
    by (simp add: builtin_SetConfig_def builtin_validateEnabledServices_def builtin_NewConfig_def)
  from builtin_SetConfig_valid [OF this] this show ?thesis by blast
qed

end
