(* ===== verification/Record_Store.thy ===== *)
theory Record_Store
  imports Prelude "HOL-Library.AList"
begin

text \<open>
  The record maps of \<open>records/generator.go\<close> (type \<open>rrs\<close>, a map from names to sets of
  hosts) and the interface the rest of the generator relies on. A Go map is an
  association list with one entry per key; a \<open>map[string]struct{}\<close> used as a set is a list
  without repetitions. Go does not specify the order in which \<open>range\<close> visits a map: every
  function that ranges over one takes that order as an argument, a function \<open>ord\<close> that
  permutes the list of keys.
\<close>

section \<open>Definitions\<close>

type_synonym rrs = "(string \<times> string list) list"

type_synonym map_order = "string list \<Rightarrow> string list"

text \<open>\<open>r[name]\<close>: the empty set when the name is absent.\<close>

definition rrs_get :: "rrs \<Rightarrow> string \<Rightarrow> string list" where
  "rrs_get r name = (case map_of r name of None \<Rightarrow> [] | Some v \<Rightarrow> v)"

definition rrs_add :: "rrs \<Rightarrow> string \<Rightarrow> string \<Rightarrow> bool \<times> rrs" where
  "rrs_add r name host =
     (if host = [] then (False, r)
      else case map_of r name of
        None \<Rightarrow> (True, AList.update name [host] r)
      | Some v \<Rightarrow> if host \<in> set v then (False, r) else (True, AList.update name (v @ [host]) r))"

definition rrs_First :: "map_order \<Rightarrow> rrs \<Rightarrow> string \<Rightarrow> string \<times> bool" where
  "rrs_First ord r name = (case ord (rrs_get r name) of host # _ \<Rightarrow> (host, True) | [] \<Rightarrow> ([], False))"

definition ToAXFRResourceRecordSet :: "map_order \<Rightarrow> rrs \<Rightarrow> (string \<times> string list) list" where
  "ToAXFRResourceRecordSet ord r = map (\<lambda>(host, values). (host, ord values)) r"

section \<open>The interface\<close>

text \<open>
  What the generator promises of its record maps: \<open>add\<close> inserts a host under a name, says
  whether the pair is new, and never stores an empty host.
\<close>

locale record_store =
  fixes empty :: 's
    and add :: "'s \<Rightarrow> string \<Rightarrow> string \<Rightarrow> bool \<times> 's"
    and hosts :: "'s \<Rightarrow> string \<Rightarrow> string set"
    and invar :: "'s \<Rightarrow> bool"
  assumes hosts_empty: "hosts empty n = {}"
    and invar_empty: "invar empty"
    and invar_add: "invar s \<Longrightarrow> invar (snd (add s n h))"
    and hosts_add: "invar s \<Longrightarrow>
      hosts (snd (add s n h)) m = (if m = n \<and> h \<noteq> [] then insert h (hosts s m) else hosts s m)"
    and add_new: "invar s \<Longrightarrow> fst (add s n h) \<longleftrightarrow> h \<noteq> [] \<and> h \<notin> hosts s n"
begin

lemma add_again: "invar s \<Longrightarrow> \<not> fst (add (snd (add s n h)) n h)"
  by (simp add: add_new invar_add hosts_add)

lemma not_added_unchanged: "invar s \<Longrightarrow> \<not> fst (add s n h) \<Longrightarrow> hosts (snd (add s n h)) m = hosts s m"
  by (auto simp: add_new hosts_add)

definition add_all :: "(string \<times> string) list \<Rightarrow> 's \<Rightarrow> 's" where
  "add_all xs s = fold (\<lambda>(n, h) s. snd (add s n h)) xs s"

lemma invar_add_all: "invar s \<Longrightarrow> invar (add_all xs s)"
  unfolding add_all_def by (induction xs arbitrary: s) (auto simp: invar_add)

lemma hosts_add_all:
  "invar s \<Longrightarrow> hosts (add_all xs s) n = hosts s n \<union> {h. (n, h) \<in> set xs \<and> h \<noteq> []}"
  unfolding add_all_def
proof (induction xs arbitrary: s)
  case Nil
  then show ?case by simp
next
  case (Cons x xs)
  obtain m h where x: "x = (m, h)" by (cases x)
  then show ?case using Cons by (auto simp: invar_add hosts_add)
qed

lemma no_empty_host: "invar s \<Longrightarrow> [] \<notin> hosts s n \<Longrightarrow> [] \<notin> hosts (add_all xs s) n"
  by (auto simp: hosts_add_all)

text \<open>The order in which records are added does not matter.\<close>

lemma add_all_perm: "invar s \<Longrightarrow> set xs = set ys \<Longrightarrow> hosts (add_all xs s) = hosts (add_all ys s)"
  by (rule ext) (simp add: hosts_add_all)

end

section \<open>The implementation meets the interface\<close>

definition rrs_hosts :: "rrs \<Rightarrow> string \<Rightarrow> string set" where
  "rrs_hosts r name = set (rrs_get r name)"

definition rrs_inv :: "rrs \<Rightarrow> bool" where
  "rrs_inv r \<longleftrightarrow> distinct (map fst r) \<and> list_all (\<lambda>(n, v). v \<noteq> [] \<and> distinct v \<and> [] \<notin> set v) r"

lemma rrs_invI_update:
  assumes "rrs_inv r" "v \<noteq> []" "distinct v" "[] \<notin> set v"
  shows "rrs_inv (AList.update n v r)"
proof -
  have "list_all (\<lambda>(n, v). v \<noteq> [] \<and> distinct v \<and> [] \<notin> set v) (AList.update n v r)"
    using assms by (induction r) (auto simp: rrs_inv_def)
  then show ?thesis using assms by (simp add: rrs_inv_def distinct_update)
qed

lemma rrs_inv_get: "rrs_inv r \<Longrightarrow> distinct (rrs_get r n) \<and> [] \<notin> set (rrs_get r n)"
  by (auto simp: rrs_inv_def rrs_get_def list_all_iff split: option.splits dest!: map_of_SomeD)

lemma rrs_inv_add: "rrs_inv r \<Longrightarrow> rrs_inv (snd (rrs_add r n h))"
  using rrs_inv_get [of r n]
  by (auto simp: rrs_add_def rrs_get_def intro!: rrs_invI_update split: option.splits)

interpretation rr: record_store "[]" rrs_add rrs_hosts rrs_inv
proof (unfold_locales, goal_cases)
  case (1 n)
  show ?case by (simp add: rrs_hosts_def rrs_get_def)
next
  case 2
  show ?case by (simp add: rrs_inv_def)
next
  case (3 s n h)
  then show ?case by (rule rrs_inv_add)
next
  case (4 s n h m)
  then show ?case
    by (auto simp: rrs_hosts_def rrs_add_def rrs_get_def update_conv' split: option.splits)
next
  case (5 s n h)
  then show ?case by (auto simp: rrs_hosts_def rrs_add_def rrs_get_def split: option.splits)
qed

lemma rrs_First_in:
  assumes "mset (ord (rrs_get r name)) = mset (rrs_get r name)"
  shows "rrs_First ord r name = (h, True) \<Longrightarrow> h \<in> rrs_hosts r name"
    and "rrs_First ord r name = (h, False) \<Longrightarrow> rrs_hosts r name = {}"
  using mset_eq_setD [OF assms] assms
  by (auto simp: rrs_First_def rrs_hosts_def split: list.splits)

section \<open>Properties\<close>

text \<open>C33: \<open>add\<close> keeps the record map well formed (one entry per name, no repeated and no empty
  host), inserts exactly the given pair unless the host is empty, and returns \<open>true\<close>
  exactly when the pair was new.\<close>

theorem rrs_add_correct:
  assumes "rrs_inv r"
  shows "rrs_inv (snd (rrs_add r name host))
    \<and> rrs_hosts (snd (rrs_add r name host)) n
        = (if n = name \<and> host \<noteq> [] then insert host (rrs_hosts r n) else rrs_hosts r n)
    \<and> (fst (rrs_add r name host) \<longleftrightarrow> host \<noteq> [] \<and> host \<notin> rrs_hosts r name)"
  using rr.invar_add [OF assms] rr.hosts_add [OF assms] rr.add_new [OF assms] by blast

theorem rrs_add_correct_witness:
  "rrs_inv [(''a.'', [''1.1.1.1''])]
   \<and> rrs_add [(''a.'', [''1.1.1.1''])] ''a.'' ''2.2.2.2'' = (True, [(''a.'', [''1.1.1.1'', ''2.2.2.2''])])
   \<and> rrs_hosts (snd (rrs_add [(''a.'', [''1.1.1.1''])] ''a.'' ''2.2.2.2'')) ''a.'' = {''1.1.1.1'', ''2.2.2.2''}"
proof -
  have inv: "rrs_inv [(''a.'', [''1.1.1.1''])]" by code_simp
  have add: "rrs_add [(''a.'', [''1.1.1.1''])] ''a.'' ''2.2.2.2'' = (True, [(''a.'', [''1.1.1.1'', ''2.2.2.2''])])"
    by code_simp
  have "rrs_hosts [(''a.'', [''1.1.1.1''])] ''a.'' = {''1.1.1.1''}"
    by (simp add: rrs_hosts_def rrs_get_def)
  then show ?thesis
    using rrs_add_correct [OF inv, of "''a.''" "''2.2.2.2''" "''a.''"] inv add by auto
qed

text \<open>The zone exported over the REST API holds, under every name, exactly the hosts of the
  record map, each once, whatever order Go visits the map in.\<close>

theorem ToAXFR_faithful:
  assumes "rrs_inv r" and "\<forall>v. mset (ord v) = mset v"
  shows "map fst (ToAXFRResourceRecordSet ord r) = map fst r
    \<and> distinct (rrs_get (ToAXFRResourceRecordSet ord r) n)
    \<and> set (rrs_get (ToAXFRResourceRecordSet ord r) n) = rrs_hosts r n"
proof -
  have "map_of (ToAXFRResourceRecordSet ord r) = map_option ord \<circ> map_of r"
    unfolding ToAXFRResourceRecordSet_def by (simp add: map_of_map)
  then have get: "rrs_get (ToAXFRResourceRecordSet ord r) n = (if map_of r n = None then [] else ord (rrs_get r n))"
    by (auto simp: rrs_get_def)
  have "map_of r n = None \<Longrightarrow> rrs_hosts r n = {}" by (simp add: rrs_hosts_def rrs_get_def)
  moreover have perm: "mset (ord (rrs_get r n)) = mset (rrs_get r n)" using assms(2) by blast
  ultimately have hosts: "set (rrs_get (ToAXFRResourceRecordSet ord r) n) = rrs_hosts r n"
    using mset_eq_setD [of "ord (rrs_get r n)" "rrs_get r n"] by (simp add: get rrs_hosts_def)
  have "distinct (ord (rrs_get r n))"
    using perm rrs_inv_get [OF assms(1), of n] mset_eq_imp_distinct_iff by blast
  then have "distinct (rrs_get (ToAXFRResourceRecordSet ord r) n)" by (simp add: get)
  moreover have "map fst (ToAXFRResourceRecordSet ord r) = map fst r"
    by (simp add: ToAXFRResourceRecordSet_def case_prod_beta comp_def)
  ultimately show ?thesis using hosts by blast
qed

theorem ToAXFR_faithful_witness:
  "set (rrs_get (ToAXFRResourceRecordSet rev [(''a.'', [''1.1.1.1'', ''2.2.2.2''])]) ''a.'')
     = {''1.1.1.1'', ''2.2.2.2''}"
proof -
  have inv: "rrs_inv [(''a.'', [''1.1.1.1'', ''2.2.2.2''])]" by code_simp
  have "rrs_hosts [(''a.'', [''1.1.1.1'', ''2.2.2.2''])] ''a.'' = {''1.1.1.1'', ''2.2.2.2''}"
    by (simp add: rrs_hosts_def rrs_get_def)
  then show ?thesis using ToAXFR_faithful [OF inv, of rev "''a.''"] by simp
qed

end
