(* ===== verification/Labels.thy ===== *)
theory Labels
  imports Go_Strings
begin

text \<open>
  \<open>records/labels/labels.go\<close>: mangling of task and framework names into DNS labels and
  domain fragments.

  \<open>trimCut\<close> re-slices a byte slice past its length (\<open>tail[:size-len(head)]\<close>), which Go
  allows up to the capacity of the backing array and which panics beyond it. The model
  therefore carries the bytes of the backing array that follow the slice (\<open>spare\<close>):
  \<open>bytes.Map\<close> allocates one zero byte per input byte and the bytes it drops remain as
  zero bytes behind the result.
\<close>

section \<open>Definitions\<close>

definition Sep :: string where
  "Sep = ''.''"

text \<open>\<open>mapping\<close>: \<open>None\<close> stands for the rune \<open>-1\<close>, which \<open>bytes.Map\<close> drops. Every rune above
  the ASCII range is dropped, and UTF-8 encodes those runes in bytes above 127 only, so
  the function may be read byte by byte.\<close>

definition mapping :: "char \<Rightarrow> char option" where
  "mapping r =
     (if 65 \<le> byte r \<and> byte r \<le> 90 then Some (char_of (byte r + 32 :: nat))
      else if 97 \<le> byte r \<and> byte r \<le> 122 then Some r
      else if 48 \<le> byte r \<and> byte r \<le> 57 then Some r
      else if r = CHR ''-'' \<or> r = CHR ''.'' \<or> r = CHR ''_'' then Some (CHR ''-'')
      else None)"

text \<open>\<open>bytes.Map(mapping, name)\<close>: the mapped bytes, and the zero bytes left behind them.\<close>

definition mapped :: "string \<Rightarrow> string" where
  "mapped name = List.map_filter mapping name"

definition mapped_spare :: "string \<Rightarrow> string" where
  "mapped_spare name = replicate (length name - length (mapped name)) (CHR 0x00)"

text \<open>\<open>s[:n]\<close> for a slice \<open>s\<close> followed by \<open>spare\<close> in its backing array.\<close>

definition reslice :: "string \<Rightarrow> string \<Rightarrow> nat \<Rightarrow> string option" where
  "reslice s spare n = (if n \<le> length s + length spare then Some (take n (s @ spare)) else None)"

definition trimCut :: "string \<Rightarrow> string \<Rightarrow> nat \<Rightarrow> string \<Rightarrow> string \<Rightarrow> string option" where
  "trimCut label spare maxlen left right =
     (let trim = TrimLeft label left;
          size = min (length trim) maxlen;
          head = TrimRight (take size trim) right
      in if length head = size then Some head
         else
           let tail = TrimLeft (drop size trim) right
           in if length tail > 0
              then do { t \<leftarrow> reslice tail spare (size - length head); Some (head @ t) }
              else Some head)"

definition label :: "string \<Rightarrow> nat \<Rightarrow> string \<Rightarrow> string \<Rightarrow> string option" where
  "label name maxlen left right = trimCut (mapped name) (mapped_spare name) maxlen left right"

type_synonym Func = "string \<Rightarrow> string option"

definition RFC952 :: Func where
  "RFC952 name = label name 24 ''-0123456789'' ''-''"

definition RFC1123 :: Func where
  "RFC1123 name = label name 63 ''-'' ''-''"

definition DomainFrag :: "string \<Rightarrow> string \<Rightarrow> Func \<Rightarrow> string option" where
  "DomainFrag name sep lab = do {
     labs \<leftarrow> map_opt lab (Split name sep);
     Some (Join (filter (\<lambda>l. l \<noteq> []) labs) sep) }"

section \<open>The shape of a label\<close>

text \<open>The letters, digits and hyphens of RFC 952 and RFC 1123, in lower case.\<close>

definition ldh :: "char \<Rightarrow> bool" where
  "ldh c \<longleftrightarrow> (97 \<le> byte c \<and> byte c \<le> 122) \<or> is_digit c \<or> c = CHR ''-''"

text \<open>A host name label of at most \<open>n\<close> bytes: letters, digits and hyphens, no hyphen at an end.\<close>

definition wf_label :: "nat \<Rightarrow> string \<Rightarrow> bool" where
  "wf_label n l \<longleftrightarrow>
     l \<noteq> [] \<and> length l \<le> n \<and> list_all ldh l \<and> hd l \<noteq> CHR ''-'' \<and> last l \<noteq> CHR ''-''"

lemma mapping_ldh: "mapping r = Some c \<Longrightarrow> ldh c"
  by (auto simp: mapping_def ldh_def split: if_splits)

lemma mapping_id: "ldh c \<Longrightarrow> mapping c = Some c"
  by (auto simp: mapping_def ldh_def)

lemma mapping_not_dot: "mapping r \<noteq> Some (CHR ''.'')"
  using mapping_ldh [of r "CHR ''.''"] by (auto simp: ldh_def)

lemma mapped_ldh: "c \<in> set (mapped name) \<Longrightarrow> ldh c"
  by (auto simp: mapped_def List.map_filter_def dest: mapping_ldh)

lemma mapped_id: "list_all ldh l \<Longrightarrow> mapped l = l"
  by (induction l) (auto simp: mapped_def List.map_filter_def mapping_id)

lemma length_mapped: "length (mapped name) \<le> length name"
  by (simp add: mapped_def List.map_filter_def)

lemma mapped_spare_zero: "c \<in> set (mapped_spare name) \<Longrightarrow> c = CHR 0x00"
  by (simp add: mapped_spare_def)

lemma hyphen_left: "set ''-'' \<subseteq> set left \<Longrightarrow> CHR ''-'' \<in> set left"
  by auto

text \<open>
  The three exits of \<open>trimCut\<close>: the cut fits and ends well; it ends in the right cutset and
  nothing follows; it is refilled from the bytes that follow.
\<close>

lemma trimCut_cases:
  assumes "trimCut lab spare maxlen left right = Some l"
  obtains (whole) "l = TrimRight (take maxlen (TrimLeft lab left)) right"
  | (refill) tail head where
      "head = TrimRight (take maxlen (TrimLeft lab left)) right"
      "tail = TrimLeft (drop maxlen (TrimLeft lab left)) right"
      "maxlen < length (TrimLeft lab left)" "length head < maxlen"
      "l = head @ take (maxlen - length head) (tail @ spare)"
      "maxlen - length head \<le> length tail + length spare"
proof -
  let ?trim = "TrimLeft lab left"
  let ?head = "TrimRight (take maxlen ?trim) right"
  have take: "take (min (length ?trim) maxlen) ?trim = take maxlen ?trim" by (simp add: min_def)
  have le: "length ?head \<le> min (length ?trim) maxlen"
    using length_TrimRight [of "take maxlen ?trim" right] by simp
  let ?tail = "TrimLeft (drop maxlen ?trim) right"
  show ?thesis
  proof (cases "length ?head = min (length ?trim) maxlen \<or> ?tail = [] \<or> length ?trim \<le> maxlen")
    case True
    then have "l = ?head"
      using assms take by (auto simp: trimCut_def Let_def min_def split: if_splits)
    then show ?thesis by (rule whole)
  next
    case False
    then have "min (length ?trim) maxlen = maxlen" by simp
    with False assms take le show ?thesis
      by (intro refill [OF refl refl])
        (auto simp: trimCut_def Let_def reslice_def bind_eq_Some_conv simp del: take_append split: if_splits)
  qed
qed

lemma label_length: "label name maxlen left right = Some l \<Longrightarrow> length l \<le> maxlen"
  unfolding label_def
proof (erule trimCut_cases)
  assume "l = TrimRight (take maxlen (TrimLeft (mapped name) left)) right"
  then show ?thesis
    using length_TrimRight [of "take maxlen (TrimLeft (mapped name) left)" right] by simp
qed auto

lemma label_set:
  assumes "label name maxlen left right = Some l" and "c \<in> set l"
  shows "ldh c \<or> c = CHR 0x00"
proof -
  let ?trim = "TrimLeft (mapped name) left"
  have trim: "ldh c" if "c \<in> set ?trim" for c
    using that set_TrimLeft mapped_ldh by blast
  have tk: "ldh c" if "c \<in> set (TrimRight (take maxlen ?trim) right)" for c
    using that set_TrimRight trim by (meson in_set_takeD subsetD)
  have dr: "ldh c" if "c \<in> set (TrimLeft (drop maxlen ?trim) right)" for c
    using that set_TrimLeft trim by (meson in_set_dropD subsetD)
  from assms(1) show ?thesis unfolding label_def
  proof (cases rule: trimCut_cases)
    case whole
    then show ?thesis using assms(2) tk by simp
  next
    case (refill tail head)
    then have "c \<in> set head \<or> c \<in> set tail \<or> c \<in> set (mapped_spare name)"
      using assms(2) by (auto dest: in_set_takeD)
    then show ?thesis using refill tk dr mapped_spare_zero by blast
  qed
qed

text \<open>
  A zero byte comes from the spare capacity of the array: only for a name that is cut, and only
  when the mangling dropped bytes of it.
\<close>

lemma label_zero:
  assumes "label name maxlen left right = Some l" "CHR 0x00 \<in> set l"
  shows "maxlen < length (TrimLeft (mapped name) left) \<and> length (mapped name) < length name"
proof -
  let ?trim = "TrimLeft (mapped name) left"
  have zero: "CHR 0x00 \<notin> set ?trim" using set_TrimLeft mapped_ldh [of "CHR 0x00" name] by (auto simp: ldh_def)
  then have no_head: "CHR 0x00 \<notin> set (TrimRight (take maxlen ?trim) right)"
    and no_tail: "CHR 0x00 \<notin> set (TrimLeft (drop maxlen ?trim) right)"
    using set_TrimRight set_TrimLeft by (meson in_set_takeD in_set_dropD subsetD)+
  from assms(1) show ?thesis unfolding label_def
  proof (cases rule: trimCut_cases)
    case whole
    then show ?thesis using assms(2) no_head by simp
  next
    case (refill tail head)
    then have "CHR 0x00 \<in> set (mapped_spare name)"
      using assms(2) no_head no_tail by (auto dest: in_set_takeD)
    then show ?thesis using refill(3) by (auto simp: mapped_spare_def)
  qed
qed

text \<open>The first byte of a label is never in the left cutset, provided the left cutset has the hyphen.\<close>

lemma label_hd:
  assumes "label name maxlen left right = Some l" and "l \<noteq> []" and "0 < maxlen"
    and "set right \<subseteq> set left"
  shows "hd l \<notin> set left"
proof -
  let ?trim = "TrimLeft (mapped name) left"
  let ?head = "TrimRight (take maxlen ?trim) right"
  have hd_trim: "hd ?trim \<notin> set left" if "?trim \<noteq> []" using that by (rule TrimLeft_hd)
  have hd_take: "hd (take maxlen ?trim) = hd ?trim" using assms(3) by (cases ?trim; cases maxlen) auto
  have key: "?head \<noteq> [] \<and> hd ?head \<notin> set left" if "?trim \<noteq> []"
  proof -
    have ne: "take maxlen ?trim \<noteq> []" using that assms(3) by simp
    have "hd (take maxlen ?trim) \<notin> set right" using hd_trim that hd_take assms(4) by auto
    then have "?head \<noteq> []" using ne by (rule TrimRight_nonempty [rotated])
    then show ?thesis using TrimRight_hd hd_take hd_trim that by metis
  qed
  from assms(1) show ?thesis unfolding label_def
  proof (cases rule: trimCut_cases)
    case whole
    then have "?trim \<noteq> []" using assms(2) by auto
    then show ?thesis using key whole by simp
  next
    case (refill tail head)
    then have "?trim \<noteq> []" by auto
    then show ?thesis using key refill by simp
  qed
qed

text \<open>A name whose mangled form needs no cutting is trimmed at both ends.\<close>

lemma label_fits:
  assumes "length (TrimLeft (mapped name) left) \<le> maxlen"
  shows "label name maxlen left right = Some (TrimRight (TrimLeft (mapped name) left) right)"
proof -
  let ?trim = "TrimLeft (mapped name) left"
  have "min (length ?trim) maxlen = length ?trim" using assms by simp
  then show ?thesis by (simp add: label_def trimCut_def Let_def TrimLeft_def)
qed

lemma label_fits_wf:
  assumes "length (TrimLeft (mapped name) left) \<le> maxlen" and "CHR ''-'' \<in> set left"
    and "label name maxlen left ''-'' = Some l"
  shows "l = [] \<or> wf_label maxlen l"
proof (cases "l = []")
  case False
  let ?trim = "TrimLeft (mapped name) left"
  have l: "l = TrimRight ?trim ''-''" using assms(1,3) label_fits by simp
  have "list_all ldh l"
    unfolding list_all_iff l using set_TrimRight set_TrimLeft mapped_ldh by blast
  moreover have "hd l \<noteq> CHR ''-''"
    using False l TrimRight_hd [of ?trim "''-''"] TrimLeft_hd [of "mapped name" left] assms(2)
    by (metis (no_types) set_TrimRight subset_empty set_empty)
  moreover have "last l \<noteq> CHR ''-''"
    using False l TrimRight_last [of ?trim "''-''"] by auto
  moreover have "length l \<le> maxlen" using assms(3) label_length by blast
  ultimately show ?thesis using False by (simp add: wf_label_def)
qed simp

text \<open>When the result is defined: the re-slice stays within the backing array.\<close>

lemma label_panics_iff:
  "label name maxlen left right = None \<longleftrightarrow>
     (let trim = TrimLeft (mapped name) left;
          head = TrimRight (take maxlen trim) right;
          tail = TrimLeft (drop maxlen trim) right
      in tail \<noteq> [] \<and> length head + length tail + length (mapped_spare name) < maxlen)"
proof -
  let ?trim = "TrimLeft (mapped name) left"
  let ?head = "TrimRight (take maxlen ?trim) right"
  have tk: "take (min (length ?trim) maxlen) ?trim = take maxlen ?trim" by (simp add: min_def)
  show ?thesis
  proof (cases "length ?trim \<le> maxlen")
    case True
    then show ?thesis by (simp add: label_fits Let_def)
  next
    case False
    then have "min (length ?trim) maxlen = maxlen" by simp
    then show ?thesis
      using length_TrimRight [of "take maxlen ?trim" right]
      by (auto simp: label_def trimCut_def Let_def reslice_def)
  qed
qed

section \<open>Fixed points\<close>

lemma label_wf_id:
  assumes "wf_label maxlen l" and "hd l \<notin> set left"
  shows "label l maxlen left ''-'' = Some l"
proof -
  have m: "mapped l = l" using assms(1) mapped_id by (simp add: wf_label_def)
  have t: "TrimLeft l left = l" using assms(2) by (intro TrimLeft_id) simp
  have r: "TrimRight l ''-'' = l" using assms(1) by (intro TrimRight_id) (auto simp: wf_label_def)
  show ?thesis using label_fits [of l left maxlen "''-''"] m t r assms(1) by (simp add: wf_label_def)
qed

section \<open>Domain fragments\<close>

lemma DomainFrag_parts:
  assumes "DomainFrag name [c] lab = Some d"
  obtains labs where "list_all2 (\<lambda>p l. lab p = Some l) (Split name [c]) labs"
    "d = Join (filter (\<lambda>l. l \<noteq> []) labs) [c]"
  using assms by (auto simp: DomainFrag_def bind_eq_Some_conv map_opt_Some_conv)

lemma DomainFrag_Split:
  assumes lab: "\<And>p l. lab p = Some l \<Longrightarrow> c \<notin> set l"
    and "list_all2 (\<lambda>p l. lab p = Some l) ps labs"
    and "filter (\<lambda>l. l \<noteq> []) labs \<noteq> []"
  shows "Split (Join (filter (\<lambda>l. l \<noteq> []) labs) [c]) [c] = filter (\<lambda>l. l \<noteq> []) labs"
proof (rule Split_Join [OF assms(3)])
  fix x assume "x \<in> set (filter (\<lambda>l. l \<noteq> []) labs)"
  then obtain p where "lab p = Some x"
    using list_all2_rightD [OF assms(2)] by auto
  then show "c \<notin> set x" by (rule lab)
qed

lemma DomainFrag_total:
  assumes "\<And>p. p \<in> set (Split name sep) \<Longrightarrow> \<exists>l. lab p = Some l"
  shows "\<exists>d. DomainFrag name sep lab = Some d"
  using map_opt_total [of "Split name sep" lab] assms by (auto simp: DomainFrag_def)

text \<open>A fragment whose labels are fixed points of the label function is a fixed point of \<open>DomainFrag\<close>.\<close>

lemma DomainFrag_idem:
  assumes "DomainFrag name [c] lab = Some d"
    and lab: "\<And>p l. lab p = Some l \<Longrightarrow> c \<notin> set l"
    and fp: "\<And>p l. p \<in> set (Split name [c]) \<Longrightarrow> lab p = Some l \<Longrightarrow> lab l = Some l"
    and nil: "lab [] = Some []"
  shows "DomainFrag d [c] lab = Some d"
proof -
  from assms(1) obtain labs where l2: "list_all2 (\<lambda>p l. lab p = Some l) (Split name [c]) labs"
    and d: "d = Join (filter (\<lambda>l. l \<noteq> []) labs) [c]" by (rule DomainFrag_parts)
  let ?ls = "filter (\<lambda>l. l \<noteq> []) labs"
  have ls: "lab l = Some l" if "l \<in> set labs" for l
    using list_all2_rightD [OF l2 that] fp by blast
  show ?thesis
  proof (cases "?ls = []")
    case True
    then show ?thesis using d nil by (simp add: DomainFrag_def)
  next
    case False
    have "Split d [c] = ?ls" using DomainFrag_Split [OF lab l2 False] d by simp
    moreover have "map_opt lab ?ls = Some (map (\<lambda>l. l) ?ls)"
      by (rule map_opt_all_Some) (use ls in auto)
    ultimately show ?thesis using d by (simp add: DomainFrag_def)
  qed
qed

section \<open>The interface of a label function\<close>

text \<open>
  What the generator may rely on, whichever of the two functions the configuration selects: the
  bytes, the length and the first byte of a label, and that well-formed labels are left alone.
\<close>

locale label_func =
  fixes spec :: Func and maxlen :: nat and start :: "char \<Rightarrow> bool"
  assumes spec_nil: "spec [] = Some []"
    and spec_length: "spec name = Some l \<Longrightarrow> length l \<le> maxlen"
    and spec_bytes: "spec name = Some l \<Longrightarrow> c \<in> set l \<Longrightarrow> ldh c \<or> c = CHR 0x00"
    and spec_start: "spec name = Some l \<Longrightarrow> l \<noteq> [] \<Longrightarrow> start (hd l)"
    and spec_fixed: "wf_label maxlen l \<Longrightarrow> start (hd l) \<Longrightarrow> spec l = Some l"
begin

lemma spec_no_dot: "spec name = Some l \<Longrightarrow> CHR ''.'' \<notin> set l"
  using spec_bytes [of name l "CHR ''.''"] by (auto simp: ldh_def)

lemma spec_wf_fixed: "spec name = Some l \<Longrightarrow> l = [] \<or> wf_label maxlen l \<Longrightarrow> spec l = Some l"
  using spec_nil spec_start spec_fixed by (cases "l = []") auto

text \<open>A fragment consists of label bytes and dots, and splits into non-empty labels.\<close>

lemma frag_bytes:
  assumes "DomainFrag name Sep spec = Some d" "c \<in> set d"
  shows "ldh c \<or> c = CHR 0x00 \<or> c = CHR ''.''"
proof -
  obtain labs where l: "list_all2 (\<lambda>p l. spec p = Some l) (Split name ''.'') labs"
    and d: "d = Join (filter (\<lambda>l. l \<noteq> []) labs) ''.''"
    using DomainFrag_parts [of name "CHR ''.''" spec d] assms(1) by (auto simp: Sep_def)
  have "ldh c \<or> c = CHR 0x00" if "l \<in> set labs" "c \<in> set l" for l
    using list_all2_rightD [OF l that(1)] spec_bytes that(2) by blast
  then show ?thesis using assms(2) set_Join [of "filter (\<lambda>l. l \<noteq> []) labs" "''.''"] d by fastforce
qed

lemma frag_labels:
  assumes "DomainFrag name Sep spec = Some d" "d \<noteq> []"
  shows "\<forall>l\<in>set (Split d Sep). l \<noteq> [] \<and> (\<exists>p\<in>set (Split name Sep). spec p = Some l)"
proof -
  obtain labs where l2: "list_all2 (\<lambda>p l. spec p = Some l) (Split name Sep) labs"
    and d: "d = Join (filter (\<lambda>l. l \<noteq> []) labs) Sep"
    using DomainFrag_parts [of name "CHR ''.''" spec d] assms(1) by (auto simp: Sep_def)
  have "filter (\<lambda>l. l \<noteq> []) labs \<noteq> []" using assms(2) d by auto
  then have "Split d Sep = filter (\<lambda>l. l \<noteq> []) labs"
    using DomainFrag_Split [of spec "CHR ''.''", OF spec_no_dot l2] d by (simp add: Sep_def)
  then show ?thesis using list_all2_rightD [OF l2] by auto
qed

lemma frag_idem:
  assumes "DomainFrag name Sep spec = Some d"
    and "\<And>p l. p \<in> set (Split name Sep) \<Longrightarrow> spec p = Some l \<Longrightarrow> l = [] \<or> wf_label maxlen l"
  shows "DomainFrag d Sep spec = Some d"
  unfolding Sep_def
proof (rule DomainFrag_idem [OF assms(1) [unfolded Sep_def]])
  fix p l assume "p \<in> set (Split name ''.'')" and l: "spec p = Some l"
  from spec_wf_fixed [OF l assms(2) [OF _ l]] this(1) show "spec l = Some l" by (simp add: Sep_def)
qed (auto simp: spec_nil dest: spec_no_dot)

end

interpretation rfc952: label_func RFC952 24 "\<lambda>c. c \<notin> set ''-0123456789''"
proof (unfold_locales, goal_cases)
  case 1
  show ?case by code_simp
next
  case (2 name l)
  then show ?case unfolding RFC952_def by (rule label_length)
next
  case (3 name l c)
  then show ?case unfolding RFC952_def by (rule label_set)
next
  case (4 name l)
  then show ?case unfolding RFC952_def by (intro label_hd) auto
next
  case (5 l)
  then show ?case unfolding RFC952_def by (rule label_wf_id)
qed

interpretation rfc1123: label_func RFC1123 63 "\<lambda>c. c \<notin> set ''-''"
proof (unfold_locales, goal_cases)
  case 1
  show ?case by code_simp
next
  case (2 name l)
  then show ?case unfolding RFC1123_def by (rule label_length)
next
  case (3 name l c)
  then show ?case unfolding RFC1123_def by (rule label_set)
next
  case (4 name l)
  then show ?case unfolding RFC1123_def by (intro label_hd) auto
next
  case (5 l)
  then show ?case unfolding RFC1123_def by (rule label_wf_id)
qed

section \<open>Properties\<close>

text \<open>C34: every label the two mangling functions return is at most 24 (RFC 952) or 63
  (RFC 1123) bytes long and starts with neither a hyphen nor, for RFC 952, a digit. It consists of
  lower-case letters, digits and hyphens, except that the re-slice may expose zero bytes; this
  happens only when the mangled name is longer than the limit and the mangling dropped bytes of
  the name.\<close>

theorem rfc_label_shape:
  assumes "RFC952 name = Some l" and "RFC1123 name = Some m"
  shows "length l \<le> 24 \<and> list_all (\<lambda>c. ldh c \<or> c = CHR 0x00) l
      \<and> (l \<noteq> [] \<longrightarrow> hd l \<noteq> CHR ''-'' \<and> \<not> is_digit (hd l))
      \<and> (length (mapped name) = length name \<or> length (TrimLeft (mapped name) ''-0123456789'') \<le> 24 \<longrightarrow> list_all ldh l)
    \<and> length m \<le> 63 \<and> list_all (\<lambda>c. ldh c \<or> c = CHR 0x00) m
      \<and> (m \<noteq> [] \<longrightarrow> hd m \<noteq> CHR ''-'')
      \<and> (length (mapped name) = length name \<or> length (TrimLeft (mapped name) ''-'') \<le> 63 \<longrightarrow> list_all ldh m)"
proof -
  have digit: "c \<in> set ''-0123456789''" if "is_digit c" for c
  proof -
    from that have "byte c \<in> {48..57}" by simp
    then have "byte c \<in> set [48, 49, 50, 51, 52, 53, 54, 55, 56, 57]" by (simp, presburger)
    then show ?thesis by (auto simp flip: of_char_eq_iff [where 'a = nat])
  qed
  have "l \<noteq> [] \<longrightarrow> hd l \<notin> set ''-0123456789''" using rfc952.spec_start [OF assms(1)] by simp
  then have "l \<noteq> [] \<longrightarrow> hd l \<noteq> CHR ''-'' \<and> \<not> is_digit (hd l)"
    using digit [of "hd l"] by auto
  moreover have "m \<noteq> [] \<longrightarrow> hd m \<noteq> CHR ''-''"
    using rfc1123.spec_start [OF assms(2)] by auto
  moreover have bytes: "\<And>c. c \<in> set l \<Longrightarrow> ldh c \<or> c = CHR 0x00" "\<And>c. c \<in> set m \<Longrightarrow> ldh c \<or> c = CHR 0x00"
    using rfc952.spec_bytes rfc1123.spec_bytes assms by blast+
  moreover have "list_all ldh l"
    if "length (mapped name) = length name \<or> length (TrimLeft (mapped name) ''-0123456789'') \<le> 24"
    using label_zero [OF assms(1) [unfolded RFC952_def]] that bytes(1) unfolding list_all_iff by fastforce
  moreover have "list_all ldh m" if "length (mapped name) = length name \<or> length (TrimLeft (mapped name) ''-'') \<le> 63"
    using label_zero [OF assms(2) [unfolded RFC1123_def]] that bytes(2) unfolding list_all_iff by fastforce
  ultimately show ?thesis
    using rfc952.spec_length [OF assms(1)] rfc1123.spec_length [OF assms(2)] unfolding list_all_iff by blast
qed

text \<open>A name whose mangled form fits in 63 bytes gets, under RFC 1123, the empty label or
  a well-formed host name label (no hyphen at either end), and mangling that label again
  changes nothing.\<close>

theorem RFC1123_wf_idempotent:
  assumes "length (TrimLeft (mapped name) ''-'') \<le> 63"
  shows "\<exists>l. RFC1123 name = Some l \<and> (l = [] \<or> wf_label 63 l) \<and> RFC1123 l = Some l"
proof -
  obtain l where l: "RFC1123 name = Some l"
    using label_fits [OF assms] by (simp add: RFC1123_def)
  then have wf: "l = [] \<or> wf_label 63 l"
    using label_fits_wf [OF assms] by (simp add: RFC1123_def)
  have "RFC1123 l = Some l" using l wf by (rule rfc1123.spec_wf_fixed)
  then show ?thesis using l wf by blast
qed

theorem RFC1123_wf_idempotent_witness:
  "length (TrimLeft (mapped ''Pod_123$abc-'') ''-'') \<le> 63
   \<and> RFC1123 ''Pod_123$abc-'' = Some ''pod-123abc'' \<and> wf_label 63 ''pod-123abc''
   \<and> RFC1123 ''pod-123abc'' = Some ''pod-123abc''"
proof -
  have h: "length (TrimLeft (mapped ''Pod_123$abc-'') ''-'') \<le> 63" by code_simp
  have r: "RFC1123 ''Pod_123$abc-'' = Some ''pod-123abc''" by code_simp
  show ?thesis using RFC1123_wf_idempotent [OF h] h r by auto
qed

theorem rfc_label_shape_witness:
  "RFC952 ''4Abc_1'' = Some ''abc-1'' \<and> RFC1123 ''4Abc_1'' = Some ''4abc-1''
   \<and> length ''abc-1'' \<le> 24 \<and> hd ''abc-1'' \<noteq> CHR ''-'' \<and> \<not> is_digit (hd ''abc-1'')
   \<and> list_all ldh ''abc-1'' \<and> length ''4abc-1'' \<le> 63 \<and> hd ''4abc-1'' \<noteq> CHR ''-''"
proof -
  have n: "length (mapped ''4Abc_1'') = length ''4Abc_1''" by code_simp
  have a: "RFC952 ''4Abc_1'' = Some ''abc-1''" by code_simp
  have b: "RFC1123 ''4Abc_1'' = Some ''4abc-1''" by code_simp
  show ?thesis using rfc_label_shape [OF a b] n a b by blast
qed

text \<open>C35: exactly when \<open>RFC1123\<close> panics: the 63-byte prefix of the mangled name ends in
  hyphens, more label bytes follow, and they (with the bytes dropped by the mangling) are
  too few to refill the prefix.\<close>

theorem RFC1123_panics_iff:
  "RFC1123 name = None \<longleftrightarrow>
     (let trim = TrimLeft (mapped name) ''-'';
          head = TrimRight (take 63 trim) ''-'';
          tail = TrimLeft (drop 63 trim) ''-''
      in tail \<noteq> [] \<and> length head + length tail + (length name - length (mapped name)) < 63)"
  by (simp add: RFC1123_def label_panics_iff mapped_spare_def Let_def)

text \<open>C36: the fragment \<open>DomainFrag\<close> builds under RFC 1123 from a dotted name whose parts fit in
  63 bytes each is empty or splits at the dots into well-formed labels, and building a
  fragment from it again changes nothing.\<close>

theorem DomainFrag_RFC1123:
  assumes "list_all (\<lambda>p. length (TrimLeft (mapped p) ''-'') \<le> 63) (Split name Sep)"
  shows "\<exists>d. DomainFrag name Sep RFC1123 = Some d
     \<and> (d = [] \<or> list_all (wf_label 63) (Split d Sep))
     \<and> DomainFrag d Sep RFC1123 = Some d"
proof -
  have fit: "length (TrimLeft (mapped p) ''-'') \<le> 63" if "p \<in> set (Split name Sep)" for p
    using assms that by (simp add: list_all_iff)
  have wf: "l = [] \<or> wf_label 63 l" if "p \<in> set (Split name Sep)" "RFC1123 p = Some l" for p l
    using label_fits_wf [OF fit [OF that(1)]] that(2) by (simp add: RFC1123_def)
  obtain d where d: "DomainFrag name Sep RFC1123 = Some d"
    using DomainFrag_total [of name Sep RFC1123] label_fits [OF fit] by (auto simp: RFC1123_def)
  have "d = [] \<or> list_all (wf_label 63) (Split d Sep)"
    using rfc1123.frag_labels [OF d] wf unfolding list_all_iff by blast
  moreover have "DomainFrag d Sep RFC1123 = Some d" by (rule rfc1123.frag_idem [OF d]) (rule wf)
  ultimately show ?thesis using d by blast
qed

theorem DomainFrag_RFC1123_witness:
  "list_all (\<lambda>p. length (TrimLeft (mapped p) ''-'') \<le> 63) (Split ''marathon.Prod_1'' Sep)
   \<and> DomainFrag ''marathon.Prod_1'' Sep RFC1123 = Some ''marathon.prod-1''
   \<and> list_all (wf_label 63) (Split ''marathon.prod-1'' Sep)"
proof -
  have h: "list_all (\<lambda>p. length (TrimLeft (mapped p) ''-'') \<le> 63) (Split ''marathon.Prod_1'' Sep)"
    by code_simp
  have d: "DomainFrag ''marathon.Prod_1'' Sep RFC1123 = Some ''marathon.prod-1''" by code_simp
  show ?thesis using DomainFrag_RFC1123 [OF h] h d by auto
qed

section \<open>Where the mangling goes wrong\<close>

text \<open>A valid name of 64 bytes on which \<open>RFC1123\<close> panics: an \<open>a\<close>, 62 hyphens and a \<open>b\<close>.\<close>

lemma RFC1123_panic_example: "RFC1123 (''a'' @ replicate 62 (CHR ''-'') @ ''b'') = None"
  by code_simp

text \<open>The refill is not trimmed again: the label ends in a hyphen.\<close>

lemma RFC952_trailing_hyphen:
  "RFC952 ''abcdefghijklmnopqrstuv--1-23'' = Some ''abcdefghijklmnopqrstuv1-''"
  by code_simp

text \<open>The refill reads past the slice into the backing array: the label holds zero bytes.\<close>

lemma RFC952_zero_bytes:
  "RFC952 (''abcdefghijklmnopqrst'' @ ''----'' @ ''z'' @ ''$$$'') = Some (''abcdefghijklmnopqrstz'' @ replicate 3 (CHR 0x00))"
  by code_simp

end
