(* ===== verification/Chains.thy ===== *)
theory Chains
  imports Labels
begin

text \<open>
  \<open>records/chains.go\<close>: the combinators that derive the SRV names of a task. A \<open>chain\<close> is a
  Go closure that consumes record names and updates the generator it has captured; here it
  maps the names and the captured state to the new state (\<open>None\<close> on a panic of the label
  function). The last link of every chain only reads the names it is given, so passing the
  slice by value is faithful although \<open>withProtocol\<close> and \<open>withNamedPort\<close> write to it.
\<close>

section \<open>Definitions\<close>

type_synonym 's chain = "string list \<Rightarrow> 's \<Rightarrow> 's option"

definition protocolNone :: string where "protocolNone = []"
definition domainNone :: string where "domainNone = []"

text \<open>The loop that writes \<open>._tcp.\<close> into the first and \<open>._udp.\<close> into the second half.\<close>

function proto_loop :: "nat \<Rightarrow> nat \<Rightarrow> string \<Rightarrow> string list \<Rightarrow> string list" where
  "proto_loop i j framework records =
     (if j < length records
      then proto_loop (i + 1) (j + 1) framework
        (records[i := records ! i @ ''._tcp.'' @ framework, j := records ! j @ ''._udp.'' @ framework])
      else records)"
  by pat_completeness auto
termination
  by (relation "measure (\<lambda>(i, j, f, records). length records - j)") auto

declare proto_loop.simps [simp del]

definition withProtocol :: "string \<Rightarrow> string \<Rightarrow> Func \<Rightarrow> 's chain \<Rightarrow> 's chain" where
  "withProtocol protocol framework spec gen = (\<lambda>records s. do {
     protocol' \<leftarrow> spec protocol;
     if protocol' \<noteq> protocolNone
     then gen (map (\<lambda>r. r @ ''._'' @ protocol' @ ''.'' @ framework) records) s
     else let records' = records @ records
          in gen (proto_loop 0 (length records' div 2) framework records') s })"

text \<open>\<open>copy(tmp[offset:], xs)\<close>, where the destination is large enough.\<close>

definition copy_at :: "string list \<Rightarrow> nat \<Rightarrow> string list \<Rightarrow> string list" where
  "copy_at tmp offset xs = take offset tmp @ xs @ drop (offset + length xs) tmp"

fun subdomain_loop :: "string list \<Rightarrow> string list \<Rightarrow> nat \<Rightarrow> string list \<Rightarrow> string list" where
  "subdomain_loop [] records offset tmp = tmp"
| "subdomain_loop (sub # subs) records offset tmp =
     subdomain_loop subs records (offset + length records)
       (copy_at tmp offset
         (if sub = domainNone then records else map (\<lambda>r. r @ ''.'' @ sub) records))"

definition withSubdomains :: "string list \<Rightarrow> 's chain \<Rightarrow> 's chain" where
  "withSubdomains subdomains gen =
     (if subdomains = [] then gen
      else (\<lambda>records s.
        gen (subdomain_loop subdomains records 0 (replicate (length records * length subdomains) [])) s))"

definition withNamedPort :: "string \<Rightarrow> Func \<Rightarrow> 's chain \<Rightarrow> 's chain option" where
  "withNamedPort portName spec gen = do {
     portName' \<leftarrow> spec portName;
     if portName' = [] then Some gen
     else Some (\<lambda>records s. do {
       s' \<leftarrow> gen records s;
       gen (map (\<lambda>r. ''_'' @ portName' @ ''.'' @ r) records) s' }) }"

text \<open>
  The last link, a local function of \<open>taskContextRecord\<close>: one SRV record per name, all to
  the same target. \<open>put\<close> is the insertion the closure performs.
\<close>

definition asSRV :: "(string \<Rightarrow> string \<Rightarrow> 's \<Rightarrow> 's) \<Rightarrow> string \<Rightarrow> string \<Rightarrow> 's chain" where
  "asSRV put tail target = (\<lambda>records s. Some (fold (\<lambda>r. put (r @ tail) target) records s))"

section \<open>The slice loops compute the intended lists\<close>

lemma proto_loop_eq:
  assumes "j = i + n" "length records = 2 * n" "i \<le> n"
  shows "proto_loop i j fw records =
    take i records @ map (\<lambda>r. r @ ''._tcp.'' @ fw) (take (n - i) (drop i records))
    @ take i (drop n records) @ map (\<lambda>r. r @ ''._udp.'' @ fw) (drop j records)"
  using assms
proof (induction i j fw records rule: proto_loop.induct)
  case (1 i j fw records)
  let ?rs = "records[i := records ! i @ ''._tcp.'' @ fw, j := records ! j @ ''._udp.'' @ fw]"
  show ?case
  proof (cases "j < length records")
    case True
    then have i: "i < n" using "1.prems" by simp
    have IH: "proto_loop (i + 1) (j + 1) fw ?rs =
        take (i + 1) ?rs @ map (\<lambda>r. r @ ''._tcp.'' @ fw) (take (n - (i + 1)) (drop (i + 1) ?rs))
        @ take (i + 1) (drop n ?rs) @ map (\<lambda>r. r @ ''._udp.'' @ fw) (drop (j + 1) ?rs)"
      using "1.IH" [OF True] "1.prems" i by simp
    have ij: "i < length records" "i < j" using i "1.prems" by auto
    have t1: "take (i + 1) ?rs = take i records @ [records ! i @ ''._tcp.'' @ fw]"
      using ij by (simp add: take_Suc_conv_app_nth take_update_cancel)
    have t2: "take (n - (i + 1)) (drop (i + 1) ?rs) = take (n - (i + 1)) (drop (i + 1) records)"
      using ij "1.prems" i by (simp add: drop_update_cancel drop_update_swap take_update_cancel)
    have jn: "j = n + i" using "1.prems" by simp
    have d: "drop n ?rs = (drop n records)[i := records ! j @ ''._udp.'' @ fw]"
      using ij "1.prems" jn i by (simp add: drop_update_cancel drop_update_swap)
    have t3: "take (i + 1) (drop n ?rs) = take i (drop n records) @ [records ! j @ ''._udp.'' @ fw]"
      unfolding d using "1.prems" i by (simp add: take_Suc_conv_app_nth take_update_cancel)
    have t4: "drop (j + 1) ?rs = drop (j + 1) records" using ij by (simp add: drop_update_cancel)
    have s1: "take (n - i) (drop i records) = records ! i # take (n - (i + 1)) (drop (i + 1) records)"
      using i ij by (simp add: Cons_nth_drop_Suc [symmetric] take_Cons' Suc_diff_Suc)
    have s2: "drop j records = records ! j # drop (j + 1) records"
      using True by (simp add: Cons_nth_drop_Suc)
    show ?thesis
      using True IH t1 t2 t3 t4 s1 s2 by (simp add: proto_loop.simps [of i j])
  next
    case False
    then have "i = n" using "1.prems" by simp
    then show ?thesis using False "1.prems" by (simp add: proto_loop.simps [of n "n + n"])
  qed
qed

lemma proto_loop_both:
  "proto_loop 0 (length (records @ records) div 2) fw (records @ records) =
     map (\<lambda>r. r @ ''._tcp.'' @ fw) records @ map (\<lambda>r. r @ ''._udp.'' @ fw) records"
  by (subst proto_loop_eq [where n = "length records"]) simp_all

definition with_subdomain :: "string list \<Rightarrow> string \<Rightarrow> string list" where
  "with_subdomain records sub = (if sub = domainNone then records else map (\<lambda>r. r @ ''.'' @ sub) records)"

lemma with_subdomain_map:
  "with_subdomain records sub = map (\<lambda>r. if sub = domainNone then r else r @ ''.'' @ sub) records"
  by (simp add: with_subdomain_def)

lemma length_with_subdomain [simp]: "length (with_subdomain records sub) = length records"
  by (simp add: with_subdomain_def)

lemma subdomain_loop_eq:
  assumes "length tmp = offset + length records * length subs"
  shows "subdomain_loop subs records offset tmp = take offset tmp @ concat (map (with_subdomain records) subs)"
  using assms
proof (induction subs arbitrary: offset tmp)
  case Nil
  then show ?case by simp
next
  case (Cons sub subs)
  have "subdomain_loop (sub # subs) records offset tmp =
      subdomain_loop subs records (offset + length records) (copy_at tmp offset (with_subdomain records sub))"
    by (simp add: with_subdomain_def)
  also have "\<dots> = take (offset + length records) (copy_at tmp offset (with_subdomain records sub))
      @ concat (map (with_subdomain records) subs)"
    using Cons.prems by (intro Cons.IH) (simp add: copy_at_def)
  also have "take (offset + length records) (copy_at tmp offset (with_subdomain records sub))
      = take offset tmp @ with_subdomain records sub"
    using Cons.prems by (simp add: copy_at_def)
  finally show ?case by simp
qed

section \<open>When a chain returns\<close>

definition chain_total :: "'s chain \<Rightarrow> bool" where
  "chain_total c \<longleftrightarrow> (\<forall>records s. \<exists>s'. c records s = Some s')"

lemma chain_totalD: "chain_total c \<Longrightarrow> \<exists>s'. c records s = Some s'"
  by (simp add: chain_total_def)

lemma chain_total_asSRV: "chain_total (asSRV put tail target)"
  by (simp add: chain_total_def asSRV_def)

lemma chain_total_withSubdomains: "chain_total gen \<Longrightarrow> chain_total (withSubdomains subs gen)"
  by (simp add: chain_total_def withSubdomains_def)

lemma chain_total_withProtocol:
  "chain_total gen \<Longrightarrow> spec p \<noteq> None \<Longrightarrow> chain_total (withProtocol p fw spec gen)"
  by (auto simp: chain_total_def withProtocol_def Let_def)

lemma chain_total_withNamedPort:
  assumes "chain_total gen" "spec p \<noteq> None"
  shows "\<exists>c. withNamedPort p spec gen = Some c \<and> chain_total c"
proof -
  have "\<exists>s'. (gen records s \<bind> gen records') = Some s'" for records records' s
    using chain_totalD [OF assms(1), of records s] chain_totalD [OF assms(1), of records'] by fastforce
  then show ?thesis using assms by (auto simp: chain_total_def withNamedPort_def)
qed

section \<open>What a chain emits\<close>

text \<open>
  The contract between the chains and the generator: \<open>put\<close> adds one entry to the zone the
  captured state stands for. \<open>emits c N\<close> says that the chain \<open>c\<close> always returns and adds,
  for every name \<open>r\<close> it is given, exactly the entries \<open>N r\<close>.
\<close>

locale chain_sink =
  fixes put :: "string \<Rightarrow> string \<Rightarrow> 's \<Rightarrow> 's"
    and zone :: "'s \<Rightarrow> 'z set"
    and entry :: "string \<Rightarrow> string \<Rightarrow> 'z set"
    and ok :: "'s \<Rightarrow> bool"
  assumes ok_put: "ok s \<Longrightarrow> ok (put n t s)"
    and zone_put: "ok s \<Longrightarrow> zone (put n t s) = zone s \<union> entry n t"
begin

definition emits :: "'s chain \<Rightarrow> (string \<Rightarrow> 'z set) \<Rightarrow> bool" where
  "emits c N \<longleftrightarrow> (\<forall>records s. ok s \<longrightarrow>
     (\<exists>s'. c records s = Some s' \<and> ok s' \<and> zone s' = zone s \<union> (\<Union>r\<in>set records. N r)))"

lemma emitsD:
  "emits c N \<Longrightarrow> ok s \<Longrightarrow> \<exists>s'. c records s = Some s' \<and> ok s' \<and> zone s' = zone s \<union> (\<Union>r\<in>set records. N r)"
  by (simp add: emits_def)

lemma emits_asSRV: "emits (asSRV put tail target) (\<lambda>r. entry (r @ tail) target)"
proof -
  have "ok s \<Longrightarrow> ok (fold (\<lambda>r. put (r @ tail) target) records s) \<and>
      zone (fold (\<lambda>r. put (r @ tail) target) records s) = zone s \<union> (\<Union>r\<in>set records. entry (r @ tail) target)"
    for records s
    by (induction records arbitrary: s) (auto simp: ok_put zone_put)
  then show ?thesis by (simp add: emits_def asSRV_def)
qed

lemma emits_withProtocol:
  assumes "emits gen N" and "spec protocol = Some p"
  shows "emits (withProtocol protocol fw spec gen)
    (\<lambda>r. if p \<noteq> [] then N (r @ ''._'' @ p @ ''.'' @ fw)
         else N (r @ ''._tcp.'' @ fw) \<union> N (r @ ''._udp.'' @ fw))"
proof (cases "p = []")
  case True
  show ?thesis
    unfolding emits_def
  proof (intro allI impI)
    fix records s assume "ok s"
    from emitsD [OF assms(1) this,
        of "map (\<lambda>r. r @ ''._tcp.'' @ fw) records @ map (\<lambda>r. r @ ''._udp.'' @ fw) records"]
    show "\<exists>s'. withProtocol protocol fw spec gen records s = Some s' \<and> ok s' \<and>
        zone s' = zone s \<union> (\<Union>r\<in>set records. if p \<noteq> [] then N (r @ ''._'' @ p @ ''.'' @ fw)
         else N (r @ ''._tcp.'' @ fw) \<union> N (r @ ''._udp.'' @ fw))"
      using True assms(2) proto_loop_both [of records fw]
      by (auto simp: withProtocol_def protocolNone_def Let_def)
  qed
next
  case False
  show ?thesis
    unfolding emits_def
  proof (intro allI impI)
    fix records s assume "ok s"
    from emitsD [OF assms(1) this, of "map (\<lambda>r. r @ ''._'' @ p @ ''.'' @ fw) records"]
    show "\<exists>s'. withProtocol protocol fw spec gen records s = Some s' \<and> ok s' \<and>
        zone s' = zone s \<union> (\<Union>r\<in>set records. if p \<noteq> [] then N (r @ ''._'' @ p @ ''.'' @ fw)
         else N (r @ ''._tcp.'' @ fw) \<union> N (r @ ''._udp.'' @ fw))"
      using False assms(2) by (simp add: withProtocol_def protocolNone_def)
  qed
qed

lemma emits_withSubdomains:
  assumes "emits gen N" and "subs \<noteq> []"
  shows "emits (withSubdomains subs gen)
    (\<lambda>r. \<Union>sub\<in>set subs. N (if sub = domainNone then r else r @ ''.'' @ sub))"
  unfolding emits_def
proof (intro allI impI)
  fix records s assume ok: "ok s"
  let ?names = "concat (map (with_subdomain records) subs)"
  have names: "subdomain_loop subs records 0 (replicate (length records * length subs) []) = ?names"
    by (simp add: subdomain_loop_eq)
  have set: "(\<Union>r\<in>set ?names. N r) =
      (\<Union>r\<in>set records. \<Union>sub\<in>set subs. N (if sub = domainNone then r else r @ ''.'' @ sub))"
    unfolding with_subdomain_map by (rule UN_set_concat_map)
  from emitsD [OF assms(1) ok, of ?names]
  show "\<exists>s'. withSubdomains subs gen records s = Some s' \<and> ok s' \<and> zone s' = zone s \<union>
      (\<Union>r\<in>set records. \<Union>sub\<in>set subs. N (if sub = domainNone then r else r @ ''.'' @ sub))"
    using assms(2) names set by (simp add: withSubdomains_def)
qed

lemma emits_withNamedPort:
  assumes "emits gen N" and "spec portName = Some p"
  shows "\<exists>c. withNamedPort portName spec gen = Some c \<and>
    emits c (\<lambda>r. N r \<union> (if p = [] then {} else N (''_'' @ p @ ''.'' @ r)))"
proof (cases "p = []")
  case True
  then show ?thesis using assms by (simp add: withNamedPort_def)
next
  case False
  let ?c = "\<lambda>records s. do { s' \<leftarrow> gen records s; gen (map (\<lambda>r. ''_'' @ p @ ''.'' @ r) records) s' }"
  have "emits ?c (\<lambda>r. N r \<union> (if p = [] then {} else N (''_'' @ p @ ''.'' @ r)))"
    unfolding emits_def
  proof (intro allI impI)
    fix records s assume "ok s"
    from emitsD [OF assms(1) this, of records] obtain s1 where
      s1: "gen records s = Some s1" "ok s1" "zone s1 = zone s \<union> (\<Union>r\<in>set records. N r)" by blast
    from emitsD [OF assms(1) s1(2), of "map (\<lambda>r. ''_'' @ p @ ''.'' @ r) records"]
    show "\<exists>s'. ?c records s = Some s' \<and> ok s' \<and> zone s' = zone s \<union>
        (\<Union>r\<in>set records. N r \<union> (if p = [] then {} else N (''_'' @ p @ ''.'' @ r)))"
      using s1 False by auto
  qed
  then show ?thesis using assms(2) False by (simp add: withNamedPort_def)
qed

end

end
