(* ===== verification/Hashing.thy ===== *)
theory Hashing
  imports Go_Strings "HOL-Library.Word"
begin

unbundle bit_operations_syntax

text \<open>
  \<open>hashString\<close> of \<open>records/generator.go\<close>: the first five characters of the z-base-32
  encoding of a SHA-1 digest. The encoder is the vendored package
  \<open>github.com/tv42/zbase32\<close>; SHA-1 is Go's \<open>crypto/sha1\<close> (FIPS 180).
\<close>

type_synonym u8 = "8 word"
type_synonym u32 = "32 word"

section \<open>SHA-1\<close>

definition be_bytes64 :: "nat \<Rightarrow> u8 list" where
  "be_bytes64 n = map (\<lambda>k. ucast (drop_bit k (of_nat n :: 64 word))) [56, 48, 40, 32, 24, 16, 8, 0]"

definition sha1_pad :: "u8 list \<Rightarrow> u8 list" where
  "sha1_pad m =
     m @ [0x80] @ replicate ((119 - length m mod 64) mod 64) 0 @ be_bytes64 (8 * length m)"

fun be_words :: "u8 list \<Rightarrow> u32 list" where
  "be_words (a # b # c # d # r) =
     (push_bit 24 (ucast a) OR push_bit 16 (ucast b) OR push_bit 8 (ucast c) OR ucast d) # be_words r"
| "be_words _ = []"

definition be_word_bytes :: "u32 \<Rightarrow> u8 list" where
  "be_word_bytes w = [ucast (drop_bit 24 w), ucast (drop_bit 16 w), ucast (drop_bit 8 w), ucast w]"

text \<open>The message schedule \<open>w[16..79]\<close>.\<close>

definition sha1_schedule :: "u32 list \<Rightarrow> u32 list" where
  "sha1_schedule ws =
     fold (\<lambda>t w. w @ [word_rotl 1 (w ! (t - 3) XOR w ! (t - 8) XOR w ! (t - 14) XOR w ! (t - 16))])
       [16..<80] ws"

definition sha1_round :: "nat \<Rightarrow> u32 \<Rightarrow> u32 \<times> u32 \<times> u32 \<times> u32 \<times> u32 \<Rightarrow> u32 \<times> u32 \<times> u32 \<times> u32 \<times> u32" where
  "sha1_round t w = (\<lambda>(a, b, c, d, e).
     let (f, k) =
       (if t < 20 then ((b AND c) OR (NOT b AND d), 0x5A827999)
        else if t < 40 then (b XOR c XOR d, 0x6ED9EBA1)
        else if t < 60 then ((b AND c) OR (b AND d) OR (c AND d), 0x8F1BBCDC)
        else (b XOR c XOR d, 0xCA62C1D6))
     in (word_rotl 5 a + f + e + w + k, a, word_rotl 30 b, c, d))"

definition sha1_block :: "u32 list \<Rightarrow> u32 \<times> u32 \<times> u32 \<times> u32 \<times> u32 \<Rightarrow> u32 \<times> u32 \<times> u32 \<times> u32 \<times> u32" where
  "sha1_block ws = (\<lambda>(h0, h1, h2, h3, h4).
     let (a, b, c, d, e) =
       fold (\<lambda>(t, w). sha1_round t w) (enumerate 0 (sha1_schedule ws)) (h0, h1, h2, h3, h4)
     in (h0 + a, h1 + b, h2 + c, h3 + d, h4 + e))"

function sha1_blocks :: "u32 list \<Rightarrow> u32 \<times> u32 \<times> u32 \<times> u32 \<times> u32 \<Rightarrow> u32 \<times> u32 \<times> u32 \<times> u32 \<times> u32" where
  "sha1_blocks ws h = (if ws = [] then h else sha1_blocks (drop 16 ws) (sha1_block (take 16 ws) h))"
  by pat_completeness auto
termination
  by (relation "measure (\<lambda>(ws, h). length ws)") auto

declare sha1_blocks.simps [simp del]

definition sha1_Sum :: "string \<Rightarrow> u8 list" where
  "sha1_Sum s =
     (let m = map (\<lambda>c. of_nat (byte c)) s;
          (h0, h1, h2, h3, h4) =
            sha1_blocks (be_words (sha1_pad m)) (0x67452301, 0xEFCDAB89, 0x98BADCFE, 0x10325476, 0xC3D2E1F0)
      in concat (map be_word_bytes [h0, h1, h2, h3, h4]))"

section \<open>z-base-32\<close>

definition alphabet :: string where
  "alphabet = ''ybndrfg8ejkmcpqxot1uwisza345h769''"

text \<open>The five bits of the stream at bit offset \<open>offset\<close> of the byte \<open>b0\<close>, which \<open>b1\<close> follows.\<close>

definition quintet :: "nat \<Rightarrow> u8 \<Rightarrow> u8 \<Rightarrow> u8" where
  "quintet offset b0 b1 =
     (if offset < 4 then drop_bit (3 - offset) (b0 AND push_bit (3 - offset) 31)
      else push_bit (offset - 3) (b0 AND drop_bit (offset - 3) 31)
        OR drop_bit (11 - offset) (b1 AND push_bit (11 - offset) 255))"

lemma next_offset:
  "(i + 5) mod 8 = (if i mod 8 > 2 then i mod 8 - 3 else i mod 8 + 5)" for i :: nat
proof -
  have "(i + 5) mod 8 = (i mod 8 + 5) mod 8" by (simp only: mod_add_left_eq)
  moreover have "i mod 8 < 8" by simp
  ultimately show ?thesis
    by (cases "i mod 8 > 2") (simp_all add: mod_if [of "i mod 8 + 5"])
qed

text \<open>\<open>encode(dst, src, -1)\<close> from bit position \<open>i\<close>: the bytes written to \<open>dst\<close>.\<close>

function encode :: "u8 list \<Rightarrow> nat \<Rightarrow> string" where
  "encode src i =
     (if src = [] then []
      else
        let b0 = hd src;
            b1 = (if length src > 1 then src ! 1 else 0);
            offset = i mod 8
        in alphabet ! unat (quintet offset b0 b1)
           # encode (if offset > 2 then tl src else src) (i + 5))"
  by pat_completeness auto
termination
proof (relation "measure (\<lambda>(src, i). 2 * length src - (if i mod 8 \<le> 2 then 0 else 1))", goal_cases)
  case (2 src i b0 b1 offset)
  then have "length src > 0" by simp
  then have "2 * (length src - Suc 0) < 2 * length src - Suc 0"
    "2 * (length src - Suc 0) - Suc 0 < 2 * length src - Suc 0" by linarith+
  then show ?case
    using 2 next_offset [of i] by (cases "i mod 8 > 2") auto
qed simp

declare encode.simps [simp del]

definition EncodeToString :: "u8 list \<Rightarrow> string" where
  "EncodeToString src = encode src 0"

definition hashString :: "string \<Rightarrow> string" where
  "hashString s = take 5 (EncodeToString (sha1_Sum s))"

section \<open>Lemmas\<close>

lemma length_sha1_Sum: "length (sha1_Sum s) = 20"
  by (simp add: sha1_Sum_def be_word_bytes_def Let_def split: prod.split)

lemma quintet_bound:
  assumes "offset < 8" shows "unat (quintet offset b0 b1) < 32"
proof -
  have 1: "quintet offset b0 b1 = take_bit 5 (quintet offset b0 b1)"
  proof (rule bit_word_eqI)
    fix n assume n: "n < LENGTH(8)"
    then have n: "n < 8" by simp
    have m31: "bit (31 :: int) k \<longleftrightarrow> k < 5" for k
      using bit_mask_iff [of 5 k, where 'a = int] by (auto simp: mask_eq_exp_minus_1)
    consider "offset < 4" | "4 \<le> offset" by linarith
    then show "bit (quintet offset b0 b1) n = bit (take_bit 5 (quintet offset b0 b1)) n"
    proof cases
      case 1
      then show ?thesis using n by (auto simp: quintet_def bit_simps m31)
    next
      case 2
      then show ?thesis using n assms by (auto simp: quintet_def bit_simps m31)
    qed
  qed
  have "unat (take_bit 5 (quintet offset b0 b1)) < 2 ^ 5"
    using take_bit_nat_less_exp [of 5 "unat (quintet offset b0 b1)"]
    by (simp add: unsigned_take_bit_eq)
  with 1 show ?thesis by simp
qed

lemma set_encode: "set (encode src i) \<subseteq> set alphabet"
proof (induction src i rule: encode.induct)
  case (1 src i)
  have "alphabet ! unat (quintet (i mod 8) x y) \<in> set alphabet" for x y
    by (rule nth_mem) (use quintet_bound [of "i mod 8" x y] in \<open>simp add: alphabet_def\<close>)
  with 1 show ?case by (subst encode.simps) (auto simp: Let_def)
qed

lemma div5_step: "(a + 5) div 5 = Suc (a div 5)" for a :: nat
  by simp

lemma ceil_step: "(8 * l - k + 4) div 5 = Suc ((8 * l - (k + 5) + 4) div 5)"
  if "k \<le> 2" "0 < l" for k l :: nat
proof -
  have eq: "8 * l - k + 4 = (8 * l - (k + 5) + 4) + 5" using that by linarith
  show ?thesis by (subst eq) (rule div5_step)
qed

lemma length_encode:
  "src \<noteq> [] \<Longrightarrow> length (encode src i) = (8 * length src - i mod 8 + 4) div 5"
proof (induction src i rule: encode.induct)
  case (1 src i)
  let ?o = "i mod 8"
  obtain x xs where src: "src = x # xs" using "1.prems" by (cases src) auto
  have o: "?o < 8" by simp
  have nil: "encode [] j = []" for j by (simp add: encode.simps)
  have len: "length (encode src i) = Suc (length (encode (if ?o > 2 then tl src else src) (i + 5)))"
    using "1.prems" by (subst encode.simps) (simp add: Let_def)
  have IH: "length (encode s (i + 5)) = (8 * length s - (i + 5) mod 8 + 4) div 5"
    if "s = (if ?o > 2 then tl src else src)" "s \<noteq> []" for s
    using "1.IH" [OF "1.prems" refl refl refl] that by blast
  show ?case
  proof (cases "?o > 2")
    case True
    show ?thesis
    proof (cases "xs = []")
      case True
      have one: "(8 - ?o + 4) div 5 = 1" using \<open>?o > 2\<close> o by presburger
      have "length (encode src i) = 1" using \<open>?o > 2\<close> True len src nil by simp
      moreover have "length src = 1" using True src by simp
      ultimately show ?thesis using one by (simp only: mult_1_right)
    next
      case False
      then have l: "length xs > 0" by simp
      have eq: "8 * length src - ?o + 4 = 8 * length xs - (?o - 3) + 4 + 5"
      proof -
        have "length src = length xs + 1" using src by simp
        then show ?thesis using True o l by linarith
      qed
      have "length (encode src i) = Suc ((8 * length xs - (i + 5) mod 8 + 4) div 5)"
        using True False len IH [of xs] src by simp
      also have "(i + 5) mod 8 = ?o - 3" using True next_offset [of i] by (simp only: if_True)
      also have "Suc ((8 * length xs - (?o - 3) + 4) div 5) = (8 * length src - ?o + 4) div 5"
        by (subst eq) (rule div5_step [symmetric])
      finally show ?thesis .
    qed
  next
    case False
    have "length (encode src i) = Suc ((8 * length src - (i + 5) mod 8 + 4) div 5)"
      using False len IH [of src] "1.prems" by simp
    also have "(i + 5) mod 8 = ?o + 5" using False next_offset [of i] by (simp only: if_False)
    also have "Suc ((8 * length src - (?o + 5) + 4) div 5) = (8 * length src - ?o + 4) div 5"
      using ceil_step [of ?o "length src"] False src by (simp only: not_less list.size)
    finally show ?thesis .
  qed
qed

lemma alphabet_ldh: "c \<in> set alphabet \<Longrightarrow> (97 \<le> byte c \<and> byte c \<le> 122) \<or> is_digit c"
  by (auto simp: alphabet_def)

lemma hashString_chars: "c \<in> set (hashString s) \<Longrightarrow> (97 \<le> byte c \<and> byte c \<le> 122) \<or> is_digit c"
  using set_encode set_take_subset alphabet_ldh by (fastforce simp: hashString_def EncodeToString_def)

section \<open>Properties\<close>

text \<open>The hash that makes a task name canonical is always five characters long, each a
  lower-case letter or a digit, so that it may be part of a host name label; the digest it
  is cut from encodes to 32 characters, so the slice is within bounds.\<close>

theorem hashString_shape:
  "length (hashString s) = 5 \<and> length (EncodeToString (sha1_Sum s)) = 32
   \<and> list_all (\<lambda>c. (97 \<le> byte c \<and> byte c \<le> 122) \<or> is_digit c) (hashString s)"
proof -
  have "sha1_Sum s \<noteq> []" using length_sha1_Sum [of s] by auto
  then have len: "length (EncodeToString (sha1_Sum s)) = 32"
    by (simp add: EncodeToString_def length_encode length_sha1_Sum)
  show ?thesis using len hashString_chars by (simp add: hashString_def list_all_iff)
qed

end
