(* ===== verification/Mesos_State.thy ===== *)
theory Mesos_State
  imports Complex_Main Go_Net
begin

text \<open>
  \<open>records/state/state.go\<close>: the data model of the Mesos master's \<open>state.json\<close>, the expansion
  of port ranges, and the lookup of a task's IP addresses in its statuses. The record
  types have the fields of the Go structs, each field prefixed with its struct's name; an
  embedded pointer that may be nil (\<open>PID\<close>) is an option. \<open>Timestamp\<close>, a finite
  \<open>float64\<close>, is a rational. The vendored \<open>upid.Parse\<close> takes the outcome of
  \<open>net.ResolveTCPAddr\<close> as a parameter.
\<close>

section \<open>Data\<close>

record Resources =
  PortRanges :: string

record Label =
  Label_Key :: string
  Label_Value :: string

record IPAddress =
  IPAddress_IPAddress :: string

record NetworkInfo =
  NetworkInfo_IPAddresses :: "IPAddress list"
  NetworkInfo_IPAddress :: string

record ContainerStatus =
  ContainerStatus_NetworkInfos :: "NetworkInfo list"

record Status =
  Status_Timestamp :: rat
  Status_State :: string
  Status_Labels :: "Label list"
  Status_ContainerStatus :: ContainerStatus

record DiscoveryPort =
  DiscoveryPort_Protocol :: string
  DiscoveryPort_Number :: int
  DiscoveryPort_Name :: string

record DiscoveryInfo =
  DiscoveryInfo_Visibilty :: string
  DiscoveryInfo_Version :: string
  DiscoveryInfo_Name :: string
  DiscoveryInfo_Location :: string
  DiscoveryInfo_Environment :: string
  DiscoveryInfo_Labels :: "Label list"
  DiscoveryInfo_Ports :: "DiscoveryPort list"

record Task =
  Task_FrameworkID :: string
  Task_ID :: string
  Task_Name :: string
  Task_SlaveID :: string
  Task_State :: string
  Task_Statuses :: "Status list"
  Task_Resources :: Resources
  Task_DiscoveryInfo :: DiscoveryInfo
  Task_SlaveIP :: string
  Task_Labels :: "Label list"

record UPID =
  UPID_ID :: string
  UPID_Host :: string
  UPID_Port :: string

type_synonym PID = "UPID option"

record Framework =
  Framework_Tasks :: "Task list"
  Framework_PID :: PID
  Framework_Name :: string
  Framework_Hostname :: string
  Framework_Active :: bool

record Attributes =
  Attributes_DC :: string
  Attributes_Master :: string
  Attributes_Rack :: string

record Slave =
  Slave_ID :: string
  Slave_Hostname :: string
  Slave_PID :: PID
  Slave_Attrs :: Attributes
  Slave_Active :: bool

record State =
  State_Frameworks :: "Framework list"
  State_Slaves :: "Slave list"
  State_Leader :: string

section \<open>Ports\<close>

text \<open>
  One entry \<open>lo-hi\<close> of a range list. The errors of \<open>Atoi\<close> are ignored, its value is not. The
  loop \<open>for t := lo; t <= hi; t++\<close> never ends when \<open>hi\<close> is the largest \<open>int\<close>: there is
  no result then either.
\<close>

definition port_range :: "string \<Rightarrow> string list option" where
  "port_range port = do {
     let tmp = TrimSpace port;
     let pz = Split tmp ''-'';
     p0 \<leftarrow> slice_at pz 0;
     p1 \<leftarrow> slice_at pz 1;
     let lo = fst (Atoi p0);
     let hi = fst (Atoi p1);
     if lo \<le> hi \<and> hi = max_int64 then None else Some (map Itoa [lo..hi]) }"

definition Ports :: "Resources \<Rightarrow> string list option" where
  "Ports r =
     (if PortRanges r = [] \<or> PortRanges r = ''[]'' then Some []
      else do {
        rhs \<leftarrow> slice_at (Split (PortRanges r) ''['') 1;
        lhs \<leftarrow> slice_at (Split rhs '']'') 0;
        yports \<leftarrow> map_opt port_range (Split lhs '','');
        Some (concat yports) })"

section \<open>Task addresses\<close>

definition HasDiscoveryInfo :: "Task \<Rightarrow> bool" where
  "HasDiscoveryInfo t \<longleftrightarrow> DiscoveryInfo_Name (Task_DiscoveryInfo t) \<noteq> []"

text \<open>The selection loop of \<open>StatusIPs\<close>: \<open>ts\<close> and \<open>j\<close> are its two variables, \<open>None\<close> for \<open>j = -1\<close>.\<close>

fun status_loop :: "Status list \<Rightarrow> rat \<Rightarrow> Status option \<Rightarrow> Status option" where
  "status_loop [] ts j = j"
| "status_loop (s # st) ts j =
     (if Status_State s = ''TASK_RUNNING'' \<and> Status_Timestamp s > ts
      then status_loop st (Status_Timestamp s) (Some s)
      else status_loop st ts j)"

definition StatusIPs :: "Status list \<Rightarrow> (Status \<Rightarrow> string list) \<Rightarrow> string list" where
  "StatusIPs st src = (case status_loop st (- 1) None of Some s \<Rightarrow> src s | None \<Rightarrow> [])"

definition Labels :: "string \<Rightarrow> Status \<Rightarrow> string list" where
  "Labels key s = map Label_Value (filter (\<lambda>l. Label_Key l = key) (Status_Labels s))"

definition DockerIPLabel :: string where
  "DockerIPLabel = ''Docker.NetworkSettings.IPAddress''"

definition MesosIPLabel :: string where
  "MesosIPLabel = ''MesosContainerizer.NetworkSettings.IPAddress''"

definition hostIPs :: "Task \<Rightarrow> string list" where
  "hostIPs t = [Task_SlaveIP t]"

text \<open>
  The result slice is made with one empty string per network before the addresses are
  appended to it.
\<close>

definition netinfo_ips :: "NetworkInfo \<Rightarrow> string list" where
  "netinfo_ips netinfo =
     (if length (NetworkInfo_IPAddresses netinfo) > 0
      then map IPAddress_IPAddress (NetworkInfo_IPAddresses netinfo)
      else if NetworkInfo_IPAddress netinfo \<noteq> [] then [NetworkInfo_IPAddress netinfo]
      else [])"

definition networkInfoIPs :: "Task \<Rightarrow> string list" where
  "networkInfoIPs t = StatusIPs (Task_Statuses t)
     (\<lambda>s. let ns = ContainerStatus_NetworkInfos (Status_ContainerStatus s)
          in replicate (length ns) [] @ concat (map netinfo_ips ns))"

definition dockerIPs :: "Task \<Rightarrow> string list" where
  "dockerIPs t = StatusIPs (Task_Statuses t) (Labels DockerIPLabel)"

definition mesosIPs :: "Task \<Rightarrow> string list" where
  "mesosIPs t = StatusIPs (Task_Statuses t) (Labels MesosIPLabel)"

definition sources :: "string \<Rightarrow> (Task \<Rightarrow> string list) option" where
  "sources = [''host'' \<mapsto> hostIPs, ''mesos'' \<mapsto> mesosIPs, ''docker'' \<mapsto> dockerIPs, ''netinfo'' \<mapsto> networkInfoIPs]"

text \<open>\<open>IPs\<close> may be called on a nil task.\<close>

definition Task_IPs :: "Task option \<Rightarrow> string list \<Rightarrow> IP list" where
  "Task_IPs t srcs =
     (case t of
        None \<Rightarrow> []
      | Some t \<Rightarrow>
          concat (map (\<lambda>s. case sources s of
              None \<Rightarrow> []
            | Some src \<Rightarrow> List.map_filter ParseIP (src t)) srcs))"

definition Task_IP :: "Task \<Rightarrow> string list \<Rightarrow> string" where
  "Task_IP t srcs = (case Task_IPs (Some t) srcs of ip # _ \<Rightarrow> IP_String ip | [] \<Rightarrow> [])"

section \<open>Process identifiers\<close>

definition HostPort :: "Framework \<Rightarrow> string \<times> string" where
  "HostPort f =
     (case Framework_PID f of
        Some u \<Rightarrow> (UPID_Host u, UPID_Port u)
      | None \<Rightarrow> (Framework_Hostname f, []))"

datatype upid_error = ExpectOneAt | BadAddress

text \<open>\<open>upid.Parse\<close>; \<open>resolves\<close> tells whether \<open>net.ResolveTCPAddr("tcp4", addr)\<close> succeeds.\<close>

definition upid_Parse :: "(string \<Rightarrow> bool) \<Rightarrow> string \<Rightarrow> upid_error + UPID" where
  "upid_Parse resolves input =
     (case Split input ''@'' of
        [ident, addr] \<Rightarrow>
          if \<not> resolves addr then Inl BadAddress
          else let (host, port, _) = SplitHostPort addr
               in Inr \<lparr>UPID_ID = ident, UPID_Host = host, UPID_Port = port\<rparr>
      | _ \<Rightarrow> Inl ExpectOneAt)"

text \<open>\<open>PID.UnmarshalJSON\<close>: the new value of the pointer and the error.\<close>

definition UnmarshalJSON :: "(string \<Rightarrow> bool) \<Rightarrow> string \<Rightarrow> PID \<times> upid_error option" where
  "UnmarshalJSON resolves data =
     (case upid_Parse resolves (TrimBoth data [CHR 0x22, CHR '' '']) of
        Inl e \<Rightarrow> (None, Some e)
      | Inr u \<Rightarrow> (Some u, None))"

definition UPID_String :: "UPID \<Rightarrow> string" where
  "UPID_String u = UPID_ID u @ ''@'' @ UPID_Host u @ '':'' @ UPID_Port u"

section \<open>Lemmas: ports\<close>

lemma slice_at_0: "xs \<noteq> [] \<Longrightarrow> slice_at xs 0 = Some (hd xs)"
  by (simp add: slice_at_def hd_conv_nth)

lemma TrimSpace_id: "s \<noteq> [] \<Longrightarrow> byte (hd s) > 32 \<Longrightarrow> byte (last s) > 32 \<Longrightarrow> TrimSpace s = s"
proof -
  assume s: "s \<noteq> []" "byte (hd s) > 32" "byte (last s) > 32"
  let ?ws = "[CHR 0x09, CHR 0x0A, CHR 0x0B, CHR 0x0C, CHR 0x0D, CHR '' '']"
  have "c \<notin> set ?ws" if "byte c > 32" for c using that by auto
  then have "TrimLeft s ?ws = s" "TrimRight s ?ws = s"
    using s by (blast intro: TrimLeft_id TrimRight_id)+
  then show ?thesis by (simp only: TrimSpace_def TrimBoth_def)
qed

lemma TrimSpace_space: "TrimSpace (CHR '' '' # s) = TrimSpace s"
  by (simp add: TrimSpace_def TrimBoth_def TrimLeft_def)

lemma Itoa_nonneg: "0 \<le> i \<Longrightarrow> Itoa i = digits (nat i)"
  by (simp add: Itoa_def)

definition print_range :: "int \<times> int \<Rightarrow> string" where
  "print_range = (\<lambda>(lo, hi). Itoa lo @ ''-'' @ Itoa hi)"

lemma digits_free: "c \<notin> set (digits n)" if "\<not> is_digit c"
  using that digits_are_digits by blast

lemma port_range_print:
  assumes "0 \<le> lo" "lo \<le> max_int64" "0 \<le> hi" "hi < max_int64"
  shows "port_range (print_range (lo, hi)) = Some (map Itoa [lo..hi])"
    and "port_range (CHR '' '' # print_range (lo, hi)) = Some (map Itoa [lo..hi])"
proof -
  let ?s = "print_range (lo, hi)"
  have s: "?s = digits (nat lo) @ CHR ''-'' # digits (nat hi)"
    using assms by (simp add: print_range_def Itoa_nonneg)
  have split: "Split ?s ''-'' = [Itoa lo, Itoa hi]"
    using s assms by (simp add: Split_append Split_no_sep digits_free Itoa_nonneg)
  have "byte (hd ?s) > 32" "byte (last ?s) > 32"
    using s digits_are_digits [of "hd (digits (nat lo))" "nat lo"]
      digits_are_digits [of "last (digits (nat hi))" "nat hi"] by auto
  then have trim: "TrimSpace ?s = ?s" using s by (intro TrimSpace_id) auto
  have "Atoi (Itoa lo) = (lo, None)" "Atoi (Itoa hi) = (hi, None)"
    using assms by (auto intro!: Atoi_Itoa simp: max_int64_def)
  then show "port_range ?s = Some (map Itoa [lo..hi])"
    using split trim assms by (simp add: port_range_def slice_at_def)
  then show "port_range (CHR '' '' # ?s) = Some (map Itoa [lo..hi])"
    by (simp add: port_range_def TrimSpace_space)
qed

lemma print_range_free: "c \<notin> set (print_range r)" if "\<not> is_digit c" "c \<noteq> CHR ''-''"
  using that Itoa_set [of c "fst r"] Itoa_set [of c "snd r"] by (cases r) (auto simp: print_range_def)

lemma Split_comma_space:
  assumes "\<And>x. x \<in> set xs \<Longrightarrow> CHR '','' \<notin> set x" and "xs \<noteq> []"
  shows "Split (Join xs '', '') '','' = hd xs # map ((#) (CHR '' '')) (tl xs)"
  using assms(2,1)
proof (induction xs rule: list_nonempty_induct)
  case (single x)
  then show ?case by (simp add: Split_no_sep)
next
  case (cons x xs)
  obtain y ys where "xs = y # ys" using cons.hyps by (cases xs) auto
  with cons show ?case by (simp add: Join_Cons Split_append)
qed

section \<open>Lemmas: statuses and sources\<close>

lemma status_loop_result:
  "status_loop st ts j = Some s \<Longrightarrow>
     (s \<in> set st \<and> Status_State s = ''TASK_RUNNING'' \<and> Status_Timestamp s > ts) \<or>
     (j = Some s \<and> (\<forall>s'\<in>set st. Status_State s' = ''TASK_RUNNING'' \<longrightarrow> Status_Timestamp s' \<le> ts))"
  by (induction st arbitrary: ts j) (fastforce split: if_splits)+

lemma status_loop_max:
  assumes "status_loop st ts j = Some s" and "\<And>t. j = Some t \<Longrightarrow> Status_Timestamp t = ts"
    and "s' \<in> set st" "Status_State s' = ''TASK_RUNNING''"
  shows "Status_Timestamp s' \<le> Status_Timestamp s \<or> Status_Timestamp s' \<le> ts"
  using assms
proof (induction st arbitrary: ts j)
  case Nil
  then show ?case by simp
next
  case (Cons x st)
  show ?case
  proof (cases "Status_State x = ''TASK_RUNNING'' \<and> Status_Timestamp x > ts")
    case True
    with Cons.prems(1) have loop: "status_loop st (Status_Timestamp x) (Some x) = Some s" by simp
    have ge: "Status_Timestamp x \<le> Status_Timestamp s" using status_loop_result [OF loop] by auto
    show ?thesis
    proof (cases "s' = x")
      case False
      then show ?thesis using Cons.IH [OF loop] Cons.prems ge by auto
    qed (use ge in simp)
  next
    case False
    then have loop: "status_loop st ts j = Some s" using Cons.prems(1) by (simp split: if_splits)
    show ?thesis
    proof (cases "s' = x")
      case True
      then show ?thesis using False Cons.prems(4) by auto
    qed (use Cons.IH [OF loop] Cons.prems in auto)
  qed
qed

lemma status_loop_None:
  "status_loop st ts j = None \<longleftrightarrow>
     j = None \<and> (\<forall>s\<in>set st. Status_State s = ''TASK_RUNNING'' \<longrightarrow> Status_Timestamp s \<le> ts)"
  by (induction st arbitrary: ts j) (auto split: if_splits)

lemma Task_IPs_Nil [simp]: "Task_IPs t [] = []"
  by (simp add: Task_IPs_def split: option.split)

lemma Task_IPs_Cons: "Task_IPs (Some t) (s # srcs) = Task_IPs (Some t) [s] @ Task_IPs (Some t) srcs"
  by (simp add: Task_IPs_def)

lemma Task_IP_Cons:
  "Task_IP t (s # srcs) = (if Task_IPs (Some t) [s] \<noteq> [] then Task_IP t [s] else Task_IP t srcs)"
  by (simp add: Task_IP_def Task_IPs_Cons [of t s srcs] split: list.split)

text \<open>The empty strings in front of the network addresses are no addresses.\<close>

lemma map_filter_ParseIP_padding:
  "List.map_filter ParseIP (replicate n [] @ xs) = List.map_filter ParseIP xs"
  by (induction n) (auto simp: List.map_filter_simps)

lemma set_Task_IPs:
  "ip \<in> set (Task_IPs (Some t) srcs) \<longleftrightarrow>
     (\<exists>s\<in>set srcs. \<exists>src. sources s = Some src \<and> (\<exists>a\<in>set (src t). ParseIP a = Some ip))"
  by (force simp: Task_IPs_def List.map_filter_def split: option.splits)

lemma Ports_print:
  assumes "rs \<noteq> []"
    and "\<forall>(lo, hi)\<in>set rs. 0 \<le> lo \<and> lo \<le> max_int64 \<and> 0 \<le> hi \<and> hi < max_int64"
  shows "Ports \<lparr>PortRanges = ''['' @ Join (map print_range rs) '', '' @ '']''\<rparr>
         = Some (concat (map (\<lambda>(lo, hi). map Itoa [lo..hi]) rs))"
proof -
  let ?j = "Join (map print_range rs) '', ''"
  have free: "c \<notin> set (print_range r)" if "c \<in> {CHR ''['', CHR '']'', CHR '',''}" for c r
    using that by (intro print_range_free) auto
  have jfree: "CHR ''['' \<notin> set ?j" "CHR '']'' \<notin> set ?j"
    using set_Join [of "map print_range rs" "'', ''"] free by (auto dest!: subsetD)
  have s1: "Split (''['' @ ?j @ '']'') ''['' = [[], ?j @ '']'']"
    using jfree by (simp add: Split_no_sep)
  have s2: "Split (?j @ '']'') '']'' = [?j, []]"
    using jfree by (simp add: Split_append)
  have s3: "Split ?j '','' = hd (map print_range rs) # map ((#) (CHR '' '')) (tl (map print_range rs))"
    using free assms(1) by (intro Split_comma_space) auto
  have ok: "port_range (print_range r) = Some ((\<lambda>(lo, hi). map Itoa [lo..hi]) r)"
    "port_range (CHR '' '' # print_range r) = Some ((\<lambda>(lo, hi). map Itoa [lo..hi]) r)"
    if "r \<in> set rs" for r
    using assms(2) that port_range_print [of "fst r" "snd r"] by (cases r; auto)+
  obtain r rs' where rs: "rs = r # rs'" using assms(1) by (cases rs) auto
  have "map_opt port_range (map ((#) (CHR '' '') \<circ> print_range) rs')
      = Some (map (\<lambda>(lo, hi). map Itoa [lo..hi]) rs')"
    using ok(2) rs by (simp add: map_opt_map map_opt_all_Some flip: map_map)
  then have "map_opt port_range (Split ?j '','') = Some (map (\<lambda>(lo, hi). map Itoa [lo..hi]) rs)"
    using s3 ok(1) rs by simp
  moreover have "?j \<noteq> []"
    using rs by (cases rs') (auto simp: print_range_def split: prod.split)
  ultimately show ?thesis using s1 s2 by (simp add: Ports_def slice_at_def)
qed

section \<open>Properties\<close>

text \<open>C37: a well-formed range list, printed as Mesos prints it (\<open>[lo-hi, lo-hi]\<close>), expands to
  exactly the ports of its ranges in order, each as a decimal string.\<close>

theorem Ports_expands:
  assumes "rs \<noteq> []"
    and "\<forall>(lo, hi)\<in>set rs. 0 \<le> lo \<and> lo \<le> max_int64 \<and> 0 \<le> hi \<and> hi < max_int64"
  shows "Ports \<lparr>PortRanges = ''['' @ Join (map print_range rs) '', '' @ '']''\<rparr>
         = Some (concat (map (\<lambda>(lo, hi). map Itoa [lo..hi]) rs))"
  using assms by (rule Ports_print)

theorem Ports_expands_witness:
  "Ports \<lparr>PortRanges = ''[31111-31111, 31115-31117]''\<rparr> = Some [''31111'', ''31115'', ''31116'', ''31117'']"
proof -
  have print: "''['' @ Join (map print_range [(31111, 31111), (31115, 31117)]) '', '' @ '']''
      = ''[31111-31111, 31115-31117]''" by (simp add: print_range_def Itoa_eval)
  have ports: "concat (map (\<lambda>(lo, hi). map Itoa [lo..hi]) [(31111, 31111), (31115, 31117)])
      = [''31111'', ''31115'', ''31116'', ''31117'']" by (simp add: Itoa_eval)
  have prem: "\<forall>(lo, hi)\<in>set [(31111, 31111), (31115, 31117)].
      0 \<le> lo \<and> lo \<le> max_int64 \<and> 0 \<le> hi \<and> hi < max_int64"
    by (simp add: max_int64_def)
  show ?thesis using Ports_expands [OF _ prem] unfolding print ports by simp
qed

text \<open>\<open>StatusIPs\<close> reads the status in state \<open>TASK_RUNNING\<close> with the greatest timestamp,
  whatever the order in which the master lists the statuses, and nothing when no status
  is running.\<close>

theorem StatusIPs_latest_running:
  assumes "\<forall>s\<in>set st. Status_Timestamp s > - 1"
  shows "(\<exists>s\<in>set st. Status_State s = ''TASK_RUNNING''
           \<and> (\<forall>s'\<in>set st. Status_State s' = ''TASK_RUNNING'' \<longrightarrow> Status_Timestamp s' \<le> Status_Timestamp s)
           \<and> StatusIPs st src = src s)
       \<or> ((\<forall>s\<in>set st. Status_State s \<noteq> ''TASK_RUNNING'') \<and> StatusIPs st src = [])"
proof (cases "status_loop st (- 1) None")
  case None
  then have "\<forall>s\<in>set st. Status_State s \<noteq> ''TASK_RUNNING''"
    using assms by (fastforce simp: status_loop_None)
  then show ?thesis using None by (simp add: StatusIPs_def)
next
  case (Some s)
  then have s: "s \<in> set st" "Status_State s = ''TASK_RUNNING''"
    using status_loop_result [OF Some] by auto
  moreover have "Status_Timestamp s' \<le> Status_Timestamp s"
    if "s' \<in> set st" "Status_State s' = ''TASK_RUNNING''" for s'
    using status_loop_max [OF Some _ that] assms that by force
  moreover have "StatusIPs st src = src s" using Some by (simp add: StatusIPs_def)
  ultimately show ?thesis by blast
qed

theorem StatusIPs_latest_running_witness:
  "let old = \<lparr>Status_Timestamp = 3, Status_State = ''TASK_RUNNING'', Status_Labels = [],
              Status_ContainerStatus = \<lparr>ContainerStatus_NetworkInfos = []\<rparr>\<rparr>;
       new = old\<lparr>Status_Timestamp := 5\<rparr>
   in StatusIPs [new, old] (\<lambda>s. if Status_Timestamp s = 5 then [''10.0.0.1''] else []) = [''10.0.0.1'']"
proof -
  define old :: Status where "old = \<lparr>Status_Timestamp = 3, Status_State = ''TASK_RUNNING'', Status_Labels = [],
              Status_ContainerStatus = \<lparr>ContainerStatus_NetworkInfos = []\<rparr>\<rparr>"
  define new where "new = old\<lparr>Status_Timestamp := 5\<rparr>"
  have "\<forall>s\<in>set [new, old]. Status_Timestamp s > - 1" by (simp add: new_def old_def)
  from StatusIPs_latest_running [OF this, of "\<lambda>s. if Status_Timestamp s = 5 then [''10.0.0.1''] else []"]
  have "StatusIPs [new, old] (\<lambda>s. if Status_Timestamp s = 5 then [''10.0.0.1''] else []) = [''10.0.0.1'']"
    by (auto simp: new_def old_def)
  then show ?thesis by (simp add: Let_def new_def old_def)
qed

text \<open>A task's address comes from the first source in the configured order that yields a
  parseable address; sources that are unknown or yield none are skipped, and the result
  is the canonical form of an address one of the sources lists.\<close>

theorem Task_IP_source_priority:
  "Task_IP t (s # srcs) = (if Task_IPs (Some t) [s] \<noteq> [] then Task_IP t [s] else Task_IP t srcs)
   \<and> (Task_IP t srcs = [] \<or>
      (\<exists>s'\<in>set srcs. \<exists>src. sources s' = Some src \<and> (\<exists>a\<in>set (src t). \<exists>ip. ParseIP a = Some ip \<and> Task_IP t srcs = IP_String ip)))"
proof -
  have "\<exists>s'\<in>set srcs. \<exists>src. sources s' = Some src \<and> (\<exists>a\<in>set (src t). \<exists>ip. ParseIP a = Some ip \<and> Task_IP t srcs = IP_String ip)"
    if "Task_IP t srcs \<noteq> []"
  proof -
    obtain ip ips where ips: "Task_IPs (Some t) srcs = ip # ips"
      using \<open>Task_IP t srcs \<noteq> []\<close> by (auto simp: Task_IP_def split: list.splits)
    then have "ip \<in> set (Task_IPs (Some t) srcs)" by simp
    moreover have "Task_IP t srcs = IP_String ip" using ips by (simp add: Task_IP_def)
    ultimately show ?thesis unfolding set_Task_IPs by fastforce
  qed
  then show ?thesis using Task_IP_Cons by blast
qed

text \<open>A range list without a hyphen, such as a single port, makes \<open>Ports\<close> index out of range.\<close>

lemma Ports_single_port_panics: "Ports \<lparr>PortRanges = ''[31000]''\<rparr> = None"
  by code_simp

end
