(* ===== verification/Generator.thy ===== *)
theory Generator
  imports Record_Store Chains Hashing Mesos_State Records_Config
begin

text \<open>
  \<open>records/generator.go\<close>: the translation of a Mesos state into DNS records.

  The generator's fields are those of \<open>RecordGenerator\<close>; a record map that Go has not made
  yet is \<open>None\<close> (a nil map). Methods that mutate the generator return the new one, wrapped
  in an option when they may panic. The environment enters as parameters: \<open>resolve\<close> is
  \<open>net.ResolveIPAddr("ip4", _)\<close>, \<open>load\<close> the HTTP request for \<open>state.json\<close>, \<open>now\<close> the clock.
\<close>

section \<open>Data\<close>

record EnumerableRecord =
  ER_Name :: string
  ER_Host :: string
  ER_Rtype :: string

record EnumerableTask =
  ET_Name :: string
  ET_ID :: string
  ET_Records :: "EnumerableRecord list"

record EnumerableFramework =
  EF_Tasks :: "EnumerableTask list"
  EF_Name :: string

record EnumerationData =
  ED_Frameworks :: "EnumerableFramework list"

record RecordGenerator =
  RG_As :: "rrs option"
  RG_Config :: Config
  RG_SRVs :: "rrs option"
  RG_State :: State
  RG_SlaveIPs :: "(string \<times> string) list"
  RG_EnumData :: EnumerationData
  RG_httpTimeout :: int

definition emptyState :: State where
  "emptyState = \<lparr>State_Frameworks = [], State_Slaves = [], State_Leader = []\<rparr>"

definition NewRecordGenerator :: "Config \<Rightarrow> RecordGenerator" where
  "NewRecordGenerator config = \<lparr>
     RG_As = None, RG_Config = config, RG_SRVs = None, RG_State = emptyState, RG_SlaveIPs = [],
     RG_EnumData = \<lparr>ED_Frameworks = []\<rparr>, RG_httpTimeout = Config_StateTimeoutSeconds config\<rparr>"

section \<open>Inserting records\<close>

type_synonym rrsKind = string

definition A :: rrsKind where "A = ''A''"
definition SRV :: rrsKind where "SRV = ''SRV''"

definition kind_rrs :: "rrsKind \<Rightarrow> RecordGenerator \<Rightarrow> rrs option" where
  "kind_rrs kind rg = (if kind = A then RG_As rg else if kind = SRV then RG_SRVs rg else None)"

text \<open>The map \<open>kind_rrs\<close> selects is shared with the generator: an update of it is one of the generator.\<close>

definition set_kind_rrs :: "rrsKind \<Rightarrow> rrs \<Rightarrow> RecordGenerator \<Rightarrow> RecordGenerator" where
  "set_kind_rrs kind r rg =
     (if kind = A then rg\<lparr>RG_As := Some r\<rparr> else if kind = SRV then rg\<lparr>RG_SRVs := Some r\<rparr> else rg)"

definition insertRR :: "string \<Rightarrow> string \<Rightarrow> rrsKind \<Rightarrow> RecordGenerator \<Rightarrow> bool \<times> RecordGenerator" where
  "insertRR name host kind rg =
     (case kind_rrs kind rg of
        None \<Rightarrow> (False, rg)
      | Some r \<Rightarrow> let (added, r') = rrs_add r name host in (added, set_kind_rrs kind r' rg))"

definition insertTaskRR ::
  "string \<Rightarrow> string \<Rightarrow> rrsKind \<Rightarrow> RecordGenerator \<times> EnumerableTask \<Rightarrow> bool \<times> RecordGenerator \<times> EnumerableTask" where
  "insertTaskRR name host kind = (\<lambda>(rg, enumTask).
     let (added, rg') = insertRR name host kind rg
     in if added
        then (True, rg', enumTask\<lparr>ET_Records := ET_Records enumTask @
               [\<lparr>ER_Name = name, ER_Host = host, ER_Rtype = kind\<rparr>]\<rparr>)
        else (False, rg', enumTask))"

section \<open>Small parsers\<close>

datatype gen_error = UnableToParse string | NoMaster | EmptyMaster | LoadFailed string

definition getProto :: "string \<Rightarrow> string \<times> string \<times> gen_error option" where
  "getProto pair =
     (case SplitN pair '':'' 2 of
        [h0, h1] \<Rightarrow> (h0, h1, None)
      | _ \<Rightarrow> ([], [], Some (UnableToParse pair)))"

definition leaderIP :: "string \<Rightarrow> string option" where
  "leaderIP leader = do {
     pair \<leftarrow> slice_at (Split leader ''@'') 1;
     slice_at (Split pair '':'') 0 }"

definition slaveIDTail :: "string \<Rightarrow> string" where
  "slaveIDTail slaveID = (let fields = Split slaveID ''-'' in ToLower (last fields))"

definition hostToIP4 :: "(string \<Rightarrow> IP option) \<Rightarrow> string \<Rightarrow> string \<times> bool" where
  "hostToIP4 resolve hostname =
     (case ParseIP hostname of
        Some ip \<Rightarrow> (IP_String ip, True)
      | None \<Rightarrow>
          (case resolve hostname of
             None \<Rightarrow> (hostname, False)
           | Some ip \<Rightarrow> (IP_String ip, True)))"

section \<open>Framework, slave and master records\<close>

definition framework_record ::
  "(string \<Rightarrow> IP option) \<Rightarrow> string \<Rightarrow> Func \<Rightarrow> Framework \<Rightarrow> RecordGenerator \<Rightarrow> RecordGenerator option" where
  "framework_record resolve domain spec f rg = do {
     fname \<leftarrow> DomainFrag (Framework_Name f) Sep spec;
     let (host, port) = HostPort f;
     let (address, ok) = hostToIP4 resolve host;
     if ok then
       let a = fname @ ''.'' @ domain @ ''.'';
           rg1 = snd (insertRR a address A rg)
       in if port \<noteq> []
          then Some (snd (insertRR (''_framework._tcp.'' @ a) (JoinHostPort a port) SRV rg1))
          else Some rg1
     else Some rg }"

definition frameworkRecords ::
  "(string \<Rightarrow> IP option) \<Rightarrow> State \<Rightarrow> string \<Rightarrow> Func \<Rightarrow> RecordGenerator \<Rightarrow> RecordGenerator option" where
  "frameworkRecords resolve sj domain spec rg =
     fold_opt (framework_record resolve domain spec) (State_Frameworks sj) rg"

text \<open>A slave whose PID is nil makes \<open>slave.PID.Host\<close> panic.\<close>

definition slave_record ::
  "(string \<Rightarrow> IP option) \<Rightarrow> string \<Rightarrow> Func \<Rightarrow> Slave \<Rightarrow> RecordGenerator \<Rightarrow> RecordGenerator option" where
  "slave_record resolve domain spec slave rg = do {
     pid \<leftarrow> Slave_PID slave;
     let (address, ok) = hostToIP4 resolve (UPID_Host pid);
     if ok then
       let a = ''slave.'' @ domain @ ''.'';
           rg1 = snd (insertRR a address A rg);
           srv = JoinHostPort a (UPID_Port pid);
           rg2 = snd (insertRR (''_slave._tcp.'' @ domain @ ''.'') srv SRV rg1)
       in Some (rg2\<lparr>RG_SlaveIPs := AList.update (Slave_ID slave) address (RG_SlaveIPs rg2)\<rparr>)
     else do {
       address' \<leftarrow> DomainFrag address Sep spec;
       Some (rg\<lparr>RG_SlaveIPs := AList.update (Slave_ID slave) address' (RG_SlaveIPs rg)\<rparr>) } }"

definition slaveRecords ::
  "(string \<Rightarrow> IP option) \<Rightarrow> State \<Rightarrow> string \<Rightarrow> Func \<Rightarrow> RecordGenerator \<Rightarrow> RecordGenerator option" where
  "slaveRecords resolve sj domain spec rg =
     fold_opt (slave_record resolve domain spec) (State_Slaves sj) rg"

text \<open>One iteration of the loop over the masters; the state is the generator, \<open>addedLeaderMasterN\<close> and \<open>idx\<close>.\<close>

definition master_step ::
  "string \<Rightarrow> string \<Rightarrow> string \<Rightarrow> RecordGenerator \<times> bool \<times> nat \<Rightarrow> RecordGenerator \<times> bool \<times> nat" where
  "master_step domain leaderAddress master = (\<lambda>(rg, addedLeaderMasterN, idx).
     let (masterIP, _, err) = getProto master
     in if err \<noteq> None then (rg, addedLeaderMasterN, idx)
        else
          let (added, rg1) =
            (if master \<noteq> leaderAddress then insertRR (''master.'' @ domain @ ''.'') masterIP A rg
             else (True, rg))
          in if master \<noteq> leaderAddress \<and> \<not> added then (rg1, addedLeaderMasterN, idx)
             else if master = leaderAddress \<and> addedLeaderMasterN then (rg1, addedLeaderMasterN, idx)
             else
               let arec = ''master'' @ Itoa (int idx) @ ''.'' @ domain @ ''.'';
                   rg2 = snd (insertRR arec masterIP A rg1)
               in (rg2, (if master = leaderAddress then True else addedLeaderMasterN), idx + 1))"

definition masterRecord :: "string \<Rightarrow> string list \<Rightarrow> string \<Rightarrow> RecordGenerator \<Rightarrow> RecordGenerator" where
  "masterRecord domain masters leader rg =
     (case Split leader ''@'' of
        _ # leaderAddress # _ \<Rightarrow>
          let (ip, port, err) = getProto leaderAddress
          in if err \<noteq> None then rg
             else
               let rg1 = snd (insertRR (''leader.'' @ domain @ ''.'') ip A rg);
                   rg2 = snd (insertRR (''master.'' @ domain @ ''.'') ip A rg1);
                   host = ''leader.'' @ domain @ ''.'' @ '':'' @ port;
                   rg3 = snd (insertRR (''_leader._tcp.'' @ domain @ ''.'') host SRV rg2);
                   rg4 = snd (insertRR (''_leader._udp.'' @ domain @ ''.'') host SRV rg3);
                   (rg5, addedLeaderMasterN, idx) = fold (master_step domain leaderAddress) masters (rg4, False, 0)
               in if \<not> addedLeaderMasterN
                  then snd (insertRR (''master'' @ Itoa (int idx) @ ''.'' @ domain @ ''.'') ip A rg5)
                  else rg5
      | _ \<Rightarrow> rg)"

text \<open>
  \<open>listenerRecord\<close> and \<open>setFromLocal\<close>; \<open>addrs\<close> are the addresses of the host's interfaces that
  carry an IP (a type switch without a match leaves it nil), each with whether it is a
  loopback address.
\<close>

definition setFromLocal :: "(IP option \<times> bool) list \<Rightarrow> string \<Rightarrow> RecordGenerator \<Rightarrow> RecordGenerator" where
  "setFromLocal addrs ns rg =
     fold (\<lambda>(ip, loopback) rg.
       case ip of
         None \<Rightarrow> rg
       | Some ip \<Rightarrow>
           if loopback then rg
           else (case To4 ip of None \<Rightarrow> rg | Some ip4 \<Rightarrow> snd (insertRR ns (IP_String ip4) A rg))) addrs rg"

definition listenerRecord :: "(IP option \<times> bool) list \<Rightarrow> string \<Rightarrow> string \<Rightarrow> RecordGenerator \<Rightarrow> RecordGenerator" where
  "listenerRecord addrs listener ns rg =
     (if listener = ''0.0.0.0'' then setFromLocal addrs ns rg
      else if listener = ''127.0.0.1'' then snd (insertRR ns ''127.0.0.1'' A rg)
      else snd (insertRR ns listener A rg))"

section \<open>Task records\<close>

record task_context =
  ctx_taskName :: string
  ctx_taskID :: string
  ctx_slaveID :: string
  ctx_taskIP :: string
  ctx_slaveIP :: string

abbreviation put_srv :: "string \<Rightarrow> string \<Rightarrow> RecordGenerator \<times> EnumerableTask \<Rightarrow> RecordGenerator \<times> EnumerableTask" where
  "put_srv name target s \<equiv> snd (insertTaskRR name target SRV s)"

text \<open>The SRV records of one host port, and of one discovery port.\<close>

definition port_srv ::
  "string \<Rightarrow> string \<Rightarrow> string \<Rightarrow> string list \<Rightarrow> string \<Rightarrow> Func \<Rightarrow> string \<Rightarrow>
   RecordGenerator \<times> EnumerableTask \<Rightarrow> (RecordGenerator \<times> EnumerableTask) option" where
  "port_srv taskName fname tail subdomains slaveHost spec port s =
     withProtocol protocolNone fname spec
       (withSubdomains subdomains (asSRV put_srv tail (slaveHost @ '':'' @ port))) [''_'' @ taskName] s"

definition discovery_srv ::
  "string \<Rightarrow> string \<Rightarrow> string \<Rightarrow> string \<Rightarrow> Func \<Rightarrow> DiscoveryPort \<Rightarrow>
   RecordGenerator \<times> EnumerableTask \<Rightarrow> (RecordGenerator \<times> EnumerableTask) option" where
  "discovery_srv taskName fname tail canonical spec port s = do {
     let target = canonical @ tail @ '':'' @ Itoa (DiscoveryPort_Number port);
     named \<leftarrow> withNamedPort (DiscoveryPort_Name port) spec (asSRV put_srv tail target);
     withProtocol (DiscoveryPort_Protocol port) fname spec named [''_'' @ taskName] s }"

definition taskContextRecord ::
  "task_context \<Rightarrow> Task \<Rightarrow> Framework \<Rightarrow> string \<Rightarrow> Func \<Rightarrow>
   RecordGenerator \<times> EnumerableTask \<Rightarrow> (RecordGenerator \<times> EnumerableTask) option" where
  "taskContextRecord ctx task f domain spec s = do {
     fname \<leftarrow> DomainFrag (Framework_Name f) Sep spec;
     let tail = ''.'' @ domain @ ''.'';
     let canonical = ctx_taskName ctx @ ''-'' @ ctx_taskID ctx @ ''-'' @ ctx_slaveID ctx @ ''.'' @ fname;
     let arec = ctx_taskName ctx @ ''.'' @ fname;
     let s1 = snd (insertTaskRR (arec @ tail) (ctx_taskIP ctx) A s);
     let s2 = snd (insertTaskRR (canonical @ tail) (ctx_taskIP ctx) A s1);
     let s3 = snd (insertTaskRR (arec @ ''.slave'' @ tail) (ctx_slaveIP ctx) A s2);
     let s4 = snd (insertTaskRR (canonical @ ''.slave'' @ tail) (ctx_slaveIP ctx) A s3);
     let subdomains = (if HasDiscoveryInfo task then [''slave''] else [''slave'', domainNone]);
     let slaveHost = canonical @ ''.slave'' @ tail;
     ports \<leftarrow> Ports (Task_Resources task);
     s5 \<leftarrow> fold_opt (port_srv (ctx_taskName ctx) fname tail subdomains slaveHost spec) ports s4;
     if \<not> HasDiscoveryInfo task then Some s5
     else fold_opt (discovery_srv (ctx_taskName ctx) fname tail canonical spec)
            (DiscoveryInfo_Ports (Task_DiscoveryInfo task)) s5 }"

definition taskRecord ::
  "Task \<Rightarrow> Framework \<Rightarrow> string \<Rightarrow> Func \<Rightarrow> string list \<Rightarrow>
   RecordGenerator \<times> EnumerableFramework \<Rightarrow> (RecordGenerator \<times> EnumerableFramework) option" where
  "taskRecord task f domain spec ipSources = (\<lambda>(rg, enumFW). do {
     let newTask = \<lparr>ET_Name = Task_Name task, ET_ID = Task_ID task, ET_Records = []\<rparr>;
     taskName \<leftarrow> spec (Task_Name task);
     let ctx = \<lparr>ctx_taskName = taskName, ctx_taskID = hashString (Task_ID task),
                ctx_slaveID = slaveIDTail (Task_SlaveID task),
                ctx_taskIP = Task_IP task ipSources, ctx_slaveIP = Task_SlaveIP task\<rparr>;
     (rg', newTask') \<leftarrow>
       (if HasDiscoveryInfo task then do {
          s1 \<leftarrow> taskContextRecord (ctx\<lparr>ctx_taskName := DiscoveryInfo_Name (Task_DiscoveryInfo task)\<rparr>)
                  task f domain spec (rg, newTask);
          diName \<leftarrow> spec (DiscoveryInfo_Name (Task_DiscoveryInfo task));
          taskContextRecord (ctx\<lparr>ctx_taskName := diName\<rparr>) task f domain spec s1 }
        else taskContextRecord ctx task f domain spec (rg, newTask));
     Some (rg', enumFW\<lparr>EF_Tasks := EF_Tasks enumFW @ [newTask']\<rparr>) })"

text \<open>One task of the loop in \<open>taskRecords\<close>: only running tasks on known slaves get records.\<close>

definition task_step ::
  "Framework \<Rightarrow> string \<Rightarrow> Func \<Rightarrow> string list \<Rightarrow> Task \<Rightarrow>
   RecordGenerator \<times> EnumerableFramework \<Rightarrow> (RecordGenerator \<times> EnumerableFramework) option" where
  "task_step f domain spec ipSources task s =
     (case map_of (RG_SlaveIPs (fst s)) (Task_SlaveID task) of
        Some slaveIP \<Rightarrow>
          if Task_State task = ''TASK_RUNNING''
          then taskRecord (task\<lparr>Task_SlaveIP := slaveIP\<rparr>) f domain spec ipSources s
          else Some s
      | None \<Rightarrow> Some s)"

definition framework_tasks ::
  "string \<Rightarrow> Func \<Rightarrow> string list \<Rightarrow> Framework \<Rightarrow> RecordGenerator \<Rightarrow> RecordGenerator option" where
  "framework_tasks domain spec ipSources f rg = do {
     (rg', enumFW) \<leftarrow> fold_opt (task_step f domain spec ipSources) (Framework_Tasks f)
                        (rg, \<lparr>EF_Tasks = [], EF_Name = Framework_Name f\<rparr>);
     Some (rg'\<lparr>RG_EnumData := \<lparr>ED_Frameworks = ED_Frameworks (RG_EnumData rg') @ [enumFW]\<rparr>\<rparr>) }"

definition taskRecords ::
  "State \<Rightarrow> string \<Rightarrow> Func \<Rightarrow> string list \<Rightarrow> RecordGenerator \<Rightarrow> RecordGenerator option" where
  "taskRecords sj domain spec ipSources rg =
     fold_opt (framework_tasks domain spec ipSources) (State_Frameworks sj) rg"

section \<open>InsertState and ParseState\<close>

definition InsertState ::
  "(string \<Rightarrow> IP option) \<Rightarrow> int \<Rightarrow> State \<Rightarrow> string \<Rightarrow> string \<Rightarrow> string list \<Rightarrow> string list \<Rightarrow> Func \<Rightarrow>
   RecordGenerator \<Rightarrow> RecordGenerator option" where
  "InsertState resolve now sj domain ns masters ipSources spec rg = do {
     let rg0 = rg\<lparr>RG_SlaveIPs := [], RG_SRVs := Some [], RG_As := Some []\<rparr>;
     rg1 \<leftarrow> frameworkRecords resolve sj domain spec rg0;
     rg2 \<leftarrow> slaveRecords resolve sj domain spec rg1;
     let rg3 = masterRecord domain masters (State_Leader sj) rg2;
     rg4 \<leftarrow> taskRecords sj domain spec ipSources rg3;
     let rg5 = rg4\<lparr>RG_State := sj\<rparr>;
     Some (rg5\<lparr>RG_Config := (RG_Config rg5)\<lparr>Config_SOASerial := of_int now\<rparr>\<rparr>) }"

text \<open>
  \<open>loadFromMaster\<close>: \<open>get host path\<close> is the HTTP exchange (request, response, reading the
  body), \<open>decode\<close> is \<open>json.Unmarshal\<close>.
\<close>

definition loadFromMaster ::
  "(string \<Rightarrow> string \<Rightarrow> string + string) \<Rightarrow> (string \<Rightarrow> string + State) \<Rightarrow> string \<Rightarrow> string \<Rightarrow> State \<times> gen_error option" where
  "loadFromMaster get decode ip port =
     (case get (JoinHostPort ip port) ''/master/state.json'' of
        Inl e \<Rightarrow> (emptyState, Some (LoadFailed e))
      | Inr body \<Rightarrow>
          (case decode body of
             Inl e \<Rightarrow> (emptyState, Some (LoadFailed e))
           | Inr sj \<Rightarrow> (sj, None)))"

type_synonym loader = "string \<Rightarrow> string \<Rightarrow> State \<times> gen_error option"

definition loadWrap :: "loader \<Rightarrow> string \<Rightarrow> string \<Rightarrow> (State \<times> gen_error option) option" where
  "loadWrap load ip port =
     (let (sj, err) = load ip port
      in if err \<noteq> None then Some (emptyState, err)
         else do {
           rip \<leftarrow> leaderIP (State_Leader sj);
           if rip \<noteq> ip then Some (load rip port) else Some (sj, None) })"

fun find_loop :: "loader \<Rightarrow> string list \<Rightarrow> State \<Rightarrow> (State \<times> gen_error option) option" where
  "find_loop load [] sj = Some (sj, Some NoMaster)"
| "find_loop load (master # masters) sj = do {
     let (ip, port, _) = getProto master;
     (sj', err) \<leftarrow> loadWrap load ip port;
     if err = None \<and> State_Leader sj' = [] then
       (if masters = [] then Some (sj', Some NoMaster) else find_loop load masters sj')
     else Some (sj', None) }"

definition findMaster :: "loader \<Rightarrow> string list \<Rightarrow> (State \<times> gen_error option) option" where
  "findMaster load masters =
     (let (leader, masters) = (case masters of [] \<Rightarrow> ([], []) | m # ms \<Rightarrow> (m, ms))
      in if leader \<noteq> [] then do {
           let (ip, port, _) = getProto leader;
           (sj, err) \<leftarrow> loadWrap load ip port;
           if err = None \<and> State_Leader sj \<noteq> [] then Some (sj, None)
           else if masters = [] then Some (sj, Some NoMaster)
           else find_loop load masters sj }
         else find_loop load masters emptyState)"

definition hostSpec :: "Config \<Rightarrow> Func" where
  "hostSpec c = (if Config_EnforceRFC952 c then RFC952 else RFC1123)"

definition ParseState ::
  "(string \<Rightarrow> IP option) \<Rightarrow> loader \<Rightarrow> int \<Rightarrow> RecordGenerator \<Rightarrow> (gen_error option \<times> RecordGenerator) option" where
  "ParseState resolve load now rg = do {
     (sj, err) \<leftarrow> findMaster load (Config_Masters (RG_Config rg));
     if err \<noteq> None then Some (err, rg)
     else if State_Leader sj = [] then Some (Some EmptyMaster, rg)
     else do {
       let c = RG_Config rg;
       rg' \<leftarrow> InsertState resolve now sj (Config_Domain c) (Config_SOARname c) (Config_Masters c)
                (Config_IPSources c) (hostSpec c) rg;
       Some (None, rg') } }"

end
