(* ===== verification/Generator_Zone.thy ===== *)
theory Generator_Zone
  imports Generator
begin

text \<open>
  What the generator of \<open>records/generator.go\<close> produces. The zone of a generator is the set of
  its (kind, name, host) triples; every operation is refined to the set of entries it adds,
  and \<open>InsertState\<close> to the union of the declarative sets \<open>framework_zone\<close>, \<open>slave_zone\<close>,
  \<open>master_zone\<close> and \<open>task_zone\<close>. The enumeration data is tied to the zone: it lists every
  record a task contributed, once.
\<close>

section \<open>The zone of a generator\<close>

type_synonym zone_entry = "rrsKind \<times> string \<times> string"

definition hosts_of :: "rrsKind \<Rightarrow> RecordGenerator \<Rightarrow> string \<Rightarrow> string set" where
  "hosts_of kind rg n = (case kind_rrs kind rg of None \<Rightarrow> {} | Some r \<Rightarrow> rrs_hosts r n)"

definition zone :: "RecordGenerator \<Rightarrow> zone_entry set" where
  "zone rg = {(k, n, h). h \<in> hosts_of k rg n}"

definition gen_ok :: "RecordGenerator \<Rightarrow> bool" where
  "gen_ok rg \<longleftrightarrow>
     (case (RG_As rg, RG_SRVs rg) of (Some a, Some s) \<Rightarrow> rrs_inv a \<and> rrs_inv s | _ \<Rightarrow> False)"

definition entry :: "rrsKind \<Rightarrow> string \<Rightarrow> string \<Rightarrow> zone_entry set" where
  "entry k n h = (if h = [] then {} else {(k, n, h)})"

text \<open>The fields inserting a record leaves alone.\<close>

definition gen_frame :: "RecordGenerator \<Rightarrow> Config \<times> State \<times> (string \<times> string) list \<times> EnumerationData \<times> int" where
  "gen_frame rg = (RG_Config rg, RG_State rg, RG_SlaveIPs rg, RG_EnumData rg, RG_httpTimeout rg)"

lemma A_neq_SRV [simp]: "A \<noteq> SRV" "SRV \<noteq> A"
  by (simp_all add: A_def SRV_def)

lemma kind_rrs_simps [simp]: "kind_rrs A rg = RG_As rg" "kind_rrs SRV rg = RG_SRVs rg"
  by (simp_all add: kind_rrs_def)

lemma mem_zone: "(k, n, h) \<in> zone rg \<longleftrightarrow> h \<in> hosts_of k rg n"
  by (simp add: zone_def)

lemma insertRR_eq:
  assumes "kind_rrs k rg = Some r"
  shows "insertRR n h k rg = (fst (rrs_add r n h), set_kind_rrs k (snd (rrs_add r n h)) rg)"
  using assms by (simp add: insertRR_def case_prod_beta)

lemma hosts_of_insertRR:
  assumes "gen_ok rg" "k \<in> {A, SRV}"
  shows "hosts_of k' (snd (insertRR n h k rg)) m =
    (if k' = k \<and> m = n \<and> h \<noteq> [] then insert h (hosts_of k' rg m) else hosts_of k' rg m)"
  using assms
  by (auto simp: gen_ok_def hosts_of_def insertRR_eq set_kind_rrs_def kind_rrs_def rr.hosts_add
      split: option.splits)

lemma insertRR_zone [store_simps]:
  assumes "gen_ok rg" "k \<in> {A, SRV}"
  shows "zone (snd (insertRR n h k rg)) = zone rg \<union> entry k n h"
  by (auto simp: zone_def entry_def hosts_of_insertRR [OF assms] split: if_splits)

lemma insertRR_ok [store_simps]:
  assumes "gen_ok rg"
  shows "gen_ok (snd (insertRR n h k rg))"
  using assms
  by (auto simp: gen_ok_def insertRR_def set_kind_rrs_def kind_rrs_def case_prod_beta rrs_inv_add
      split: option.splits)

lemma insertRR_added:
  assumes "gen_ok rg" "k \<in> {A, SRV}"
  shows "fst (insertRR n h k rg) \<longleftrightarrow> h \<noteq> [] \<and> (k, n, h) \<notin> zone rg"
  using assms
  by (auto simp: gen_ok_def insertRR_eq mem_zone hosts_of_def rr.add_new split: option.splits)

lemma insertRR_frame [frame_simps]: "gen_frame (snd (insertRR n h k rg)) = gen_frame rg"
  by (simp add: insertRR_def set_kind_rrs_def gen_frame_def case_prod_beta split: option.split)

lemma gen_frameD:
  assumes "gen_frame rg' = gen_frame rg"
  shows "RG_SlaveIPs rg' = RG_SlaveIPs rg" "RG_Config rg' = RG_Config rg"
    "RG_EnumData rg' = RG_EnumData rg" "RG_State rg' = RG_State rg"
  using assms by (simp_all add: gen_frame_def)

section \<open>Framework and slave records\<close>

definition framework_zone :: "(string \<Rightarrow> IP option) \<Rightarrow> string \<Rightarrow> Func \<Rightarrow> Framework \<Rightarrow> zone_entry set" where
  "framework_zone resolve domain spec f =
     (case DomainFrag (Framework_Name f) Sep spec of
        None \<Rightarrow> {}
      | Some fname \<Rightarrow>
          let (host, port) = HostPort f; (address, ok) = hostToIP4 resolve host;
              a = fname @ ''.'' @ domain @ ''.''
          in if ok then entry A a address \<union>
               (if port = [] then {} else entry SRV (''_framework._tcp.'' @ a) (JoinHostPort a port))
             else {})"

definition slave_zone :: "(string \<Rightarrow> IP option) \<Rightarrow> string \<Rightarrow> Slave \<Rightarrow> zone_entry set" where
  "slave_zone resolve domain slave =
     (case Slave_PID slave of
        None \<Rightarrow> {}
      | Some pid \<Rightarrow>
          let (address, ok) = hostToIP4 resolve (UPID_Host pid); a = ''slave.'' @ domain @ ''.''
          in if ok then entry A a address \<union>
               entry SRV (''_slave._tcp.'' @ domain @ ''.'') (JoinHostPort a (UPID_Port pid))
             else {})"

text \<open>The address recorded for a slave: its IP, or its mangled host name when it does not resolve.\<close>

definition slave_address :: "(string \<Rightarrow> IP option) \<Rightarrow> Func \<Rightarrow> Slave \<Rightarrow> string option" where
  "slave_address resolve spec slave = do {
     pid \<leftarrow> Slave_PID slave;
     let (address, ok) = hostToIP4 resolve (UPID_Host pid);
     if ok then Some address else DomainFrag address Sep spec }"

definition slave_ips :: "(string \<Rightarrow> IP option) \<Rightarrow> Func \<Rightarrow> Slave list \<Rightarrow> string \<Rightarrow> string option" where
  "slave_ips resolve spec slaves sid =
     fold (\<lambda>slave r. if Slave_ID slave = sid then slave_address resolve spec slave else r) slaves None"

lemma framework_record_zone:
  assumes "gen_ok rg" and "framework_record resolve domain spec f rg = Some rg'"
  shows "gen_ok rg' \<and> gen_frame rg' = gen_frame rg \<and> zone rg' = zone rg \<union> framework_zone resolve domain spec f"
  using assms
  by (cases "snd (hostToIP4 resolve (fst (HostPort f)))"; cases "snd (HostPort f) = []")
    (auto simp: framework_record_def framework_zone_def bind_eq_Some_conv Let_def case_prod_beta
      store_simps frame_simps)

lemma frameworkRecords_zone:
  assumes "gen_ok rg" and "frameworkRecords resolve sj domain spec rg = Some rg'"
  shows "gen_ok rg' \<and> gen_frame rg' = gen_frame rg \<and>
    zone rg' = zone rg \<union> (\<Union>f\<in>set (State_Frameworks sj). framework_zone resolve domain spec f)"
  using assms framework_record_zone
    fold_opt_union [where I = "\<lambda>r. gen_ok r \<and> gen_frame r = gen_frame rg" and a = zone
      and g = "framework_zone resolve domain spec"]
  unfolding frameworkRecords_def by (smt (verit, best))

lemma gen_ok_SlaveIPs [simp]: "gen_ok (rg\<lparr>RG_SlaveIPs := m\<rparr>) = gen_ok rg"
  "gen_ok (rg\<lparr>RG_EnumData := ed\<rparr>) = gen_ok rg" "gen_ok (rg\<lparr>RG_State := sj\<rparr>) = gen_ok rg"
  "gen_ok (rg\<lparr>RG_Config := c\<rparr>) = gen_ok rg"
  by (simp_all add: gen_ok_def)

lemma kind_rrs_SlaveIPs [simp]: "kind_rrs k (rg\<lparr>RG_SlaveIPs := m\<rparr>) = kind_rrs k rg"
  "kind_rrs k (rg\<lparr>RG_EnumData := ed\<rparr>) = kind_rrs k rg" "kind_rrs k (rg\<lparr>RG_State := sj\<rparr>) = kind_rrs k rg"
  "kind_rrs k (rg\<lparr>RG_Config := c\<rparr>) = kind_rrs k rg"
  by (simp_all add: kind_rrs_def)

lemma zone_SlaveIPs [simp]: "zone (rg\<lparr>RG_SlaveIPs := m\<rparr>) = zone rg"
  "zone (rg\<lparr>RG_EnumData := ed\<rparr>) = zone rg" "zone (rg\<lparr>RG_State := sj\<rparr>) = zone rg"
  "zone (rg\<lparr>RG_Config := c\<rparr>) = zone rg"
  by (simp_all add: zone_def hosts_of_def)

lemma slave_record_cases:
  assumes "slave_record resolve domain spec slave rg = Some rg'"
  obtains (ip) pid address where "Slave_PID slave = Some pid" "hostToIP4 resolve (UPID_Host pid) = (address, True)"
      "rg' = (let a = ''slave.'' @ domain @ ''.'';
                  rg2 = snd (insertRR (''_slave._tcp.'' @ domain @ ''.'') (JoinHostPort a (UPID_Port pid)) SRV
                          (snd (insertRR a address A rg)))
              in rg2\<lparr>RG_SlaveIPs := AList.update (Slave_ID slave) address (RG_SlaveIPs rg2)\<rparr>)"
  | (name) pid address address' where "Slave_PID slave = Some pid"
      "hostToIP4 resolve (UPID_Host pid) = (address, False)" "DomainFrag address Sep spec = Some address'"
      "rg' = rg\<lparr>RG_SlaveIPs := AList.update (Slave_ID slave) address' (RG_SlaveIPs rg)\<rparr>"
proof -
  from assms obtain pid where pid: "Slave_PID slave = Some pid"
    by (auto simp: slave_record_def bind_eq_Some_conv)
  obtain address ok where h: "hostToIP4 resolve (UPID_Host pid) = (address, ok)" by force
  show ?thesis
  proof (cases ok)
    case True
    then show ?thesis using assms pid h that(1) by (simp add: slave_record_def Let_def)
  next
    case False
    then show ?thesis using assms pid h that(2) by (auto simp: slave_record_def bind_eq_Some_conv)
  qed
qed

lemma slave_record_zone:
  assumes "gen_ok rg" and "slave_record resolve domain spec slave rg = Some rg'"
  shows "gen_ok rg' \<and> zone rg' = zone rg \<union> slave_zone resolve domain slave"
  using assms(2)
  by (cases rule: slave_record_cases) (use assms(1) in \<open>auto simp: slave_zone_def Let_def store_simps\<close>)

lemma insertRR_fields [simp]:
  "RG_SlaveIPs (snd (insertRR n h k rg)) = RG_SlaveIPs rg"
  "RG_EnumData (snd (insertRR n h k rg)) = RG_EnumData rg"
  "RG_Config (snd (insertRR n h k rg)) = RG_Config rg"
  "RG_State (snd (insertRR n h k rg)) = RG_State rg"
  using gen_frameD [OF insertRR_frame [of n h k rg]] by simp_all

lemma slave_record_ips:
  assumes "slave_record resolve domain spec slave rg = Some rg'"
  shows "map_of (RG_SlaveIPs rg') = (map_of (RG_SlaveIPs rg))(Slave_ID slave := slave_address resolve spec slave)
    \<and> slave_address resolve spec slave \<noteq> None \<and> RG_EnumData rg' = RG_EnumData rg"
  using assms by (cases rule: slave_record_cases) (auto simp: slave_address_def Let_def update_conv)

lemma slaveRecords_zone:
  assumes "gen_ok rg" and "slaveRecords resolve sj domain spec rg = Some rg'"
  shows "gen_ok rg' \<and> zone rg' = zone rg \<union> (\<Union>s\<in>set (State_Slaves sj). slave_zone resolve domain s)"
  using assms(2) unfolding slaveRecords_def
  by (rule fold_opt_union) (use assms(1) slave_record_zone in auto)

lemma slaveRecords_ips:
  assumes "slaveRecords resolve sj domain spec rg = Some rg'" and "RG_SlaveIPs rg = []"
  shows "map_of (RG_SlaveIPs rg') = slave_ips resolve spec (State_Slaves sj) \<and> RG_EnumData rg' = RG_EnumData rg"
proof -
  have "fold_opt (slave_record resolve domain spec) slaves r = Some r' \<Longrightarrow>
      map_of (RG_SlaveIPs r') = (\<lambda>sid. fold (\<lambda>slave x. if Slave_ID slave = sid then slave_address resolve spec slave else x)
        slaves (map_of (RG_SlaveIPs r) sid)) \<and> RG_EnumData r' = RG_EnumData r" for slaves r r'
  proof (induction slaves arbitrary: r)
    case (Cons s slaves)
    then show ?case
      by (auto simp: bind_eq_Some_conv fun_upd_def dest!: slave_record_ips intro!: ext
          arg_cong [where f = "\<lambda>x. fold _ slaves x"])
  qed simp
  from this [OF assms(1) [unfolded slaveRecords_def]] show ?thesis
    using assms(2) by (auto simp: slave_ips_def)
qed

lemma slave_record_config: "slave_record resolve domain spec slave rg = Some rg' \<Longrightarrow> RG_Config rg' = RG_Config rg"
  by (cases rule: slave_record_cases) (auto simp: Let_def)

lemma slaveRecords_config: "slaveRecords resolve sj domain spec rg = Some rg' \<Longrightarrow> RG_Config rg' = RG_Config rg"
  unfolding slaveRecords_def
  by (rule fold_opt_invariant [where P = "\<lambda>r. RG_Config r = RG_Config rg"]) (auto dest: slave_record_config)

section \<open>Master records\<close>

text \<open>
  The order in which \<open>masterRecord\<close> numbers the masters, stated without the loop: the
  addresses of the parseable entries in the order listed, each once, without those already
  published under \<open>master.domain\<close> except for the leader's own entry; the leader comes last
  when it is not listed.
\<close>

abbreviation proto_ok :: "string \<Rightarrow> bool" where
  "proto_ok m \<equiv> snd (snd (getProto m)) = None"

abbreviation proto_ip :: "string \<Rightarrow> string" where
  "proto_ip m \<equiv> fst (getProto m)"

definition listed_masters :: "string set \<Rightarrow> string \<Rightarrow> string list \<Rightarrow> string list" where
  "listed_masters seen la masters =
     unique (map proto_ip (filter (\<lambda>m. proto_ok m \<and> (m = la \<or> proto_ip m \<notin> insert [] seen)) masters))"

definition master_order :: "string set \<Rightarrow> string \<Rightarrow> string list \<Rightarrow> string list" where
  "master_order seen la masters =
     listed_masters (insert (proto_ip la) seen) la masters @ (if la \<in> set masters then [] else [proto_ip la])"

definition master_name :: "nat \<Rightarrow> string \<Rightarrow> string" where
  "master_name i domain = ''master'' @ Itoa (int i) @ ''.'' @ domain @ ''.''"

definition master_all :: "string \<Rightarrow> string" where
  "master_all domain = ''master.'' @ domain @ ''.''"

definition numbered_zone :: "string \<Rightarrow> string list \<Rightarrow> zone_entry set" where
  "numbered_zone domain ips =
     (\<Union>x\<in>set ips. entry A (master_all domain) x) \<union>
     (\<Union>i<length ips. entry A (master_name i domain) (ips ! i))"

definition leader_zone :: "string \<Rightarrow> string \<Rightarrow> zone_entry set" where
  "leader_zone domain la =
     (let (ip, port, _) = getProto la; host = ''leader.'' @ domain @ ''.'' @ '':'' @ port
      in entry A (''leader.'' @ domain @ ''.'') ip \<union> entry A (master_all domain) ip \<union>
         entry SRV (''_leader._tcp.'' @ domain @ ''.'') host \<union> entry SRV (''_leader._udp.'' @ domain @ ''.'') host)"

lemma unique_loop_snoc:
  assumes "set out = set seen"
  shows "unique_loop (xs @ [x]) seen out =
    (if x \<in> set xs \<union> set seen then unique_loop xs seen out else unique_loop xs seen out @ [x])"
  using assms by (induction xs arbitrary: seen out) auto

lemma unique_snoc: "unique (xs @ [x]) = (if x \<in> set xs then unique xs else unique xs @ [x])"
  using unique_loop_snoc [of "[]" "[]" xs x] by (simp add: unique_def)

lemma master_name_neq: "master_name i domain \<noteq> master_all domain"
proof -
  obtain c cs where "Itoa (int i) = c # cs" using Itoa_not_Nil by (meson neq_Nil_conv)
  moreover from this have "is_digit c \<or> c = CHR ''-''" using Itoa_set [of c "int i"] by simp
  ultimately show ?thesis by (auto simp: master_name_def master_all_def)
qed

lemma numbered_zone_Nil [simp]: "numbered_zone domain [] = {}"
  by (simp add: numbered_zone_def)

lemma numbered_zone_snoc:
  "numbered_zone domain (ips @ [x]) = numbered_zone domain ips \<union>
     entry A (master_all domain) x \<union> entry A (master_name (length ips) domain) x"
proof -
  have "(\<Union>i<length ips. entry A (master_name i domain) ((ips @ [x]) ! i))
      = (\<Union>i<length ips. entry A (master_name i domain) (ips ! i))"
    by (rule SUP_cong) (auto simp: nth_append)
  then show ?thesis by (auto simp: numbered_zone_def lessThan_Suc)
qed

lemma numbered_zone_master:
  "(A, master_all domain, h) \<in> numbered_zone domain ips \<longleftrightarrow> h \<in> set ips \<and> h \<noteq> []"
  using master_name_neq [of _ domain] by (auto simp: numbered_zone_def entry_def)

lemma listed_masters_Nil [simp]: "listed_masters seen la [] = []"
  by (simp add: listed_masters_def unique_def)

lemma set_listed_masters:
  "set (listed_masters seen la masters) =
     proto_ip ` {m \<in> set masters. proto_ok m \<and> (m = la \<or> proto_ip m \<notin> insert [] seen)}"
  by (simp add: listed_masters_def)

text \<open>One iteration, by the shape of the entry.\<close>

lemma master_step_cases:
  "master_step domain la m (rg, added, idx) =
     (if \<not> proto_ok m then (rg, added, idx)
      else if m = la then
        if added then (rg, added, idx)
        else (snd (insertRR (master_name idx domain) (proto_ip m) A rg), True, idx + 1)
      else
        let (new, rg1) = insertRR (master_all domain) (proto_ip m) A rg
        in if new then (snd (insertRR (master_name idx domain) (proto_ip m) A rg1), added, idx + 1)
           else (rg1, added, idx))"
  by (auto simp: master_step_def master_name_def master_all_def Let_def case_prod_beta)

lemma listed_masters_snoc:
  "listed_masters seen la (masters @ [m]) =
     (if proto_ok m \<and> (m = la \<or> proto_ip m \<notin> insert [] seen) \<and> proto_ip m \<notin> set (listed_masters seen la masters)
      then listed_masters seen la masters @ [proto_ip m] else listed_masters seen la masters)"
  by (auto simp: listed_masters_def unique_snoc)

text \<open>
  The loop over the masters, started with the leader's address already published under
  \<open>master.domain\<close> (the set \<open>seen\<close> of published addresses contains it): the invariant
  after the masters in \<open>ms\<close>.
\<close>

definition master_inv ::
  "RecordGenerator \<Rightarrow> string set \<Rightarrow> string \<Rightarrow> string \<Rightarrow> string list \<Rightarrow> RecordGenerator \<times> bool \<times> nat \<Rightarrow> bool" where
  "master_inv rg seen domain la ms = (\<lambda>(r, added, idx).
     gen_ok r \<and> gen_frame r = gen_frame rg \<and> added = (la \<in> set ms) \<and>
     idx = length (listed_masters seen la ms) \<and>
     zone r = zone rg \<union> numbered_zone domain (listed_masters seen la ms))"

definition published :: "RecordGenerator \<Rightarrow> string set \<Rightarrow> string \<Rightarrow> string \<Rightarrow> bool" where
  "published rg seen domain la \<longleftrightarrow> proto_ok la \<and> proto_ip la \<in> insert [] seen \<and>
     (\<forall>h. h \<noteq> [] \<longrightarrow> ((A, master_all domain, h) \<in> zone rg \<longleftrightarrow> h \<in> seen))"

lemma master_inv_leader:
  assumes "published rg seen domain la" and "master_inv rg seen domain la ms (r, a, i)"
  shows "master_inv rg seen domain la (ms @ [la]) (master_step domain la la (r, a, i))"
proof (cases a)
  case True
  then have "proto_ip la \<in> set (listed_masters seen la ms)"
    using assms by (auto simp: set_listed_masters master_inv_def published_def)
  then show ?thesis
    using True assms by (auto simp: master_step_cases listed_masters_snoc master_inv_def published_def)
next
  case False
  then have new: "listed_masters seen la (ms @ [la]) = listed_masters seen la ms @ [proto_ip la]"
    using assms by (auto simp: set_listed_masters listed_masters_snoc master_inv_def published_def)
  have "entry A (master_all domain) (proto_ip la) \<subseteq> zone rg"
    using assms(1) by (auto simp: entry_def published_def)
  then show ?thesis
    using False assms new
    by (auto simp: master_step_cases master_inv_def published_def numbered_zone_snoc store_simps frame_simps)
qed

lemma master_inv_other:
  assumes "published rg seen domain la" and "master_inv rg seen domain la ms (r, a, i)" and "m \<noteq> la"
  shows "master_inv rg seen domain la (ms @ [m]) (master_step domain la m (r, a, i))"
proof (cases "proto_ok m")
  case ok: True
  let ?L = "listed_masters seen la ms" and ?M = "master_all domain"
  have r: "gen_ok r" "zone r = zone rg \<union> numbered_zone domain ?L"
    using assms(2) by (auto simp: master_inv_def)
  have new: "fst (insertRR ?M (proto_ip m) A r) \<longleftrightarrow> proto_ip m \<notin> insert [] seen \<and> proto_ip m \<notin> set ?L"
    using assms(1) r by (auto simp: insertRR_added published_def numbered_zone_master)
  show ?thesis
  proof (cases "fst (insertRR ?M (proto_ip m) A r)")
    case True
    then have "listed_masters seen la (ms @ [m]) = ?L @ [proto_ip m]"
      using new ok by (simp add: listed_masters_snoc)
    then show ?thesis
      using True ok assms(2,3) by (auto simp: master_step_cases master_inv_def numbered_zone_snoc
          store_simps frame_simps case_prod_beta)
  next
    case False
    then have "zone (snd (insertRR ?M (proto_ip m) A r)) = zone r"
      using r(1) insertRR_added [OF r(1), of A ?M "proto_ip m"] by (auto simp: store_simps entry_def)
    then show ?thesis
      using False new ok assms(2,3) by (auto simp: master_step_cases master_inv_def listed_masters_snoc
          store_simps frame_simps case_prod_beta)
  qed
next
  case False
  then show ?thesis
    using assms by (auto simp: master_step_cases listed_masters_snoc master_inv_def)
qed

lemma master_loop:
  assumes "gen_ok rg" and "published rg seen domain la"
  shows "master_inv rg seen domain la masters (fold (master_step domain la) masters (rg, False, 0))"
proof (induction masters rule: rev_induct)
  case Nil
  then show ?case using assms(1) by (simp add: master_inv_def)
next
  case (snoc m masters)
  obtain r a i where r: "fold (master_step domain la) masters (rg, False, 0) = (r, a, i)"
    by (cases "fold (master_step domain la) masters (rg, False, 0)") auto
  then show ?case
    using snoc master_inv_leader [OF assms(2)] master_inv_other [OF assms(2)] by (cases "m = la") auto
qed

definition leader_address :: "string \<Rightarrow> string option" where
  "leader_address leader =
     (case Split leader ''@'' of _ # la # _ \<Rightarrow> if proto_ok la then Some la else None | _ \<Rightarrow> None)"

definition master_zone :: "string set \<Rightarrow> string \<Rightarrow> string list \<Rightarrow> string \<Rightarrow> zone_entry set" where
  "master_zone seen domain masters leader =
     (case leader_address leader of
        None \<Rightarrow> {}
      | Some la \<Rightarrow> leader_zone domain la \<union> numbered_zone domain (master_order seen la masters))"

definition leader_records :: "string \<Rightarrow> string \<Rightarrow> RecordGenerator \<Rightarrow> RecordGenerator" where
  "leader_records domain la rg =
     (let host = ''leader.'' @ domain @ ''.'' @ '':'' @ fst (snd (getProto la));
          rg1 = snd (insertRR (''leader.'' @ domain @ ''.'') (proto_ip la) A rg);
          rg2 = snd (insertRR (master_all domain) (proto_ip la) A rg1);
          rg3 = snd (insertRR (''_leader._tcp.'' @ domain @ ''.'') host SRV rg2)
      in snd (insertRR (''_leader._udp.'' @ domain @ ''.'') host SRV rg3))"

lemma masterRecord_eq:
  "masterRecord domain masters leader rg =
     (case leader_address leader of
        None \<Rightarrow> rg
      | Some la \<Rightarrow>
          let (rg5, added, idx) = fold (master_step domain la) masters (leader_records domain la rg, False, 0)
          in if added then rg5 else snd (insertRR (master_name idx domain) (proto_ip la) A rg5))"
  by (simp add: masterRecord_def leader_address_def leader_records_def master_all_def master_name_def
      Let_def case_prod_beta split: list.split)

lemma leader_records_zone:
  assumes "gen_ok rg"
  shows "gen_ok (leader_records domain la rg) \<and> gen_frame (leader_records domain la rg) = gen_frame rg \<and>
    zone (leader_records domain la rg) = zone rg \<union> leader_zone domain la"
  using assms
  by (simp add: leader_records_def leader_zone_def Let_def case_prod_beta store_simps frame_simps Un_assoc)

lemma leader_zone_master:
  "h \<noteq> [] \<Longrightarrow> (A, master_all domain, h) \<in> leader_zone domain la \<longleftrightarrow> h = proto_ip la"
  by (auto simp: leader_zone_def entry_def master_all_def Let_def case_prod_beta)

lemma masterRecord_zone:
  assumes ok: "gen_ok rg"
  shows "gen_ok (masterRecord domain masters leader rg) \<and>
    gen_frame (masterRecord domain masters leader rg) = gen_frame rg \<and>
    zone (masterRecord domain masters leader rg) =
      zone rg \<union> master_zone (hosts_of A rg (master_all domain)) domain masters leader"
proof (cases "leader_address leader")
  case None
  then show ?thesis using ok by (simp add: masterRecord_eq master_zone_def)
next
  case (Some la)
  then have la: "proto_ok la" by (auto simp: leader_address_def split: list.splits if_splits)
  let ?r = "leader_records domain la rg" and ?seen = "insert (proto_ip la) (hosts_of A rg (master_all domain))"
  note lead = leader_records_zone [OF ok, of domain la]
  have pub: "published ?r ?seen domain la"
    using la lead leader_zone_master [of _ domain la] by (auto simp: published_def mem_zone [symmetric])
  obtain r a i where r: "fold (master_step domain la) masters (?r, False, 0) = (r, a, i)"
    by (cases "fold (master_step domain la) masters (?r, False, 0)") auto
  have inv: "master_inv ?r ?seen domain la masters (r, a, i)"
    using master_loop [OF _ pub, of masters] lead r by simp
  have sub: "entry A (master_all domain) (proto_ip la) \<subseteq> leader_zone domain la"
    by (auto simp: leader_zone_def Let_def case_prod_beta)
  show ?thesis
    using Some r inv lead sub
    by (auto simp: masterRecord_eq master_zone_def master_order_def master_inv_def numbered_zone_snoc
        store_simps frame_simps)
qed

section \<open>Numbering of the masters\<close>

lemma Itoa_inj: "Itoa (int i) @ ''.'' @ s = Itoa (int j) @ ''.'' @ t \<Longrightarrow> i = j"
proof -
  assume eq: "Itoa (int i) @ ''.'' @ s = Itoa (int j) @ ''.'' @ t"
  have dot: "takeWhile (\<lambda>c. c \<noteq> CHR ''.'') (Itoa (int k) @ ''.'' @ u) = Itoa (int k)" for k u
    by (subst takeWhile_append2) (use Itoa_set in fastforce)+
  from arg_cong [OF eq, of "takeWhile (\<lambda>c. c \<noteq> CHR ''.'')"] have "Itoa (int i) = Itoa (int j)"
    unfolding dot .
  then show ?thesis using digits_inject by (simp add: Itoa_def)
qed

lemma master_name_inj: "master_name i domain = master_name j domain \<longleftrightarrow> i = j"
  using Itoa_inj [of i "domain @ ''.''" j "domain @ ''.''"] by (auto simp: master_name_def)

lemma leader_zone_master_name: "(A, master_name i domain, h) \<notin> leader_zone domain la"
  using master_name_neq [of i domain]
  by (auto simp: leader_zone_def entry_def master_name_def Let_def case_prod_beta)

lemma numbered_zone_name:
  "(A, master_name i domain, h) \<in> numbered_zone domain ips \<longleftrightarrow> i < length ips \<and> h = ips ! i \<and> h \<noteq> []"
  using master_name_neq [of i domain] by (auto simp: numbered_zone_def entry_def master_name_inj)

lemma distinct_master_order:
  assumes "proto_ok la"
  shows "distinct (master_order seen la masters)"
  by (auto simp: master_order_def listed_masters_def)

lemma set_master_order:
  assumes "proto_ok la"
  shows "set (master_order {} la masters) =
    insert (proto_ip la) (proto_ip ` {m \<in> set masters. proto_ok m \<and> proto_ip m \<noteq> []})"
  using assms by (auto simp: master_order_def set_listed_masters)

section \<open>Properties\<close>

text \<open>C28: the masters are numbered without gaps or repetitions: \<open>master.domain\<close> resolves to the
  leader and every listed master, \<open>masterN.domain\<close> to the N-th of these addresses in the
  order listed (the leader last when it is not in the list) and to nothing else, and
  \<open>leader.domain\<close> to the leader.\<close>

theorem masterRecord_numbers:
  assumes "gen_ok rg" and "leader_address leader = Some la" and "proto_ip la \<noteq> []"
    and "hosts_of A rg (master_all domain) = {}" and "\<forall>i. hosts_of A rg (master_name i domain) = {}"
    and "ips = master_order {} la masters" and "rg' = masterRecord domain masters leader rg"
  shows "distinct ips
    \<and> set ips = insert (proto_ip la) (proto_ip ` {m \<in> set masters. proto_ok m \<and> proto_ip m \<noteq> []})
    \<and> hosts_of A rg' (master_all domain) = set ips
    \<and> (\<forall>i. hosts_of A rg' (master_name i domain) = (if i < length ips then {ips ! i} else {}))
    \<and> hosts_of A rg' (''leader.'' @ domain @ ''.'') = insert (proto_ip la) (hosts_of A rg (''leader.'' @ domain @ ''.''))"
proof -
  have la: "proto_ok la" using assms(2) by (auto simp: leader_address_def split: list.splits if_splits)
  have L: "distinct ips" "set ips = insert (proto_ip la) (proto_ip ` {m \<in> set masters. proto_ok m \<and> proto_ip m \<noteq> []})"
    using distinct_master_order [OF la] set_master_order [OF la] assms(6) by auto
  then have ne: "[] \<notin> set ips" using assms(3) by auto
  have "zone rg' = zone rg \<union> (leader_zone domain la \<union> numbered_zone domain ips)"
    using masterRecord_zone [OF assms(1), of domain masters leader] assms by (simp add: master_zone_def)
  then have hosts: "hosts_of A rg' n = hosts_of A rg n \<union>
      {h. (A, n, h) \<in> leader_zone domain la} \<union> {h. (A, n, h) \<in> numbered_zone domain ips}" for n
    by (auto simp: mem_zone [symmetric])
  have "{h. (A, master_all domain, h) \<in> leader_zone domain la} = {proto_ip la}"
    using assms(3) by (auto simp: leader_zone_def entry_def master_all_def Let_def case_prod_beta)
  then have all: "hosts_of A rg' (master_all domain) = set ips"
    using assms(4) L(2) ne by (auto simp: hosts numbered_zone_master)
  have num: "hosts_of A rg' (master_name i domain) = (if i < length ips then {ips ! i} else {})" for i
  proof -
    have "i < length ips \<Longrightarrow> ips ! i \<noteq> []" using ne nth_mem by metis
    then show ?thesis using assms(5) by (auto simp: hosts leader_zone_master_name numbered_zone_name)
  qed
  have "{h. (A, ''leader.'' @ domain @ ''.'', h) \<in> leader_zone domain la} = {proto_ip la}"
    using assms(3) by (auto simp: leader_zone_def entry_def master_all_def Let_def case_prod_beta)
  moreover have "(A, ''leader.'' @ domain @ ''.'', h) \<notin> numbered_zone domain ips" for h
    by (auto simp: numbered_zone_def entry_def master_all_def master_name_def)
  ultimately have "hosts_of A rg' (''leader.'' @ domain @ ''.'') = insert (proto_ip la) (hosts_of A rg (''leader.'' @ domain @ ''.''))"
    by (auto simp: hosts)
  then show ?thesis using L all num by blast
qed

definition demo_gen :: RecordGenerator where
  "demo_gen = (NewRecordGenerator (NewConfig 0))\<lparr>RG_As := Some [], RG_SRVs := Some []\<rparr>"

theorem masterRecord_numbers_witness:
  "hosts_of A (masterRecord ''mesos'' [''b:1'', ''a:1'', ''b:2''] ''master@a:1'' demo_gen) (master_name 1 ''mesos'') = {''a''}
   \<and> hosts_of A (masterRecord ''mesos'' [''b:1'', ''a:1'', ''b:2''] ''master@a:1'' demo_gen) (master_name 2 ''mesos'') = {}"
proof -
  have empty: "hosts_of A demo_gen n = {}" for n
    by (simp add: hosts_of_def demo_gen_def rrs_hosts_def rrs_get_def)
  have ok: "gen_ok demo_gen" using rr.invar_empty by (simp add: gen_ok_def demo_gen_def)
  have la: "leader_address ''master@a:1'' = Some ''a:1''" "proto_ip ''a:1'' \<noteq> []"
    and order: "master_order {} ''a:1'' [''b:1'', ''a:1'', ''b:2''] = [''b'', ''a'']"
    by code_simp+
  from masterRecord_numbers [OF ok la empty _ order [symmetric] refl, of "''mesos''"] empty
  have "hosts_of A (masterRecord ''mesos'' [''b:1'', ''a:1'', ''b:2''] ''master@a:1'' demo_gen) (master_name i ''mesos'')
      = (if i < length [''b'', ''a''] then {[''b'', ''a''] ! i} else {})" for i by blast
  from this [of 1] this [of 2] show ?thesis by simp
qed

end
