(* ===== verification/Resolver.thy ===== *)
theory Resolver
  imports Exchanger Builtin_Config Generator_Zone
begin

text \<open>
  \<open>resolvers/builtin/resolver.go\<close>: the DNS request handlers of the builtin resolver. A handler
  returns the message it writes, or none when it panics before writing one (\<open>panicRecover\<close>
  then answers instead), with the counters and the state of the random source. Parameters: \<open>intn\<close> is
  \<open>rand.Rand.Intn\<close>, \<open>mlen\<close> is the \<open>Len\<close> method of the vendored \<open>dns.Msg\<close>, and the orders
  in which Go visits the record sets.
\<close>

section \<open>The resolver\<close>

text \<open>The world of the forwarder: the counters and the network.\<close>

type_synonym 'e world = "LogOut \<times> 'e"

record ('g, 'e) Resolver =
  Res_version :: string
  Res_config :: BuiltinConfig
  Res_rg :: RecordGenerator
  Res_rng :: 'g
  Res_fwd :: "'e world Forwarder"

text \<open>
  \<open>exchangers\<close>: a decorated client per protocol; \<open>client\<close> stands for \<open>dns.Client\<close> with the
  given network and timeout (in seconds).
\<close>

definition on_log :: "(LogOut \<Rightarrow> LogOut) \<Rightarrow> 'e world \<Rightarrow> 'e world" where
  "on_log f = (\<lambda>(log, e). (f log, e))"

definition client_exchanger :: "'e Exchanger \<Rightarrow> 'e world Exchanger" where
  "client_exchanger client = (\<lambda>m a (log, e). let (res, e') = client m a e in (res, (log, e')))"

definition exchangers ::
  "(string \<Rightarrow> int \<Rightarrow> 'e Exchanger) \<Rightarrow> int \<Rightarrow> string list \<Rightarrow> string \<Rightarrow> 'e world Exchanger option" where
  "exchangers client timeout protos proto =
     (if proto \<in> set protos
      then Some (Decorate (client_exchanger (client proto timeout))
        [ErrorLogging (\<lambda>_ _ _ w. w),
         Instrumentation (on_log (NonMesosForwarded_update Inc)) (on_log (NonMesosSuccess_update Inc))
           (on_log (NonMesosFailed_update Inc))])
      else None)"

text \<open>\<open>New\<close>: the resolver and the servers it launches.\<close>

definition builtin_New ::
  "(string \<Rightarrow> int \<Rightarrow> 'e Exchanger) \<Rightarrow> 'g \<Rightarrow> BuiltinConfig \<Rightarrow> RecordGenerator \<Rightarrow> string \<Rightarrow> ('g, 'e) Resolver \<times> string list" where
  "builtin_New client seed config rg version =
     (let timeout = (if BC_Timeout config \<noteq> 0 then BC_Timeout config else 5);
          rs = (if \<not> BC_ExternalOn config then [] else BC_ExternalDNS config)
      in (\<lparr>Res_version = version, Res_config = config, Res_rg = rg, Res_rng = seed,
           Res_fwd = NewForwarder rs (exchangers client timeout [''udp'', ''tcp''])\<rparr>,
          (if BC_DNSOn config then [''dns''] else []) @ (if BC_HTTPOn config then [''http''] else [])))"

definition Reload :: "RecordGenerator \<Rightarrow> ('g, 'e) Resolver \<Rightarrow> ('g, 'e) Resolver" where
  "Reload rg res = res\<lparr>Res_rg := rg\<rparr>"

section \<open>Formatting records\<close>

definition ttl :: "BuiltinConfig \<Rightarrow> 32 word" where
  "ttl c = of_int (BC_TTL c)"

definition rr_header :: "string \<Rightarrow> 16 word \<Rightarrow> BuiltinConfig \<Rightarrow> RR_Header" where
  "rr_header name t c = \<lparr>Hdr_Name = name, Hdr_Rrtype = t, Hdr_Class = ClassINET, Hdr_Ttl = ttl c, Hdr_Rdlength = 0\<rparr>"

datatype res_error = InvalidTarget

definition formatSRV :: "BuiltinConfig \<Rightarrow> string \<Rightarrow> string \<Rightarrow> res_error + RR" where
  "formatSRV c name target =
     (case SplitHostPort target of
        (_, _, Some _) \<Rightarrow> Inl InvalidTarget
      | (h, port, None) \<Rightarrow> Inr (SRV_RR (rr_header name TypeSRV c) 0 0 (of_int (fst (Atoi port))) h))"

definition formatA :: "BuiltinConfig \<Rightarrow> string \<Rightarrow> string \<Rightarrow> res_error + RR" where
  "formatA c dm target =
     (case ParseIP target of
        None \<Rightarrow> Inl InvalidTarget
      | Some a \<Rightarrow> Inr (A_RR (rr_header dm TypeA c) (To4 a)))"

definition formatSOA :: "BuiltinConfig \<Rightarrow> Config \<Rightarrow> string \<Rightarrow> RR" where
  "formatSOA c rc dm =
     SOA_RR (rr_header dm TypeSOA c) (Config_SOAMname rc) (Config_SOARname rc) (Config_SOASerial rc)
       (Config_SOARefresh rc) (Config_SOARetry rc) (Config_SOAExpire rc) (ttl c)"

definition formatNS :: "BuiltinConfig \<Rightarrow> Config \<Rightarrow> string \<Rightarrow> RR" where
  "formatNS c rc dm = NS_RR (rr_header dm TypeNS c) (Config_SOAMname rc)"

section \<open>Shuffling\<close>

text \<open>\<open>intn g n\<close> is a number below \<open>n\<close> and the next state of the random source.\<close>

function shuffle_loop :: "('g \<Rightarrow> nat \<Rightarrow> nat \<times> 'g) \<Rightarrow> nat \<Rightarrow> 'a list \<Rightarrow> 'g \<Rightarrow> 'a list \<times> 'g" where
  "shuffle_loop intn i answers g =
     (if i < length answers then
        let (k, g') = intn g (length answers - i); r = i + k
        in shuffle_loop intn (i + 1) (answers[r := answers ! i, i := answers ! r]) g'
      else (answers, g))"
  by pat_completeness auto
termination
  by (relation "measure (\<lambda>(intn, i, answers, g). length answers - i)") auto

declare shuffle_loop.simps [simp del]

definition shuffleAnswers :: "('g \<Rightarrow> nat \<Rightarrow> nat \<times> 'g) \<Rightarrow> 'g \<Rightarrow> 'a list \<Rightarrow> 'a list \<times> 'g" where
  "shuffleAnswers intn g answers = shuffle_loop intn 0 answers g"

section \<open>Truncation\<close>

text \<open>
  The binary search of \<open>truncate\<close>. The code stops when \<open>left == right\<close>; \<open>left\<close> never exceeds
  \<open>right\<close>, so this is when \<open>left\<close> is no longer below \<open>right\<close>.
\<close>

function trunc_loop :: "(Msg \<Rightarrow> int) \<Rightarrow> int \<Rightarrow> RR list \<Rightarrow> nat \<Rightarrow> nat \<Rightarrow> Msg \<Rightarrow> Msg" where
  "trunc_loop mlen mx answers left right m =
     (if left < right then
        let mid = (left + right) div 2; m' = m\<lparr>Msg_Answer := take mid answers\<rparr>
        in if mlen m' < mx then trunc_loop mlen mx answers (mid + 1) right m'
           else trunc_loop mlen mx answers left mid m'
      else m)"
  by pat_completeness auto
termination
  by (relation "measure (\<lambda>(mlen, mx, answers, left, right, m). right - left)") auto

declare trunc_loop.simps [simp del]

text \<open>\<open>truncate\<close>, after the permitted size is known.\<close>

definition truncate_to :: "(Msg \<Rightarrow> int) \<Rightarrow> int \<Rightarrow> Msg \<Rightarrow> Msg" where
  "truncate_to mlen mx m =
     (let m1 = m\<lparr>Msg_Truncated := (mlen m > mx)\<rparr>
      in if \<not> Msg_Truncated m1 then m1
         else
           let m2 = m1\<lparr>Msg_Extra := []\<rparr>
           in if mlen m2 < mx then m2
              else trunc_loop mlen mx (Msg_Answer m2) 0 (length (Msg_Answer m2)) m2)"

definition max_size :: "Msg \<Rightarrow> bool \<Rightarrow> int option" where
  "max_size m udp =
     (if \<not> udp then Some MaxMsgSize
      else case IsEdns0 m of
        None \<Rightarrow> None
      | Some None \<Rightarrow> Some MinMsgSize
      | Some (Some opt) \<Rightarrow> Some (uint (UDPSize opt)))"

definition truncate_msg :: "(Msg \<Rightarrow> int) \<Rightarrow> Msg \<Rightarrow> bool \<Rightarrow> Msg option" where
  "truncate_msg mlen m udp = do { mx \<leftarrow> max_size m udp; Some (truncate_to mlen mx m) }"

definition isUDP :: "string \<Rightarrow> bool" where
  "isUDP network = HasPrefix network ''udp''"

text \<open>\<open>reply\<close> to a client on the given network: the message written.\<close>

definition reply :: "(Msg \<Rightarrow> int) \<Rightarrow> string \<Rightarrow> Msg \<Rightarrow> Msg option" where
  "reply mlen network m = truncate_msg mlen (m\<lparr>Msg_Compress := True\<rparr>) (isUDP network)"

section \<open>Lists of errors\<close>

text \<open>A \<open>multiError\<close> is a list of errors, some nil; an argument of \<open>Add\<close> is one of those or another error.\<close>

datatype 'e error_arg = MultiE "'e option list" | PlainE "'e option"

fun multi_Add :: "'e option list \<Rightarrow> 'e error_arg list \<Rightarrow> 'e option list" where
  "multi_Add e [] = e"
| "multi_Add e (MultiE me # errs) = multi_Add (e @ me) errs"
| "multi_Add e (PlainE None # errs) = multi_Add e errs"
| "multi_Add e (PlainE (Some x) # errs) = multi_Add (e @ [Some x]) errs"

definition multi_Error :: "('e \<Rightarrow> string) \<Rightarrow> 'e option list \<Rightarrow> string" where
  "multi_Error message e = Join (map (case_option [] message) e) ''; ''"

definition multi_Nil :: "'e option list \<Rightarrow> bool" where
  "multi_Nil e \<longleftrightarrow> list_all (\<lambda>err. err = None) e"

lemma multi_Nil_errors [simp]: "multi_Nil (map Some errs) \<longleftrightarrow> errs = []" "multi_Nil []"
  by (cases errs) (simp_all add: multi_Nil_def)

section \<open>Mesos queries\<close>

text \<open>
  The orders of the loops over record sets: over the SRV records of a name, over the
  addresses of the host of one SRV record, and over the addresses of a name.
\<close>

record orders =
  ord_srv :: map_order
  ord_first :: "string \<Rightarrow> map_order"
  ord_a :: map_order

text \<open>\<open>rs.As[name]\<close> and \<open>rs.SRVs[name]\<close>; a nil map has no entries.\<close>

definition rrs_look :: "rrs option \<Rightarrow> string \<Rightarrow> string list" where
  "rrs_look r name = (case r of None \<Rightarrow> [] | Some r \<Rightarrow> rrs_get r name)"

definition rrs_first :: "map_order \<Rightarrow> rrs option \<Rightarrow> string \<Rightarrow> string \<times> bool" where
  "rrs_first ord r name = (case r of None \<Rightarrow> ([], False) | Some r \<Rightarrow> rrs_First ord r name)"

definition cleanWild :: "string \<Rightarrow> string" where
  "cleanWild name = (if Contains name ''.*'' then ReplaceAll name ''.*'' [] else name)"

text \<open>One SRV record: the state of the loop is the set \<open>added\<close>, the message and the errors.\<close>

definition srv_step ::
  "BuiltinConfig \<Rightarrow> orders \<Rightarrow> RecordGenerator \<Rightarrow> string \<Rightarrow> string \<Rightarrow>
   string list \<times> Msg \<times> res_error list \<Rightarrow> string list \<times> Msg \<times> res_error list" where
  "srv_step c ords rs qname srv = (\<lambda>(added, m, errs).
     case formatSRV c qname srv of
       Inl e \<Rightarrow> (added, m, errs @ [e])
     | Inr srvRR \<Rightarrow>
         let m1 = m\<lparr>Msg_Answer := Msg_Answer m @ [srvRR]\<rparr>;
             host = hd (Split srv '':'')
         in if host \<in> set added then (added, m1, errs)
            else if length (rrs_look (RG_As rs) host) = 0 then (added, m1, errs)
            else (case rrs_first (ord_first ords srv) (RG_As rs) host of
                (a, True) \<Rightarrow>
                  (case formatA c host a of
                     Inl e \<Rightarrow> (added, m1, errs @ [e])
                   | Inr aRR \<Rightarrow> (host # added, m1\<lparr>Msg_Extra := Msg_Extra m1 @ [aRR]\<rparr>, errs))
              | (_, False) \<Rightarrow> (added, m1, errs)))"

definition handleSRV ::
  "BuiltinConfig \<Rightarrow> orders \<Rightarrow> RecordGenerator \<Rightarrow> string \<Rightarrow> string \<Rightarrow> Msg \<Rightarrow> Msg \<times> res_error list" where
  "handleSRV c ords rs name qname m =
     (let (_, m', errs) = fold (srv_step c ords rs qname) (ord_srv ords (rrs_look (RG_SRVs rs) name)) ([], m, [])
      in (m', errs))"

definition a_step :: "BuiltinConfig \<Rightarrow> string \<Rightarrow> string \<Rightarrow> Msg \<times> res_error list \<Rightarrow> Msg \<times> res_error list" where
  "a_step c name a = (\<lambda>(m, errs).
     case formatA c name a of
       Inl e \<Rightarrow> (m, errs @ [e])
     | Inr rr \<Rightarrow> (m\<lparr>Msg_Answer := Msg_Answer m @ [rr]\<rparr>, errs))"

definition handleA ::
  "BuiltinConfig \<Rightarrow> orders \<Rightarrow> RecordGenerator \<Rightarrow> string \<Rightarrow> Msg \<Rightarrow> Msg \<times> res_error list" where
  "handleA c ords rs name m = fold (a_step c name) (ord_a ords (rrs_look (RG_As rs) name)) (m, [])"

definition handleSOA :: "BuiltinConfig \<Rightarrow> Config \<Rightarrow> string \<Rightarrow> Msg \<Rightarrow> Msg" where
  "handleSOA c rc qname m = m\<lparr>Msg_Ns := Msg_Ns m @ [formatSOA c rc qname]\<rparr>"

definition handleNS :: "BuiltinConfig \<Rightarrow> Config \<Rightarrow> string \<Rightarrow> Msg \<Rightarrow> Msg" where
  "handleNS c rc qname m = m\<lparr>Msg_Ns := Msg_Ns m @ [formatNS c rc qname]\<rparr>"

definition handleEmpty ::
  "BuiltinConfig \<Rightarrow> Config \<Rightarrow> RecordGenerator \<Rightarrow> string \<Rightarrow> Question \<Rightarrow> Msg \<times> LogOut \<Rightarrow> Msg \<times> LogOut" where
  "handleEmpty c rc rs name q = (\<lambda>(m, log).
     if Question_Qtype q \<in> {TypeSOA, TypeNS, TypeSRV} then (m, MesosSuccess_update Inc log)
     else
       let m1 = m\<lparr>Msg_Rcode := RcodeNameError\<rparr>;
           m2 = (if Question_Qtype q = TypeAAAA \<or>
                    length (rrs_look (RG_SRVs rs) name) + length (rrs_look (RG_As rs) name) > 0
                 then m1\<lparr>Msg_Rcode := RcodeSuccess\<rparr> else m1)
       in (m2\<lparr>Msg_Ns := Msg_Ns m2 @ [formatSOA c rc (Question_Name q)]\<rparr>, MesosNXDomain_update Inc log))"

text \<open>The dispatch on the query type.\<close>

definition answer_query ::
  "BuiltinConfig \<Rightarrow> Config \<Rightarrow> orders \<Rightarrow> RecordGenerator \<Rightarrow> string \<Rightarrow> Question \<Rightarrow> Msg \<Rightarrow> Msg \<times> res_error list" where
  "answer_query c rc ords rs name q m =
     (let qname = Question_Name q; t = Question_Qtype q
      in if t = TypeSRV then handleSRV c ords rs name qname m
         else if t = TypeA then handleA c ords rs name m
         else if t = TypeSOA then (handleSOA c rc qname m, [])
         else if t = TypeNS then (handleNS c rc qname m, [])
         else if t = TypeANY then
           let (m1, e1) = handleSRV c ords rs name qname m;
               (m2, e2) = handleA c ords rs name m1
           in (handleNS c rc qname (handleSOA c rc qname m2), e1 @ e2)
         else (m, []))"

definition new_reply :: "BuiltinConfig \<Rightarrow> Msg \<Rightarrow> Msg" where
  "new_reply c r = SetReply r (new_Msg\<lparr>Msg_Authoritative := True, Msg_RecursionAvailable := BC_RecurseOn c\<rparr>)"

text \<open>
  The errors of the record loops are one list; the other handlers, \<open>handleEmpty\<close> among them,
  return nil.
\<close>

definition HandleMesos ::
  "('g \<Rightarrow> nat \<Rightarrow> nat \<times> 'g) \<Rightarrow> (Msg \<Rightarrow> int) \<Rightarrow> orders \<Rightarrow> ('g, 'e) Resolver \<Rightarrow> string \<Rightarrow> Msg \<Rightarrow> LogOut \<Rightarrow>
   Msg option \<times> LogOut \<times> 'g" where
  "HandleMesos intn mlen ords res network r lg =
     (let log1 = MesosRequests_update Inc lg;
          m = new_reply (Res_config res) r;
          rg = Res_rg res
      in case slice_at (Msg_Question r) 0 of
           None \<Rightarrow> (None, log1, Res_rng res)
         | Some q \<Rightarrow>
             let name = ToLower (cleanWild (Question_Name q));
                 (m1, errs) = answer_query (Res_config res) (RG_Config rg) ords rg name q m;
                 (m2, log2, g) =
                   (if length (Msg_Answer m1) = 0
                    then let (m2, log2) = handleEmpty (Res_config res) (RG_Config rg) rg name q (m1, log1)
                         in (m2, log2, Res_rng res)
                    else let (answers, g) = shuffleAnswers intn (Res_rng res) (Msg_Answer m1)
                         in (m1\<lparr>Msg_Answer := answers\<rparr>, MesosSuccess_update Inc log1, g));
                 log3 = (if \<not> multi_Nil (multi_Add [] [MultiE (map Some errs), PlainE None])
                         then MesosFailed_update Inc log2 else log2)
             in (reply mlen network m2, log3, g))"

section \<open>Other queries\<close>

definition rcode :: "go_error \<Rightarrow> int" where
  "rcode err = (case err of ForwardError _ _ \<Rightarrow> RcodeRefused | _ \<Rightarrow> RcodeServerFailure)"

text \<open>A forwarder that returns neither a message nor an error makes the handler dereference nil.\<close>

definition HandleNonMesos ::
  "(Msg \<Rightarrow> int) \<Rightarrow> ('g, 'e) Resolver \<Rightarrow> string \<Rightarrow> Msg \<Rightarrow> 'e world \<Rightarrow> Msg option \<times> 'e world" where
  "HandleNonMesos mlen res network r w =
     (let w1 = on_log (NonMesosRequests_update Inc) w;
          ((m, err), w2) = Res_fwd res r network w1
      in case err of
           Some e \<Rightarrow> (reply mlen network (SetRcode r (rcode e) new_Msg), w2)
         | None \<Rightarrow>
             (case m of
                None \<Rightarrow> (None, w2)
              | Some m \<Rightarrow>
                  (reply mlen network m,
                   if length (Msg_Answer m) = 0 then on_log (NonMesosNXDomain_update Inc) w2 else w2)))"

text \<open>\<open>panicRecover\<close>: a handler that panicked before writing a message answers with code 2.\<close>

definition panicRecover :: "(Msg \<Rightarrow> Msg option \<times> 's) \<Rightarrow> Msg \<Rightarrow> Msg \<times> 's" where
  "panicRecover f r =
     (let (written, s) = f r in (case written of Some m \<Rightarrow> m | None \<Rightarrow> SetRcode r 2 new_Msg, s))"

end
