(* ===== verification/Resolver_Props.thy ===== *)
theory Resolver_Props
  imports Resolver
begin

text \<open>
  What the DNS handlers of the builtin resolver answer: the records of the current generator,
  in a random order, with the response codes of an authoritative server; truncation; counters;
  and forwarding of other queries.
\<close>

section \<open>Shuffling permutes\<close>

text \<open>The documented contract of \<open>rand.Rand.Intn\<close> and of ranging over a map.\<close>

definition intn_ok :: "('g \<Rightarrow> nat \<Rightarrow> nat \<times> 'g) \<Rightarrow> bool" where
  "intn_ok intn \<longleftrightarrow> (\<forall>g n. 0 < n \<longrightarrow> fst (intn g n) < n)"

definition order_ok :: "map_order \<Rightarrow> bool" where
  "order_ok ord \<longleftrightarrow> (\<forall>v. mset (ord v) = mset v)"

lemma order_ok_set: "order_ok ord \<Longrightarrow> set (ord v) = set v"
  unfolding order_ok_def using mset_eq_setD by metis

lemma shuffle_loop_mset:
  assumes "intn_ok intn"
  shows "mset (fst (shuffle_loop intn i answers g)) = mset answers"
proof (induction "length answers - i" arbitrary: i answers g)
  case 0
  then show ?case by (simp add: shuffle_loop.simps)
next
  case (Suc n)
  then have i: "i < length answers" by simp
  obtain k g' where k: "intn g (length answers - i) = (k, g')" by force
  then have "k < length answers - i" using assms i unfolding intn_ok_def by (metis fst_conv zero_less_diff)
  then have r: "i + k < length answers" by simp
  let ?as = "answers[i + k := answers ! i, i := answers ! (i + k)]"
  have "mset (fst (shuffle_loop intn (i + 1) ?as g')) = mset ?as" using Suc.hyps by simp
  also have "\<dots> = mset answers" using i r by (rule mset_swap)
  finally show ?case using i k by (simp add: shuffle_loop.simps [of intn i] Let_def)
qed

lemma shuffleAnswers_mset: "intn_ok intn \<Longrightarrow> mset (fst (shuffleAnswers intn g answers)) = mset answers"
  by (simp add: shuffleAnswers_def shuffle_loop_mset)

section \<open>Truncation\<close>

abbreviation with_answers :: "Msg \<Rightarrow> nat \<Rightarrow> RR list \<Rightarrow> Msg" where
  "with_answers m k answers \<equiv> m\<lparr>Msg_Answer := take k answers\<rparr>"

lemma trunc_loop_step:
  assumes "left < right"
  defines "mid \<equiv> (left + right) div 2"
  shows "trunc_loop mlen mx answers left right (with_answers m k answers) =
    (if mlen (with_answers m mid answers) < mx then trunc_loop mlen mx answers (mid + 1) right (with_answers m mid answers)
     else trunc_loop mlen mx answers left mid (with_answers m mid answers))"
  using assms by (subst trunc_loop.simps) (simp add: Let_def)

lemma trunc_loop_stop: "\<not> left < right \<Longrightarrow> trunc_loop mlen mx answers left right m = m"
  by (simp add: trunc_loop.simps [of mlen mx answers left])

lemma trunc_loop_prefix:
  assumes "right \<le> length answers" "k \<le> length answers"
  shows "\<exists>k'. k' \<le> length answers \<and>
    trunc_loop mlen mx answers left right (with_answers m k answers) = with_answers m k' answers"
  using assms
proof (induction "right - left" arbitrary: left right k rule: less_induct)
  case less
  let ?mid = "(left + right) div 2"
  show ?case
  proof (cases "left < right")
    case True
    then have mid: "?mid < right" "left \<le> ?mid" by auto
    show ?thesis
      using mid less.hyps [of right "?mid + 1" ?mid] less.hyps [of ?mid left ?mid] less.prems
      unfolding trunc_loop_step [OF True] by auto
  qed (use less.prems trunc_loop_stop in blast)
qed

text \<open>
  When the size grows with the number of answers, the search ends at most one answer past the
  largest prefix that fits.
\<close>

lemma trunc_loop_search:
  assumes mono: "\<And>i j. i \<le> j \<Longrightarrow> mlen (with_answers m j answers) < mx \<Longrightarrow> mlen (with_answers m i answers) < mx"
    and "left \<le> right" "right \<le> length answers" "k + 1 = left \<or> k = right"
    and "\<forall>i<left. mlen (with_answers m i answers) < mx" "\<not> mlen (with_answers m right answers) < mx"
  shows "\<exists>k'. k' \<le> length answers \<and> (\<forall>i<k'. mlen (with_answers m i answers) < mx) \<and>
    \<not> mlen (with_answers m (k' + 1) answers) < mx \<and>
    trunc_loop mlen mx answers left right (with_answers m k answers) = with_answers m k' answers"
  using assms(2-)
proof (induction "right - left" arbitrary: left right k rule: less_induct)
  case less
  define fits where "fits i \<longleftrightarrow> mlen (with_answers m i answers) < mx" for i
  note IH = less.hyps [folded fits_def] and prems = less.prems [folded fits_def] and mono = mono [folded fits_def]
  let ?mid = "(left + right) div 2"
  show ?case unfolding fits_def [symmetric]
  proof (cases "left < right")
    case True
    then have mid: "?mid < right" "left \<le> ?mid" by auto
    show "\<exists>k'. k' \<le> length answers \<and> (\<forall>i<k'. fits i) \<and> \<not> fits (k' + 1) \<and>
      trunc_loop mlen mx answers left right (with_answers m k answers) = with_answers m k' answers"
    proof (cases "fits ?mid")
      case fit: True
      have "\<forall>i<?mid + 1. fits i" using mono [OF _ fit] by simp
      from IH [of right "?mid + 1" ?mid, OF _ _ _ _ this] prems mid
      have "\<exists>k'. k' \<le> length answers \<and> (\<forall>i<k'. fits i) \<and> \<not> fits (k' + 1) \<and>
        trunc_loop mlen mx answers (?mid + 1) right (with_answers m ?mid answers) = with_answers m k' answers" by simp
      then show ?thesis unfolding trunc_loop_step [OF True] fits_def [symmetric] if_P [OF fit] .
    next
      case False
      from IH [of ?mid left ?mid, OF _ _ _ _ _ False] prems mid
      have "\<exists>k'. k' \<le> length answers \<and> (\<forall>i<k'. fits i) \<and> \<not> fits (k' + 1) \<and>
        trunc_loop mlen mx answers left ?mid (with_answers m ?mid answers) = with_answers m k' answers" by simp
      then show ?thesis unfolding trunc_loop_step [OF True] fits_def [symmetric] if_not_P [OF False] .
    qed
  next
    case False
    then have "left = right" using prems by simp
    then have "\<not> fits (k + 1)" "\<forall>i<k. fits i" "k \<le> length answers" using prems mono [of right "k + 1"] by auto
    then show "\<exists>k'. k' \<le> length answers \<and> (\<forall>i<k'. fits i) \<and> \<not> fits (k' + 1) \<and>
      trunc_loop mlen mx answers left right (with_answers m k answers) = with_answers m k' answers"
      unfolding trunc_loop_stop [OF False] by blast
  qed
qed

lemma truncate_to_search:
  assumes mono: "\<And>i j. i \<le> j \<Longrightarrow>
      mlen (m\<lparr>Msg_Truncated := True, Msg_Extra := [], Msg_Answer := take i (Msg_Answer m)\<rparr>)
        \<le> mlen (m\<lparr>Msg_Truncated := True, Msg_Extra := [], Msg_Answer := take j (Msg_Answer m)\<rparr>)"
    and big: "mlen m > mx"
  defines "cut_at \<equiv> \<lambda>i. m\<lparr>Msg_Truncated := True, Msg_Extra := [], Msg_Answer := take i (Msg_Answer m)\<rparr>"
  shows "\<exists>k\<le>length (Msg_Answer m). truncate_to mlen mx m = cut_at k \<and> (\<forall>i<k. mlen (cut_at i) < mx) \<and>
    (k < length (Msg_Answer m) \<longrightarrow> mx \<le> mlen (cut_at (k + 1)))"
proof -
  let ?m = "m\<lparr>Msg_Truncated := True, Msg_Extra := []\<rparr>" and ?n = "length (Msg_Answer m)"
  have cut_at: "cut_at i = with_answers ?m i (Msg_Answer m)" for i by (simp add: cut_at_def)
  have mono': "mlen (cut_at i) < mx" if "i \<le> j" "mlen (cut_at j) < mx" for i j
    using mono [OF that(1)] that(2) by (simp add: cut_at_def)
  show ?thesis
  proof (cases "mlen ?m < mx")
    case True
    then have "truncate_to mlen mx m = cut_at ?n" using big by (simp add: truncate_to_def Let_def cut_at_def)
    moreover have "mlen (cut_at ?n) < mx" using True by (simp add: cut_at_def)
    then have "\<forall>i<?n. mlen (cut_at i) < mx" using mono' by (meson less_imp_le)
    ultimately show ?thesis by (intro exI [of _ ?n]) simp
  next
    case False
    then have n: "\<not> mlen (cut_at ?n) < mx" by (simp add: cut_at_def)
    have "truncate_to mlen mx m = trunc_loop mlen mx (Msg_Answer m) 0 ?n (with_answers ?m ?n (Msg_Answer m))"
      using big False by (simp add: truncate_to_def Let_def)
    moreover obtain k where "k \<le> ?n" "\<forall>i<k. mlen (cut_at i) < mx" "\<not> mlen (cut_at (k + 1)) < mx"
      "trunc_loop mlen mx (Msg_Answer m) 0 ?n (with_answers ?m ?n (Msg_Answer m)) = with_answers ?m k (Msg_Answer m)"
      using trunc_loop_search [where m = ?m and answers = "Msg_Answer m" and
          mlen = mlen and mx = mx and left = 0 and right = ?n and k = ?n] mono' n
      unfolding cut_at by force
    ultimately show ?thesis by (intro exI [of _ k]) (simp add: cut_at)
  qed
qed

text \<open>
  What truncation to \<open>mx\<close> octets returns: the message when it fits; otherwise, without additional
  records, a prefix of its answers. Where messages grow with their answers, the prefix is below
  the limit without its last answer, and at or above it with one answer more.
\<close>

definition cut_to :: "Msg \<Rightarrow> nat \<Rightarrow> Msg" where
  "cut_to m k = m\<lparr>Msg_Truncated := True, Msg_Extra := [], Msg_Answer := take k (Msg_Answer m)\<rparr>"

definition grows :: "(Msg \<Rightarrow> int) \<Rightarrow> Msg \<Rightarrow> bool" where
  "grows mlen m \<longleftrightarrow> (\<forall>i j. i \<le> j \<longrightarrow> mlen (cut_to m i) \<le> mlen (cut_to m j))"

definition truncated_to :: "(Msg \<Rightarrow> int) \<Rightarrow> int \<Rightarrow> Msg \<Rightarrow> Msg \<Rightarrow> bool" where
  "truncated_to mlen mx m t \<longleftrightarrow>
     (if mlen m \<le> mx then t = m\<lparr>Msg_Truncated := False\<rparr>
      else \<exists>k\<le>length (Msg_Answer m). t = cut_to m k \<and>
        (grows mlen m \<longrightarrow> (\<forall>i<k. mlen (cut_to m i) < mx) \<and> (k < length (Msg_Answer m) \<longrightarrow> mx \<le> mlen (cut_to m (k + 1)))))"

lemma truncate_to_prefix:
  assumes "mlen m > mx"
  shows "\<exists>k\<le>length (Msg_Answer m). truncate_to mlen mx m = cut_to m k"
proof -
  let ?m = "m\<lparr>Msg_Truncated := True, Msg_Extra := []\<rparr>" and ?n = "length (Msg_Answer m)"
  show ?thesis
  proof (cases "mlen ?m < mx")
    case True
    then show ?thesis using assms by (intro exI [of _ ?n]) (simp add: truncate_to_def Let_def cut_to_def)
  next
    case False
    have "truncate_to mlen mx m = trunc_loop mlen mx (Msg_Answer m) 0 ?n (with_answers ?m ?n (Msg_Answer m))"
      using assms False by (simp add: truncate_to_def Let_def)
    with trunc_loop_prefix [where m = ?m and left = 0 and mlen = mlen and mx = mx, OF order_refl order_refl]
    show ?thesis unfolding cut_to_def by (simp only:)
  qed
qed

lemma truncate_to_shape: "truncated_to mlen mx m (truncate_to mlen mx m)"
proof (cases "mlen m \<le> mx")
  case True
  then show ?thesis by (simp add: truncated_to_def truncate_to_def Let_def)
next
  case False
  then have big: "mlen m > mx" by simp
  show ?thesis
  proof (cases "grows mlen m")
    case True
    then show ?thesis using False truncate_to_search [of mlen m mx] big
      unfolding truncated_to_def grows_def cut_to_def by simp
  next
    case rough: False
    then show ?thesis using False truncate_to_prefix [of mx mlen m] by (simp add: truncated_to_def)
  qed
qed

lemma truncated_to_frame:
  assumes "truncated_to mlen mx m t"
  shows "Msg_Id t = Msg_Id m" "Msg_Rcode t = Msg_Rcode m" "Msg_Question t = Msg_Question m" "Msg_Ns t = Msg_Ns m"
    "Msg_Response t = Msg_Response m" "Msg_Authoritative t = Msg_Authoritative m"
    "set (Msg_Answer t) \<subseteq> set (Msg_Answer m)" "set (Msg_Extra t) \<subseteq> set (Msg_Extra m)"
    "Msg_Truncated t \<longleftrightarrow> mlen m > mx"
  using assms by (auto simp: truncated_to_def cut_to_def split: if_splits dest: in_set_takeD)

section \<open>Answers\<close>

text \<open>The results and the errors of a list of fallible computations.\<close>

definition oks :: "('e + 'a) list \<Rightarrow> 'a list" where
  "oks rs = concat (map (case_sum (\<lambda>_. []) (\<lambda>x. [x])) rs)"

lemma oks_simps [simp]: "oks [] = []" "oks (Inl e # rs) = oks rs" "oks (Inr x # rs) = x # oks rs" "oks (rs @ ss) = oks rs @ oks ss"
  by (simp_all add: oks_def)

lemma oks_mset:
  assumes "mset rs = mset ss"
  shows "mset (oks rs) = mset (oks ss)"
proof -
  have eq: "mset (oks ts) = (\<Sum>t\<in>#mset ts. mset (case_sum (\<lambda>_. []) (\<lambda>x. [x]) t))" for ts :: "('a + 'b) list"
    by (simp add: oks_def mset_concat sum_mset_sum_list comp_def flip: mset_map)
  show ?thesis using assms by (simp add: eq)
qed

lemma oks_set: "x \<in> set (oks rs) \<longleftrightarrow> Inr x \<in> set rs"
  by (force simp: oks_def split: sum.splits)

text \<open>The host of an SRV target, and the name a record is for.\<close>

definition srv_host :: "string \<Rightarrow> string" where
  "srv_host srv = hd (Split srv '':'')"

abbreviation rr_name :: "RR \<Rightarrow> string" where
  "rr_name rr \<equiv> Hdr_Name (RR_Hdr rr)"

lemma formatA_Inr:
  "formatA c n a = Inr rr \<longleftrightarrow> (\<exists>ip. ParseIP a = Some ip \<and> rr = A_RR (rr_header n TypeA c) (To4 ip))"
  by (auto simp: formatA_def split: option.splits)

lemma formatA_hdr: "formatA c n a = Inr rr \<Longrightarrow> rr_name rr = n \<and> Hdr_Rrtype (RR_Hdr rr) = TypeA"
  by (auto simp: formatA_Inr rr_header_def)

lemma handleA_fold:
  "fold (a_step c name) as (m, errs) = (m', errs') \<Longrightarrow>
   m' = m\<lparr>Msg_Answer := Msg_Answer m @ oks (map (formatA c name) as)\<rparr> \<and>
   ((\<forall>a\<in>set as. ParseIP a \<noteq> None) \<longrightarrow> errs' = errs)"
proof (induction as arbitrary: m errs)
  case (Cons a as)
  show ?case
  proof (cases "formatA c name a")
    case (Inl e)
    then show ?thesis using Cons.IH [of m "errs @ [e]"] Cons.prems
      by (auto simp: a_step_def formatA_def split: option.splits)
  next
    case (Inr rr)
    then show ?thesis using Cons.IH [of "m\<lparr>Msg_Answer := Msg_Answer m @ [rr]\<rparr>" errs] Cons.prems
      by (simp add: a_step_def)
  qed
qed simp

text \<open>
  The additional records of a list of SRV targets: one address record for every host with
  addresses, none twice.
\<close>

definition extra_ok :: "BuiltinConfig \<Rightarrow> RecordGenerator \<Rightarrow> string \<Rightarrow> string list \<Rightarrow> RR list \<Rightarrow> bool" where
  "extra_ok c rg qname srvs es \<longleftrightarrow>
     distinct (map rr_name es) \<and>
     (\<forall>e\<in>set es. \<exists>srv\<in>set srvs. (\<exists>rr. formatSRV c qname srv = Inr rr) \<and>
        (\<exists>a\<in>set (rrs_look (RG_As rg) (srv_host srv)). formatA c (srv_host srv) a = Inr e)) \<and>
     (\<forall>srv\<in>set srvs. (\<exists>rr. formatSRV c qname srv = Inr rr) \<longrightarrow> rrs_look (RG_As rg) (srv_host srv) \<noteq> [] \<longrightarrow>
        (\<forall>a\<in>set (rrs_look (RG_As rg) (srv_host srv)). ParseIP a \<noteq> None) \<longrightarrow> srv_host srv \<in> rr_name ` set es)"

lemma extra_okI_skip:
  assumes "extra_ok c rg qname srvs es"
    and "(\<exists>rr. formatSRV c qname srv = Inr rr) \<Longrightarrow> rrs_look (RG_As rg) (srv_host srv) \<noteq> [] \<Longrightarrow>
        \<forall>a\<in>set (rrs_look (RG_As rg) (srv_host srv)). ParseIP a \<noteq> None \<Longrightarrow> srv_host srv \<in> rr_name ` set es"
  shows "extra_ok c rg qname (srvs @ [srv]) es"
  using assms unfolding extra_ok_def by (simp add: ball_Un)

lemma extra_okI_add:
  assumes "extra_ok c rg qname srvs es" "srv_host srv \<notin> rr_name ` set es"
    "a \<in> set (rrs_look (RG_As rg) (srv_host srv))" "formatA c (srv_host srv) a = Inr e" "formatSRV c qname srv = Inr rr"
  shows "extra_ok c rg qname (srvs @ [srv]) (es @ [e])"
  using assms formatA_hdr [OF assms(4)] unfolding extra_ok_def by (simp add: ball_Un) blast

definition orders_ok :: "orders \<Rightarrow> bool" where
  "orders_ok ords \<longleftrightarrow> order_ok (ord_srv ords) \<and> (\<forall>s. order_ok (ord_first ords s)) \<and> order_ok (ord_a ords)"

lemma rrs_first_look:
  assumes "order_ok ord" "rrs_look r name \<noteq> []"
  shows "\<exists>a\<in>set (rrs_look r name). rrs_first ord r name = (a, True)"
proof (cases r)
  case (Some s)
  then have "mset (ord (rrs_get s name)) = mset (rrs_get s name)" "rrs_get s name \<noteq> []"
    using assms by (simp_all add: order_ok_def rrs_look_def)
  then obtain a as where "ord (rrs_get s name) = a # as" by (metis list.exhaust mset_zero_iff)
  then show ?thesis using Some order_ok_set [OF assms(1), of "rrs_get s name"]
    by (auto simp: rrs_first_def rrs_First_def rrs_look_def)
qed (use assms in \<open>simp add: rrs_look_def\<close>)

text \<open>The state of the SRV loop after the targets \<open>srvs\<close>.\<close>

definition srv_state ::
  "BuiltinConfig \<Rightarrow> RecordGenerator \<Rightarrow> string \<Rightarrow> Msg \<Rightarrow> string list \<Rightarrow> string list \<times> Msg \<times> res_error list \<Rightarrow> bool" where
  "srv_state c rg qname m srvs = (\<lambda>(added, m', errs). \<exists>es.
     m' = m\<lparr>Msg_Answer := Msg_Answer m @ oks (map (formatSRV c qname) srvs), Msg_Extra := Msg_Extra m @ es\<rparr> \<and>
     extra_ok c rg qname srvs es \<and> set added = rr_name ` set es)"

lemma srv_stateI:
  assumes "m' = m\<lparr>Msg_Answer := Msg_Answer m @ oks (map (formatSRV c qname) srvs), Msg_Extra := Msg_Extra m @ es\<rparr>"
    "extra_ok c rg qname srvs es" "set added = rr_name ` set es"
  shows "srv_state c rg qname m srvs (added, m', errs)"
  using assms unfolding srv_state_def by blast

lemma srv_step_cases:
  fixes srv :: string
  assumes "orders_ok ords"
  defines "host \<equiv> srv_host srv"
  obtains (error) e errs' where "formatSRV c qname srv = Inl e" "srv_step c ords rg qname srv (added, m, errs) = (added, m, errs')"
  | (plain) rr errs' where "formatSRV c qname srv = Inr rr"
      "srv_step c ords rg qname srv (added, m, errs) = (added, m\<lparr>Msg_Answer := Msg_Answer m @ [rr]\<rparr>, errs')"
      "host \<in> set added \<or> rrs_look (RG_As rg) host = [] \<or> (\<exists>a\<in>set (rrs_look (RG_As rg) host). ParseIP a = None)"
  | (extra) rr a e where "formatSRV c qname srv = Inr rr" "host \<notin> set added" "a \<in> set (rrs_look (RG_As rg) host)"
      "formatA c host a = Inr e"
      "srv_step c ords rg qname srv (added, m, errs) =
         (host # added, m\<lparr>Msg_Answer := Msg_Answer m @ [rr], Msg_Extra := Msg_Extra m @ [e]\<rparr>, errs)"
proof (cases "formatSRV c qname srv")
  case (Inl e)
  then show ?thesis by (intro error) (simp_all add: srv_step_def)
next
  case (Inr rr)
  note step = srv_step_def Let_def host_def [symmetric] srv_host_def [symmetric]
  show ?thesis
  proof (cases "host \<in> set added \<or> rrs_look (RG_As rg) host = []")
    case True
    then show ?thesis by (intro plain [OF Inr]) (auto simp: step Inr)
  next
    case False
    from assms(1) have "order_ok (ord_first ords srv)" by (simp add: orders_ok_def)
    from rrs_first_look [OF this] False obtain a where a: "a \<in> set (rrs_look (RG_As rg) host)"
      "rrs_first (ord_first ords srv) (RG_As rg) host = (a, True)" by blast
    show ?thesis
    proof (cases "formatA c host a")
      case (Inl e)
      then have "ParseIP a = None" by (auto simp: formatA_def split: option.splits)
      then show ?thesis using False a Inl by (intro plain [OF Inr]) (auto simp: step Inr)
    next
      case rrA: (Inr e)
      then show ?thesis using False a by (intro extra [OF Inr _ a(1) rrA]) (auto simp: step Inr)
    qed
  qed
qed

lemma srv_step_state:
  assumes "orders_ok ords" "srv_state c rg qname m srvs (added, m', errs)"
  shows "srv_state c rg qname m (srvs @ [srv]) (srv_step c ords rg qname srv (added, m', errs))"
proof -
  from assms(2) obtain es where m': "m' = m\<lparr>Msg_Answer := Msg_Answer m @ oks (map (formatSRV c qname) srvs), Msg_Extra := Msg_Extra m @ es\<rparr>"
    and es: "extra_ok c rg qname srvs es" and added: "set added = rr_name ` set es"
    unfolding srv_state_def by blast
  from assms(1) show ?thesis
  proof (cases rule: srv_step_cases [where c = c and qname = qname and srv = srv and rg = rg and added = added and m = m' and errs = errs])
    case (error e errs')
    then show ?thesis by (auto intro!: srv_stateI [where es = es] extra_okI_skip [OF es] simp: m' added)
  next
    case (plain rr errs')
    then show ?thesis unfolding plain(2) by (intro srv_stateI [where es = es] extra_okI_skip [OF es]) (auto simp: m' added)
  next
    case (extra rr a e)
    show ?thesis unfolding extra(5)
      using extra(1,2) formatA_hdr [OF extra(4)]
      by (intro srv_stateI [where es = "es @ [e]"] extra_okI_add [OF es _ extra(3,4,1)]) (auto simp: m' added)
  qed
qed

lemma handleSRV_fold:
  assumes "orders_ok ords"
  shows "srv_state c rg qname m srvs (fold (srv_step c ords rg qname) srvs ([], m, []))"
proof (induction srvs rule: rev_induct)
  case Nil
  show ?case by (simp add: srv_state_def extra_ok_def)
next
  case (snoc srv srvs)
  then show ?case using srv_step_state [OF assms] by (cases "fold (srv_step c ords rg qname) srvs ([], m, [])") auto
qed


text \<open>
  The reference answer to a question: the records of the name, the authority section, and the
  response code.
\<close>

definition mesos_answers :: "BuiltinConfig \<Rightarrow> RecordGenerator \<Rightarrow> string \<Rightarrow> Question \<Rightarrow> RR list" where
  "mesos_answers c rg name q =
     (if Question_Qtype q \<in> {TypeSRV, TypeANY} then oks (map (formatSRV c (Question_Name q)) (rrs_look (RG_SRVs rg) name)) else []) @
     (if Question_Qtype q \<in> {TypeA, TypeANY} then oks (map (formatA c name) (rrs_look (RG_As rg) name)) else [])"

definition mesos_rcode :: "RecordGenerator \<Rightarrow> string \<Rightarrow> Question \<Rightarrow> int" where
  "mesos_rcode rg name q =
     (if Question_Qtype q \<in> {TypeSOA, TypeNS, TypeSRV, TypeAAAA} \<or>
         rrs_look (RG_SRVs rg) name \<noteq> [] \<or> rrs_look (RG_As rg) name \<noteq> []
      then RcodeSuccess else RcodeNameError)"

definition mesos_authority :: "BuiltinConfig \<Rightarrow> RecordGenerator \<Rightarrow> Question \<Rightarrow> bool \<Rightarrow> RR list" where
  "mesos_authority c rg q found =
     (let soa = formatSOA c (RG_Config rg) (Question_Name q); ns = formatNS c (RG_Config rg) (Question_Name q)
      in (if Question_Qtype q \<in> {TypeSOA, TypeANY} then [soa] else []) @
         (if Question_Qtype q \<in> {TypeNS, TypeANY} then [ns] else []) @
         (if found \<or> Question_Qtype q \<in> {TypeSOA, TypeNS, TypeSRV} then [] else [soa]))"

definition mesos_extra :: "BuiltinConfig \<Rightarrow> RecordGenerator \<Rightarrow> string \<Rightarrow> Question \<Rightarrow> RR list \<Rightarrow> bool" where
  "mesos_extra c rg name q es \<longleftrightarrow>
     (if Question_Qtype q \<in> {TypeSRV, TypeANY} then extra_ok c rg (Question_Name q) (rrs_look (RG_SRVs rg) name) es
      else es = [])"

lemma extra_ok_set: "set srvs = set srvs' \<Longrightarrow> extra_ok c rg qname srvs es \<longleftrightarrow> extra_ok c rg qname srvs' es"
  unfolding extra_ok_def by simp

lemma oks_order: "order_ok ord \<Longrightarrow> mset (oks (map f (ord v))) = mset (oks (map f v))"
  by (rule oks_mset) (simp add: order_ok_def)

lemma handleSRV_spec:
  assumes "orders_ok ords"
  shows "\<exists>as es. fst (handleSRV c ords rg name qname m) =
      m\<lparr>Msg_Answer := Msg_Answer m @ as, Msg_Extra := Msg_Extra m @ es\<rparr> \<and>
    mset as = mset (oks (map (formatSRV c qname) (rrs_look (RG_SRVs rg) name))) \<and>
    extra_ok c rg qname (rrs_look (RG_SRVs rg) name) es"
proof -
  let ?l = "rrs_look (RG_SRVs rg) name" and ?s = "ord_srv ords (rrs_look (RG_SRVs rg) name)"
  have ord: "order_ok (ord_srv ords)" using assms by (simp add: orders_ok_def)
  obtain added m' errs where f: "fold (srv_step c ords rg qname) ?s ([], m, []) = (added, m', errs)"
    by (cases "fold (srv_step c ords rg qname) ?s ([], m, [])")
  from handleSRV_fold [OF assms, of c rg qname m ?s, unfolded f] obtain es where
    "m' = m\<lparr>Msg_Answer := Msg_Answer m @ oks (map (formatSRV c qname) ?s), Msg_Extra := Msg_Extra m @ es\<rparr>"
    "extra_ok c rg qname ?s es" unfolding srv_state_def by blast
  moreover have "extra_ok c rg qname ?s es \<longleftrightarrow> extra_ok c rg qname ?l es"
    using order_ok_set [OF ord] by (rule extra_ok_set)
  ultimately show ?thesis unfolding handleSRV_def f using oks_order [OF ord, of "formatSRV c qname" ?l] by auto
qed

lemma handleA_spec:
  assumes "orders_ok ords"
  shows "\<exists>as. fst (handleA c ords rg name m) = m\<lparr>Msg_Answer := Msg_Answer m @ as\<rparr> \<and>
    mset as = mset (oks (map (formatA c name) (rrs_look (RG_As rg) name)))"
proof -
  have ord: "order_ok (ord_a ords)" using assms by (simp add: orders_ok_def)
  obtain m' errs where "handleA c ords rg name m = (m', errs)" by (cases "handleA c ords rg name m")
  then show ?thesis using handleA_fold [of c name "ord_a ords (rrs_look (RG_As rg) name)" m "[]" m' errs]
    oks_order [OF ord, of "formatA c name" "rrs_look (RG_As rg) name"] unfolding handleA_def by auto
qed

lemmas qtypes = TypeA_def TypeNS_def TypeSOA_def TypeAAAA_def TypeSRV_def TypeANY_def

lemma answer_query_spec:
  assumes "orders_ok ords"
  shows "\<exists>as es. fst (answer_query c (RG_Config rg) ords rg name q m) =
      m\<lparr>Msg_Answer := Msg_Answer m @ as, Msg_Extra := Msg_Extra m @ es, Msg_Ns := Msg_Ns m @ mesos_authority c rg q True\<rparr> \<and>
    mset as = mset (mesos_answers c rg name q) \<and> mesos_extra c rg name q es"
proof -
  let ?t = "Question_Qtype q" and ?n = "Question_Name q"
  consider "?t = TypeSRV" | "?t = TypeA" | "?t = TypeSOA" | "?t = TypeNS" | "?t = TypeANY"
    | "?t \<notin> {TypeSRV, TypeA, TypeSOA, TypeNS, TypeANY}" by blast
  then show ?thesis
  proof cases
    case 1
    with handleSRV_spec [OF assms, of c rg name ?n m] show ?thesis
      by (auto simp: answer_query_def Let_def mesos_answers_def mesos_extra_def mesos_authority_def qtypes)
  next
    case 2
    with handleA_spec [OF assms, of c rg name m] show ?thesis
      by (auto simp: answer_query_def Let_def mesos_answers_def mesos_extra_def mesos_authority_def qtypes)
  next
    case 5
    obtain as1 es where s: "fst (handleSRV c ords rg name ?n m) = m\<lparr>Msg_Answer := Msg_Answer m @ as1, Msg_Extra := Msg_Extra m @ es\<rparr>"
      "mset as1 = mset (oks (map (formatSRV c ?n) (rrs_look (RG_SRVs rg) name)))"
      "extra_ok c rg ?n (rrs_look (RG_SRVs rg) name) es"
      using handleSRV_spec [OF assms] by blast
    obtain as2 where a: "fst (handleA c ords rg name (fst (handleSRV c ords rg name ?n m))) =
        (fst (handleSRV c ords rg name ?n m))\<lparr>Msg_Answer := Msg_Answer (fst (handleSRV c ords rg name ?n m)) @ as2\<rparr>"
      "mset as2 = mset (oks (map (formatA c name) (rrs_look (RG_As rg) name)))"
      using handleA_spec [OF assms] by blast
    have "fst (answer_query c (RG_Config rg) ords rg name q m) =
      handleNS c (RG_Config rg) ?n (handleSOA c (RG_Config rg) ?n (fst (handleA c ords rg name (fst (handleSRV c ords rg name ?n m)))))"
      using 5 by (simp add: answer_query_def Let_def qtypes case_prod_beta)
    then show ?thesis using 5 s a
      by (intro exI [of _ "as1 @ as2"] exI [of _ es])
        (simp add: handleNS_def handleSOA_def mesos_authority_def Let_def mesos_answers_def mesos_extra_def qtypes)
  qed (simp_all add: answer_query_def Let_def mesos_answers_def mesos_extra_def mesos_authority_def handleSOA_def handleNS_def qtypes)
qed


section \<open>The reply\<close>

text \<open>The message a handler hands to \<open>reply\<close>, up to the order of the answers.\<close>

definition mesos_message :: "BuiltinConfig \<Rightarrow> RecordGenerator \<Rightarrow> string \<Rightarrow> Question \<Rightarrow> Msg \<Rightarrow> Msg \<Rightarrow> bool" where
  "mesos_message c rg name q r m \<longleftrightarrow> (\<exists>as es.
     m = new_Msg\<lparr>Msg_Id := Msg_Id r, Msg_Response := True, Msg_Authoritative := True,
       Msg_RecursionDesired := Msg_RecursionDesired r, Msg_RecursionAvailable := BC_RecurseOn c,
       Msg_Rcode := mesos_rcode rg name q, Msg_Question := [q], Msg_Answer := as,
       Msg_Ns := mesos_authority c rg q (mesos_answers c rg name q \<noteq> []), Msg_Extra := es, Msg_Compress := True\<rparr> \<and>
     mset as = mset (mesos_answers c rg name q) \<and> mesos_extra c rg name q es)"

lemma new_reply_simp:
  "Msg_Question r = q # qs \<Longrightarrow> new_reply c r = new_Msg\<lparr>Msg_Id := Msg_Id r, Msg_Response := True, Msg_Authoritative := True,
     Msg_RecursionDesired := Msg_RecursionDesired r, Msg_RecursionAvailable := BC_RecurseOn c, Msg_Question := [q]\<rparr>"
  by (simp add: new_reply_def SetReply_def new_Msg_def OpcodeQuery_def RcodeSuccess_def)

lemma mesos_answers_records:
  "mesos_answers c rg name q \<noteq> [] \<Longrightarrow> mesos_rcode rg name q = RcodeSuccess"
  by (auto simp: mesos_answers_def mesos_rcode_def split: if_splits)

lemma mesos_rcode_empty:
  "Question_Qtype q \<notin> {TypeSOA, TypeNS, TypeSRV} \<Longrightarrow>
   (if Question_Qtype q = TypeAAAA \<or> length (rrs_look (RG_SRVs rg) name) + length (rrs_look (RG_As rg) name) > 0
    then RcodeSuccess else RcodeNameError) = mesos_rcode rg name q"
  by (auto simp: mesos_rcode_def)

lemma mesos_authority_empty:
  "mesos_authority c rg q False = mesos_authority c rg q True @
     (if Question_Qtype q \<in> {TypeSOA, TypeNS, TypeSRV} then [] else [formatSOA c (RG_Config rg) (Question_Name q)])"
  by (simp add: mesos_authority_def Let_def)

text \<open>The additional section never holds an OPT record: the size of a UDP reply is always 512.\<close>

lemma mesos_extra_types: "mesos_extra c rg name q es \<Longrightarrow> e \<in> set es \<Longrightarrow> Hdr_Rrtype (RR_Hdr e) = TypeA"
  using formatA_hdr by (fastforce simp: mesos_extra_def extra_ok_def split: if_splits)

definition size_limit :: "string \<Rightarrow> int" where
  "size_limit network = (if isUDP network then MinMsgSize else MaxMsgSize)"

lemma reply_limit:
  assumes "\<forall>e\<in>set (Msg_Extra m). Hdr_Rrtype (RR_Hdr e) \<noteq> TypeOPT"
  shows "reply mlen network m = Some (truncate_to mlen (size_limit network) (m\<lparr>Msg_Compress := True\<rparr>))"
proof -
  have "filter (\<lambda>r. Hdr_Rrtype (RR_Hdr r) = TypeOPT) (Msg_Extra m) = []"
    using assms by (simp add: filter_empty_conv)
  then show ?thesis by (simp add: reply_def truncate_msg_def max_size_def IsEdns0_def size_limit_def)
qed

text \<open>The counters one request adds to.\<close>

definition mesos_counted :: "bool \<Rightarrow> bool \<Rightarrow> LogOut \<Rightarrow> LogOut" where
  "mesos_counted success failed lg =
     lg\<lparr>MesosRequests := MesosRequests lg + 1, MesosSuccess := MesosSuccess lg + (if success then 1 else 0),
       MesosNXDomain := MesosNXDomain lg + (if success then 0 else 1),
       MesosFailed := MesosFailed lg + (if failed then 1 else 0)\<rparr>"

lemma HandleMesos_spec:
  fixes res :: "('g, 'e) Resolver"
  assumes "intn_ok intn" "orders_ok ords" "Msg_Question r = q # qs"
  defines "name \<equiv> ToLower (cleanWild (Question_Name q))" and "c \<equiv> Res_config res" and "rg \<equiv> Res_rg res"
  shows "\<exists>m failed g. mesos_message c rg name q r m \<and>
    HandleMesos intn mlen ords res network r lg =
      (Some (truncate_to mlen (size_limit network) m),
       mesos_counted (mesos_answers c rg name q \<noteq> [] \<or> Question_Qtype q \<in> {TypeSOA, TypeNS, TypeSRV}) failed lg, g)"
proof -
  let ?m = "new_reply c r" and ?full = "mesos_answers c rg name q \<noteq> []"
  let ?ok = "?full \<or> Question_Qtype q \<in> {TypeSOA, TypeNS, TypeSRV}"
  obtain m1 errs where aq: "answer_query c (RG_Config rg) ords rg name q ?m = (m1, errs)"
    by (cases "answer_query c (RG_Config rg) ords rg name q ?m")
  from answer_query_spec [OF assms(2), of c rg name q ?m] obtain as es where
    m1: "m1 = ?m\<lparr>Msg_Answer := as, Msg_Extra := es, Msg_Ns := mesos_authority c rg q True\<rparr>"
    and as: "mset as = mset (mesos_answers c rg name q)" and es: "mesos_extra c rg name q es"
    unfolding aq fst_conv by (auto simp: new_reply_simp [OF assms(3)] new_Msg_def)
  define log1 where "log1 = MesosRequests_update Inc lg"
  define rest where "rest = (if length (Msg_Answer m1) = 0
      then let (m2, log2) = handleEmpty c (RG_Config rg) rg name q (m1, log1) in (m2, log2, Res_rng res)
      else let (answers, g) = shuffleAnswers intn (Res_rng res) (Msg_Answer m1)
           in (m1\<lparr>Msg_Answer := answers\<rparr>, MesosSuccess_update Inc log1, g))"
  have empty: "as = [] \<longleftrightarrow> mesos_answers c rg name q = []" using as by (metis mset_zero_iff)
  obtain m2 log2 g where rest: "rest = (m2, log2, g)" by (cases rest)
  have rest': "mesos_message c rg name q r (m2\<lparr>Msg_Compress := True\<rparr>) \<and> Msg_Extra m2 = es \<and>
      log2 = (if ?ok then MesosSuccess_update Inc log1 else MesosNXDomain_update Inc log1)"
  proof (cases "as = []")
    case True
    then have m2: "handleEmpty c (RG_Config rg) rg name q (m1, log1) = (m2, log2)"
      using rest unfolding rest_def m1 by (simp split: prod.splits)
    show ?thesis
    proof (cases "Question_Qtype q \<in> {TypeSOA, TypeNS, TypeSRV}")
      case qt: True
      then have m2': "m2 = m1" "log2 = MesosSuccess_update Inc log1" using m2 by (auto simp: handleEmpty_def)
      have "mesos_rcode rg name q = 0" using qt by (auto simp: mesos_rcode_def RcodeSuccess_def)
      then have "mesos_message c rg name q r (m2\<lparr>Msg_Compress := True\<rparr>)"
        unfolding mesos_message_def m2' m1 new_reply_simp [OF assms(3)] using qt es as True empty
        by (intro exI [of _ "[]"] exI [of _ es]) (simp add: new_Msg_def mesos_authority_empty)
      then show ?thesis using qt m2' m1 by simp
    next
      case qt: False
      have m2': "m2 = m1\<lparr>Msg_Rcode := mesos_rcode rg name q, Msg_Ns := mesos_authority c rg q False\<rparr>"
        "log2 = MesosNXDomain_update Inc log1"
        using m2 qt mesos_rcode_empty [OF qt, of rg name]
        by (auto simp: handleEmpty_def Let_def m1 mesos_authority_empty split: if_splits)
      have "mesos_message c rg name q r (m2\<lparr>Msg_Compress := True\<rparr>)"
        unfolding mesos_message_def m2' m1 new_reply_simp [OF assms(3)] using es as True empty
        by (intro exI [of _ "[]"] exI [of _ es]) (simp add: new_Msg_def)
      then show ?thesis using qt m2' m1 True empty by simp
    qed
  next
    case False
    obtain answers g' where sh: "shuffleAnswers intn (Res_rng res) as = (answers, g')"
      by (cases "shuffleAnswers intn (Res_rng res) as")
    then have m2: "m2 = m1\<lparr>Msg_Answer := answers\<rparr>" "log2 = MesosSuccess_update Inc log1"
      using rest False unfolding rest_def m1 by simp_all
    have "mset answers = mset as" using shuffleAnswers_mset [OF assms(1), of "Res_rng res" as] sh by simp
    moreover have full: "?full" using False empty by simp
    moreover have "mesos_rcode rg name q = 0" using mesos_answers_records [OF full] by (simp add: RcodeSuccess_def)
    ultimately have "mesos_message c rg name q r (m2\<lparr>Msg_Compress := True\<rparr>)"
      unfolding mesos_message_def m2 m1 new_reply_simp [OF assms(3)] using es as
      by (intro exI [of _ answers] exI [of _ es]) (simp add: new_Msg_def)
    then show ?thesis using m2 m1 full by simp
  qed
  have "HandleMesos intn mlen ords res network r lg =
      (reply mlen network m2, if errs \<noteq> [] then MesosFailed_update Inc log2 else log2, g)"
    using rest unfolding HandleMesos_def rest_def log1_def [symmetric] c_def [symmetric] rg_def [symmetric]
    by (simp add: Let_def slice_at_def assms(3) name_def [symmetric] aq)
  moreover have "reply mlen network m2 = Some (truncate_to mlen (size_limit network) (m2\<lparr>Msg_Compress := True\<rparr>))"
    using mesos_extra_types [OF es] rest' by (intro reply_limit) (auto simp: TypeA_def TypeOPT_def)
  moreover have "(if errs \<noteq> [] then MesosFailed_update Inc log2 else log2) = mesos_counted ?ok (errs \<noteq> []) lg"
    using rest' by (simp add: mesos_counted_def log1_def Inc_def)
  ultimately show ?thesis using rest'
    by (intro exI [of _ "m2\<lparr>Msg_Compress := True\<rparr>"] exI [of _ "errs \<noteq> []"] exI [of _ g]) simp
qed


section \<open>Forwarding\<close>

text \<open>The counters a number of forwarded exchanges add to.\<close>

definition forwarded :: "LogOut \<Rightarrow> LogOut \<Rightarrow> 64 word \<Rightarrow> 64 word \<Rightarrow> bool" where
  "forwarded lg lg' s f \<longleftrightarrow> lg' = lg\<lparr>NonMesosForwarded := NonMesosForwarded lg + s + f,
     NonMesosSuccess := NonMesosSuccess lg + s, NonMesosFailed := NonMesosFailed lg + f\<rparr>"

text \<open>One exchange counts as forwarded and as a success or a failure, and changes no other counter.\<close>

lemma exchangers_counts:
  assumes "exchangers client timeout protos proto = Some ex" "ex m a (lg, e) = ((r, rtt, err), (lg', e'))"
  shows "forwarded lg lg' (if err = None then 1 else 0) (if err = None then 0 else 1)"
  using assms
  by (auto simp: exchangers_def logged_and_counted client_exchanger_def on_log_def Inc_def forwarded_def
      split: if_splits prod.splits option.splits)

lemma forwarded_trans: "forwarded a b s f \<Longrightarrow> forwarded b c s' f' \<Longrightarrow> forwarded a c (s + s') (f + f')"
  by (simp add: forwarded_def algebra_simps)

lemma all_fail_counts:
  assumes "all_fail ex m xs w w'" "exchangers client timeout protos proto = Some ex"
  shows "forwarded (fst w) (fst w') 0 (of_nat (length xs))"
  using assms
proof (induction rule: all_fail.induct)
  case (none w)
  show ?case by (simp add: forwarded_def)
next
  case (fails a w r t e w1 xs w')
  obtain lg env lg1 env1 where w: "w = (lg, env)" "w1 = (lg1, env1)" by (cases w; cases w1)
  then have "forwarded (fst w) (fst w1) 0 1"
    using exchangers_counts [OF fails.prems] fails.hyps(1) by force
  from forwarded_trans [OF this fails.IH [OF fails.prems]] show ?case by simp
qed

section \<open>Properties\<close>

text \<open>C31: \<open>truncate\<close> sets the TC bit exactly when the message is larger than the channel permits
  (64 KiB less one over TCP, the size of the EDNS0 record or 512 over UDP); then it drops the
  additional section and keeps a prefix of the answers, and nothing else changes. Where the size
  of a message grows with its answers, every shorter prefix fits and no prefix longer by one
  answer does: at most one answer too many is kept.\<close>

theorem truncate_correct:
  assumes "max_size m udp = Some mx"
    and "\<forall>i j. i \<le> j \<longrightarrow>
      mlen (m\<lparr>Msg_Truncated := True, Msg_Extra := [], Msg_Answer := take i (Msg_Answer m)\<rparr>)
        \<le> mlen (m\<lparr>Msg_Truncated := True, Msg_Extra := [], Msg_Answer := take j (Msg_Answer m)\<rparr>)"
    and cut_def: "\<And>i. cut_at i = m\<lparr>Msg_Truncated := True, Msg_Extra := [], Msg_Answer := take i (Msg_Answer m)\<rparr>"
  shows "if mlen m \<le> mx then truncate_msg mlen m udp = Some (m\<lparr>Msg_Truncated := False\<rparr>)
    else \<exists>k\<le>length (Msg_Answer m). truncate_msg mlen m udp = Some (cut_at k)
      \<and> (\<forall>i<k. mlen (cut_at i) < mx) \<and> (k < length (Msg_Answer m) \<longrightarrow> mx \<le> mlen (cut_at (k + 1)))"
proof (cases "mlen m \<le> mx")
  case True
  then show ?thesis using assms(1) truncate_to_shape [of mlen mx m] by (simp add: truncate_msg_def truncated_to_def)
next
  case False
  from truncate_to_search [of mlen m mx] assms(2) False show ?thesis
    unfolding cut_def using assms(1) by (simp add: truncate_msg_def)
qed

definition demo_rr :: RR where
  "demo_rr = NS_RR (rr_header ''a.'' TypeNS builtin_NewConfig) ''b.''"

text \<open>
  With three answers of 100 octets and room for 150, two answers are kept and the reply is still
  too large for the channel.
\<close>

lemma truncate_keeps_one_too_many:
  assumes "mlen = (\<lambda>m. 100 * int (length (Msg_Answer m)))"
  shows "Msg_Answer (truncate_to mlen 150 (new_Msg\<lparr>Msg_Answer := [demo_rr, demo_rr, demo_rr]\<rparr>)) = [demo_rr, demo_rr]"
  unfolding assms by code_simp

theorem truncate_correct_witness:
  "\<exists>k\<in>{2, 3}. truncate_msg (\<lambda>m. 100 * int (length (Msg_Answer m)) + 300) (new_Msg\<lparr>Msg_Answer := replicate 3 demo_rr\<rparr>) True
     = Some (new_Msg\<lparr>Msg_Truncated := True, Msg_Answer := replicate k demo_rr\<rparr>)"
proof -
  let ?m = "new_Msg\<lparr>Msg_Answer := replicate 3 demo_rr\<rparr>" and ?len = "\<lambda>m. 100 * int (length (Msg_Answer m)) + 300"
  let ?cut = "\<lambda>i. ?m\<lparr>Msg_Truncated := True, Msg_Extra := [], Msg_Answer := take i (Msg_Answer ?m)\<rparr>"
  have size: "max_size ?m True = Some MinMsgSize" by (simp add: max_size_def IsEdns0_def new_Msg_def)
  have mono: "\<forall>i j. i \<le> j \<longrightarrow> ?len (?cut i) \<le> ?len (?cut j)" by (simp add: min_def)
  have big: "\<not> ?len ?m \<le> MinMsgSize" by (simp add: MinMsgSize_def)
  from truncate_correct [OF size mono refl, unfolded if_not_P [OF big]] obtain k where k: "k \<le> length (Msg_Answer ?m)"
      "truncate_msg ?len ?m True = Some (?cut k)" "k < length (Msg_Answer ?m) \<longrightarrow> MinMsgSize \<le> ?len (?cut (k + 1))"
    by blast
  have k2: "k \<in> {2, 3}" using k(1,3) by (auto simp: MinMsgSize_def)
  have "?cut k = new_Msg\<lparr>Msg_Truncated := True, Msg_Answer := replicate k demo_rr\<rparr>"
    using k(1) by (simp add: new_Msg_def min_def)
  then show ?thesis using k2 k(2) by (intro bexI [of _ k]) simp_all
qed

text \<open>C2: the handler of the Mesos domain answers every query with exactly the records the current
  generator holds for the name (without wildcards, in lower case): the SRV, the address or both
  kinds of records of the queried type, in a random order, each once; as an authoritative reply
  with the query's id and question; with the SOA and NS records of the domain where they are
  asked for and the SOA record beside an empty answer; with NXDOMAIN exactly when the name has
  no record at all and the type is not one of SOA, NS, SRV and AAAA; and with one address record
  per resolvable SRV host. A reply larger than the limit (512 octets over UDP, 65535 over TCP) is
  marked as truncated, loses its additional records and keeps a prefix of its answers; where
  messages grow with their answers this prefix is below the limit without its last answer and
  would reach the limit with one more, so that the reply exceeds the limit by at most the last
  answer kept. The request is counted as a success or as an empty answer.\<close>

theorem HandleMesos_answers:
  assumes "intn_ok intn" "orders_ok ords" "Msg_Question r = q # qs"
    and name_def: "name = ToLower (cleanWild (Question_Name q))"
  shows "\<exists>m t failed g. mesos_message (Res_config res) (Res_rg res) name q r m \<and>
    truncated_to mlen (size_limit network) m t \<and>
    HandleMesos intn mlen ords res network r lg = (Some t,
      mesos_counted (mesos_answers (Res_config res) (Res_rg res) name q \<noteq> [] \<or>
        Question_Qtype q \<in> {TypeSOA, TypeNS, TypeSRV}) failed lg, g)"
  using HandleMesos_spec [OF assms(1-3), of res mlen network lg] truncate_to_shape unfolding name_def by blast

definition demo_resolver :: "(nat, nat) Resolver" where
  "demo_resolver = \<lparr>Res_version = [], Res_config = builtin_NewConfig,
     Res_rg = demo_gen\<lparr>RG_As := Some [(''a.mesos.'', [''1.2.3.4''])]\<rparr>, Res_rng = 0, Res_fwd = NewForwarder [] (\<lambda>_. None)\<rparr>"

definition demo_query :: Msg where
  "demo_query = new_Msg\<lparr>Msg_Id := 7,
     Msg_Question := [\<lparr>Question_Name = ''A.Mesos.'', Question_Qtype = TypeA, Question_Qclass = ClassINET\<rparr>]\<rparr>"

definition demo_orders :: orders where
  "demo_orders = \<lparr>ord_srv = rev, ord_first = (\<lambda>_. id), ord_a = rev\<rparr>"

lemma demo_orders_ok: "orders_ok demo_orders"
  by (simp add: orders_ok_def order_ok_def demo_orders_def)

lemma demo_address: "ParseIP ''1.2.3.4'' = Some (v4InV6Prefix @ [1, 2, 3, 4])"
  using ParseIP_dotted [of 1 2 3 4] by (simp add: dotted_def digits.simps char_of_digit)

theorem HandleMesos_answers_witness:
  "\<exists>t failed g. HandleMesos (\<lambda>g n. (0, g)) (\<lambda>_. 60) demo_orders demo_resolver ''udp'' demo_query CurLog =
      (Some t, mesos_counted True failed CurLog, g) \<and>
     Msg_Id t = 7 \<and> Msg_Rcode t = 0 \<and> Msg_Answer t = [A_RR (rr_header ''a.mesos.'' TypeA builtin_NewConfig) (Some [1, 2, 3, 4])]"
proof -
  let ?q = "\<lparr>Question_Name = ''A.Mesos.'', Question_Qtype = TypeA, Question_Qclass = ClassINET\<rparr>"
  have q: "Msg_Question demo_query = ?q # []" by (simp add: demo_query_def)
  have name: "ToLower (cleanWild ''A.Mesos.'') = ''a.mesos.''" by code_simp
  have intn: "intn_ok (\<lambda>g n. (0, g))" by (simp add: intn_ok_def)
  have To4: "To4 (v4InV6Prefix @ [1, 2, 3, 4]) = Some [1, 2, 3, 4]" by code_simp
  have ans: "mesos_answers (Res_config demo_resolver) (Res_rg demo_resolver) ''a.mesos.'' ?q
      = [A_RR (rr_header ''a.mesos.'' TypeA builtin_NewConfig) (Some [1, 2, 3, 4])]"
    by (simp add: mesos_answers_def demo_resolver_def rrs_look_def rrs_get_def qtypes formatA_def demo_address To4 [unfolded One_nat_def])
  have rc: "mesos_rcode (Res_rg demo_resolver) ''a.mesos.'' ?q = 0"
    by (simp add: mesos_rcode_def demo_resolver_def rrs_look_def rrs_get_def RcodeSuccess_def)
  from HandleMesos_answers [OF intn demo_orders_ok q refl, of demo_resolver "\<lambda>_. 60" "''udp''" CurLog]
  obtain m t failed g where m: "mesos_message (Res_config demo_resolver) (Res_rg demo_resolver) ''a.mesos.'' ?q demo_query m"
    and t: "truncated_to (\<lambda>_. 60) (size_limit ''udp'') m t"
    and h: "HandleMesos (\<lambda>g n. (0, g)) (\<lambda>_. 60) demo_orders demo_resolver ''udp'' demo_query CurLog =
      (Some t, mesos_counted True failed CurLog, g)"
    unfolding Question.simps name ans by auto
  have "t = m\<lparr>Msg_Truncated := False\<rparr>"
    using t by (simp add: truncated_to_def size_limit_def MinMsgSize_def MaxMsgSize_def split: if_splits)
  moreover obtain as where "mset as = mset [A_RR (rr_header ''a.mesos.'' TypeA builtin_NewConfig) (Some [1, 2, 3, 4])]"
    "Msg_Id m = 7" "Msg_Rcode m = 0" "Msg_Answer m = as"
    using m unfolding mesos_message_def ans rc by (auto simp: demo_query_def)
  ultimately show ?thesis using h by auto
qed


text \<open>C32: every DNS query of the Mesos domain is answered: the reply carries the query's id and is
  marked as a response, also when the handler panics because the query has no question; then it
  is a server failure.\<close>

theorem mesos_query_answered:
  assumes "intn_ok intn" "orders_ok ords"
  shows "case panicRecover (\<lambda>r. HandleMesos intn mlen ords res network r lg) r of (t, _) \<Rightarrow>
    Msg_Id t = Msg_Id r \<and> Msg_Response t \<and> (Msg_Question r = [] \<longrightarrow> Msg_Rcode t = RcodeServerFailure)"
proof (cases "Msg_Question r")
  case Nil
  then show ?thesis by (simp add: panicRecover_def HandleMesos_def slice_at_def RcodeServerFailure_def)
next
  case (Cons q qs)
  from HandleMesos_spec [OF assms Cons, of res mlen network lg] obtain m failed g success where
    m: "mesos_message (Res_config res) (Res_rg res) (ToLower (cleanWild (Question_Name q))) q r m"
      "HandleMesos intn mlen ords res network r lg = (Some (truncate_to mlen (size_limit network) m), mesos_counted success failed lg, g)"
    by blast
  from m(1) have "Msg_Id m = Msg_Id r" "Msg_Response m" by (auto simp: mesos_message_def)
  then show ?thesis using truncated_to_frame [OF truncate_to_shape [of mlen "size_limit network" m]] m(2) Cons
    by (simp add: panicRecover_def)
qed

theorem mesos_query_answered_witness:
  "Msg_Rcode (fst (panicRecover (\<lambda>r. HandleMesos (\<lambda>g n. (0, g)) (\<lambda>_. 60) demo_orders demo_resolver ''udp'' r CurLog)
     (demo_query\<lparr>Msg_Question := []\<rparr>))) = RcodeServerFailure"
proof -
  have "intn_ok (\<lambda>g n. (0, g))" by (simp add: intn_ok_def)
  from mesos_query_answered [OF this demo_orders_ok, of "demo_query\<lparr>Msg_Question := []\<rparr>" "\<lambda>_. 60" demo_resolver "''udp''" CurLog]
  show ?thesis by (simp add: case_prod_beta)
qed

end
