(* ===== verification/Rest.thy ===== *)
theory Rest
  imports Resolver_Props
begin

text \<open>
  The REST interface of \<open>resolvers/builtin/resolver.go\<close> with the data of
  \<open>models/models.go\<close>, the addresses and patterns the servers are started with, and the
  accounting of DNS and HTTP requests together. A handler returns the value it writes as JSON
  (the encoding is the library's) and the counters, or none when it panics.
\<close>

section \<open>Servers\<close>

datatype dns_handler = ByMesos | ByForwarder

text \<open>\<open>LaunchDNS\<close>: the patterns registered with the multiplexer and the servers started.\<close>

definition Serve :: "('g, 'e) Resolver \<Rightarrow> string \<Rightarrow> string \<times> string" where
  "Serve res proto = (JoinHostPort (BC_Listener (Res_config res)) (Itoa (BC_Port (Res_config res))), proto)"

definition LaunchDNS :: "('g, 'e) Resolver \<Rightarrow> (string \<times> dns_handler) list \<times> (string \<times> string) list" where
  "LaunchDNS res =
     ([(Config_Domain (RG_Config (Res_rg res)) @ ''.'', ByMesos), (''.'', ByForwarder)],
      [Serve res ''tcp'', Serve res ''udp''])"

datatype http_route = VersionR | ConfigR | HostR | PortsR | ServiceR | EnumerateR | AXFRR

definition configureHTTP :: "('g, 'e) Resolver \<Rightarrow> (string \<times> http_route) list" where
  "configureHTTP res =
     [(''/v1/version'', VersionR), (''/v1/config'', ConfigR), (''/v1/hosts/{host}'', HostR),
      (''/v1/hosts/{host}/ports'', PortsR), (''/v1/services/{service}'', ServiceR)] @
     (if BC_EnumerationOn (Res_config res) then [(''/v1/enumerate'', EnumerateR), (''/v1/axfr'', AXFRR)] else [])"

definition LaunchHTTP :: "('g, 'e) Resolver \<Rightarrow> (string \<times> http_route) list \<times> string" where
  "LaunchHTTP res =
     (configureHTTP res, JoinHostPort (BC_HTTPListener (Res_config res)) (Itoa (BC_HTTPPort (Res_config res))))"

section \<open>Handlers\<close>

record AXFRRecords =
  AXFR_As :: "(string \<times> string list) list"
  AXFR_SRVs :: "(string \<times> string list) list"

record AXFR =
  AXFR_TTL :: int
  AXFR_Serial :: "32 word"
  AXFR_RefreshSeconds :: int
  AXFR_Mname :: string
  AXFR_Rname :: string
  AXFR_Domain :: string
  AXFR_Records :: AXFRRecords

definition RestConfig :: "('g, 'e) Resolver \<Rightarrow> BuiltinConfig" where
  "RestConfig res = Res_config res"

definition RestEnumerate :: "('g, 'e) Resolver \<Rightarrow> EnumerationData" where
  "RestEnumerate res = RG_EnumData (Res_rg res)"

text \<open>A nil record map gives an empty set of records.\<close>

definition axfr_set :: "map_order \<Rightarrow> rrs option \<Rightarrow> (string \<times> string list) list" where
  "axfr_set ord r = (case r of None \<Rightarrow> [] | Some r \<Rightarrow> ToAXFRResourceRecordSet ord r)"

definition RestAXFR :: "map_order \<Rightarrow> ('g, 'e) Resolver \<Rightarrow> AXFR" where
  "RestAXFR ord res =
     (let rg = Res_rg res; rc = RG_Config rg
      in \<lparr>AXFR_TTL = BC_TTL (Res_config res), AXFR_Serial = Config_SOASerial rc,
          AXFR_RefreshSeconds = Config_RefreshSeconds rc, AXFR_Mname = Config_SOAMname rc,
          AXFR_Rname = Config_SOARname rc, AXFR_Domain = Config_Domain rc,
          AXFR_Records = \<lparr>AXFR_As = axfr_set ord (RG_As rg), AXFR_SRVs = axfr_set ord (RG_SRVs rg)\<rparr>\<rparr>)"

definition RestVersion :: "('g, 'e) Resolver \<Rightarrow> (string \<times> string) list" where
  "RestVersion res = [(''Service'', ''Mesos-DNS''), (''Version'', Res_version res),
     (''URL'', ''https://github.com/mesosphere/mesos-dns'')]"

definition RestPorts :: "int \<times> string" where
  "RestPorts = (501, ''To be implemented...'')"

definition stats :: "string \<Rightarrow> string \<Rightarrow> bool \<Rightarrow> LogOut \<Rightarrow> LogOut" where
  "stats domain zn success lg =
     (if HasSuffix domain zn then
        let lg1 = MesosRequests_update Inc lg
        in if success then MesosSuccess_update Inc lg1 else MesosNXDomain_update Inc lg1
      else NonMesosFailed_update Inc (NonMesosRequests_update Inc lg))"

text \<open>The name looked up for a path parameter; indexing the empty string panics.\<close>

definition rest_name :: "string \<Rightarrow> string option" where
  "rest_name host =
     (let dm = ToLower (cleanWild host)
      in if dm = [] then None
         else Some (if last dm \<noteq> CHR ''.'' then dm @ ''.'' else dm))"

record host_record =
  Host_Host :: string
  Host_IP :: string

definition RestHost ::
  "map_order \<Rightarrow> ('g, 'e) Resolver \<Rightarrow> string \<Rightarrow> LogOut \<Rightarrow> (host_record list \<times> LogOut) option" where
  "RestHost ord res host lg = do {
     dm \<leftarrow> rest_name host;
     let aRRs = rrs_look (RG_As (Res_rg res)) dm;
     let records = map (\<lambda>ip. \<lparr>Host_Host = dm, Host_IP = ip\<rparr>) (ord aRRs);
     let records = (if length records = 0 then [\<lparr>Host_Host = [], Host_IP = []\<rparr>] else records);
     Some (records, stats dm (Config_Domain (RG_Config (Res_rg res)) @ ''.'') (length aRRs > 0) lg) }"

record service_record =
  Service_Service :: string
  Service_Host :: string
  Service_IP :: string
  Service_Port :: string

definition service_of ::
  "(string \<Rightarrow> map_order) \<Rightarrow> RecordGenerator \<Rightarrow> string \<Rightarrow> string \<Rightarrow> service_record" where
  "service_of first rg service s =
     (let (host, port, _) = SplitHostPort s; (r, ok) = rrs_first (first s) (RG_As rg) host
      in \<lparr>Service_Service = service, Service_Host = host, Service_IP = (if ok then r else []), Service_Port = port\<rparr>)"

definition RestService ::
  "map_order \<Rightarrow> (string \<Rightarrow> map_order) \<Rightarrow> ('g, 'e) Resolver \<Rightarrow> string \<Rightarrow> LogOut \<Rightarrow> (service_record list \<times> LogOut) option" where
  "RestService ord first res service lg = do {
     dm \<leftarrow> rest_name service;
     let srvRRs = rrs_look (RG_SRVs (Res_rg res)) dm;
     let records = map (service_of first (Res_rg res) service) (ord srvRRs);
     let records = (if length records = 0
       then [\<lparr>Service_Service = [], Service_Host = [], Service_IP = [], Service_Port = []\<rparr>] else records);
     Some (records, stats dm (Config_Domain (RG_Config (Res_rg res)) @ ''.'') (length srvRRs > 0) lg) }"

end
