(* ===== verification/Serving.thy ===== *)
theory Serving
  imports Rest
begin

text \<open>
  The builtin resolver as a server: what a query outside the Mesos domain is answered with, the
  agreement of the REST interface with the DNS interface, and the counters over any sequence
  of requests and reloads.
\<close>

section \<open>Queries outside the Mesos domain\<close>

text \<open>
  What the forwarder relies on of \<open>dns.Client\<close>: an exchange without an error returns a
  message, and the errors are not the forwarder's own.
\<close>

definition client_ok :: "(string \<Rightarrow> int \<Rightarrow> 'e Exchanger) \<Rightarrow> bool" where
  "client_ok client \<longleftrightarrow> (\<forall>p t m a e. case client p t m a e of ((r, _, err), _) \<Rightarrow>
     (err = None \<longrightarrow> r \<noteq> None) \<and> (\<forall>addrs proto. err \<noteq> Some (ForwardError addrs proto)))"

lemma client_okD:
  assumes "client_ok client" "client p t m a e = ((r, rtt, err), e')"
  shows "err = None \<Longrightarrow> r \<noteq> None" "err = Some x \<Longrightarrow> rcode x = RcodeServerFailure"
proof -
  have "case client p t m a e of ((r, _, err), _) \<Rightarrow>
     (err = None \<longrightarrow> r \<noteq> None) \<and> (\<forall>addrs proto. err \<noteq> Some (ForwardError addrs proto))"
    by (rule assms(1) [unfolded client_ok_def, THEN spec, THEN spec, THEN spec, THEN spec, THEN spec])
  then have "err = None \<longrightarrow> r \<noteq> None" "\<forall>addrs proto. err \<noteq> Some (ForwardError addrs proto)" using assms(2) by simp_all
  then show "err = None \<Longrightarrow> r \<noteq> None" "err = Some x \<Longrightarrow> rcode x = RcodeServerFailure"
    by (auto simp: rcode_def split: go_error.splits)
qed

lemma exchangers_result:
  assumes "exchangers client timeout protos proto = Some ex" "ex m a (lg, e) = ((r, rtt, err), w')"
  shows "client proto timeout m a e = ((r, rtt, err), snd w')"
  using assms
  by (auto simp: exchangers_def logged_and_counted client_exchanger_def on_log_def split: if_splits prod.splits option.splits)

text \<open>The servers a resolver forwards to, and its timeout in seconds.\<close>

definition upstreams :: "BuiltinConfig \<Rightarrow> string list" where
  "upstreams c = (if BC_ExternalOn c then BC_ExternalDNS c else [])"

definition res_timeout :: "BuiltinConfig \<Rightarrow> int" where
  "res_timeout c = (if BC_Timeout c \<noteq> 0 then BC_Timeout c else 5)"

lemma builtin_New_fwd:
  "Res_fwd (fst (builtin_New client seed c rg version)) =
   NewForwarder (upstreams c) (exchangers client (res_timeout c) [''udp'', ''tcp''])"
  by (simp add: builtin_New_def Let_def upstreams_def res_timeout_def)

lemma exchangers_proto:
  "proto \<in> {''udp'', ''tcp''} \<Longrightarrow> \<exists>ex. exchangers client timeout [''udp'', ''tcp''] proto = Some ex"
  by (auto simp: exchangers_def)

text \<open>
  The last error of a list of failing servers is an error of the client, which the handler
  reports as a server failure.
\<close>

lemma forward_loop_error:
  assumes "client_ok client" "exchangers client timeout protos proto = Some ex"
    and "forward_loop ex m addrs res w = ((r, Some e), w')" "\<forall>e0. snd res = Some e0 \<longrightarrow> rcode e0 = RcodeServerFailure"
  shows "rcode e = RcodeServerFailure"
  using assms(3,4)
proof (induction addrs arbitrary: res w)
  case Nil
  then have "snd res = Some e" by simp
  with Nil.prems(2) show ?case by blast
next
  case (Cons a addrs)
  obtain lg env where w: "w = (lg, env)" by (cases w)
  obtain r1 t1 err1 w1 where x: "ex m (JoinHostPort a ''53'') w = ((r1, t1, err1), w1)"
    by (cases "ex m (JoinHostPort a ''53'') w") auto
  obtain e' where c: "client proto timeout m (JoinHostPort a ''53'') env = ((r1, t1, err1), e')"
    using exchangers_result [OF assms(2) x [unfolded w]] by blast
  show ?case
  proof (cases err1)
    case None
    then show ?thesis using Cons.prems(1) x by simp
  next
    case (Some e1)
    then have "forward_loop ex m addrs (r1, Some e1) w1 = ((r, Some e), w')" using Cons.prems(1) x by simp
    from Cons.IH [OF this] show ?thesis using client_okD(2) [OF assms(1) c Some] by simp
  qed
qed

section \<open>REST\<close>

lemma rest_name_last: "rest_name host = Some dm \<Longrightarrow> last dm = CHR ''.'' \<and> dm \<noteq> []"
  by (auto simp: rest_name_def Let_def split: if_splits)

lemma rest_name_fqdn:
  "ToLower (cleanWild host) \<noteq> [] \<Longrightarrow> rest_name host =
   Some (if HasSuffix (ToLower (cleanWild host)) ''.'' then ToLower (cleanWild host) else ToLower (cleanWild host) @ ''.'')"
proof -
  let ?dm = "ToLower (cleanWild host)"
  assume dm: "?dm \<noteq> []"
  have "(last ?dm = CHR ''.'') = HasSuffix ?dm ''.''"
    using dm by (metis HasSuffix_def append_butlast_last_id last_snoc suffix_def)
  then show ?thesis using dm by (simp add: rest_name_def Let_def)
qed

lemma service_of_ip:
  assumes "\<And>s. order_ok (first s)"
  shows "if rrs_look (RG_As rg) (fst (SplitHostPort s)) = [] then Service_IP (service_of first rg service s) = []
    else Service_IP (service_of first rg service s) \<in> set (rrs_look (RG_As rg) (fst (SplitHostPort s)))"
proof (cases "rrs_look (RG_As rg) (fst (SplitHostPort s)) = []")
  case True
  moreover have "first s [] = []" using order_ok_set [OF assms [of s], of "[]"] by simp
  ultimately have "\<not> snd (rrs_first (first s) (RG_As rg) (fst (SplitHostPort s)))"
    by (auto simp: rrs_first_def rrs_First_def rrs_look_def split: option.splits)
  then show ?thesis using True by (simp add: service_of_def Let_def case_prod_beta)
next
  case False
  then show ?thesis using rrs_first_look [OF assms [of s] False] by (auto simp: service_of_def Let_def case_prod_beta)
qed

lemma stats_counts:
  "stats dm zn success lg = (if HasSuffix dm zn then mesos_counted success False lg
     else lg\<lparr>NonMesosRequests := NonMesosRequests lg + 1, NonMesosFailed := NonMesosFailed lg + 1\<rparr>)"
  by (simp add: stats_def mesos_counted_def Let_def Inc_def)

section \<open>Requests\<close>

text \<open>
  One event of the server: a DNS query (with at least one question, which the multiplexer of the
  DNS library makes sure of) inside or outside the domain, a REST lookup, or a reload. The last
  component counts the REST lookups of names outside the domain.
\<close>

inductive serve :: "('g, 'e) Resolver \<times> 'e world \<times> nat \<Rightarrow> ('g, 'e) Resolver \<times> 'e world \<times> nat \<Rightarrow> bool" where
  mesos: "Msg_Question r \<noteq> [] \<Longrightarrow> intn_ok intn \<Longrightarrow> orders_ok ords \<Longrightarrow>
    HandleMesos intn mlen ords res network r lg = (t, lg', g) \<Longrightarrow>
    serve (res, (lg, e), n) (res\<lparr>Res_rng := g\<rparr>, (lg', e), n)"
| other: "HandleNonMesos mlen res network r w = (t, w') \<Longrightarrow> serve (res, w, n) (res, w', n)"
| host: "RestHost ord res h lg = Some (recs, lg') \<Longrightarrow>
    rest_name h = Some dm \<Longrightarrow> outside = (\<not> HasSuffix dm (Config_Domain (RG_Config (Res_rg res)) @ ''.'')) \<Longrightarrow>
    serve (res, (lg, e), n) (res, (lg', e), if outside then Suc n else n)"
| service: "RestService ord first res h lg = Some (srecs, lg') \<Longrightarrow>
    rest_name h = Some dm \<Longrightarrow> outside = (\<not> HasSuffix dm (Config_Domain (RG_Config (Res_rg res)) @ ''.'')) \<Longrightarrow>
    serve (res, (lg, e), n) (res, (lg', e), if outside then Suc n else n)"
| reload: "serve (res, w, n) (Reload rg res, w, n)"

text \<open>The books: every request is accounted for.\<close>

definition balanced :: "LogOut \<Rightarrow> nat \<Rightarrow> bool" where
  "balanced lg n \<longleftrightarrow> MesosRequests lg = MesosSuccess lg + MesosNXDomain lg \<and>
     NonMesosForwarded lg + of_nat n = NonMesosSuccess lg + NonMesosFailed lg"

lemma balanced_mesos: "balanced lg n \<Longrightarrow> balanced (mesos_counted s f lg) n"
  by (simp add: balanced_def mesos_counted_def)

lemma balanced_forwarded: "balanced lg n \<Longrightarrow> forwarded lg lg' s f \<Longrightarrow> balanced lg' n"
  by (simp add: balanced_def forwarded_def algebra_simps)

lemma balanced_stats:
  "balanced lg n \<Longrightarrow> balanced (stats dm zn success lg) (if \<not> HasSuffix dm zn then Suc n else n)"
  by (simp add: stats_counts balanced_mesos) (simp add: balanced_def algebra_simps)

text \<open>Forwarding adds to the counters of exchanges only.\<close>

lemma forward_counts:
  assumes "NewForwarder addrs (exchangers client timeout protos) m proto w = (res, w')"
  shows "\<exists>s f. forwarded (fst w) (fst w') s f"
proof (cases "exchangers client timeout protos proto = None \<or> addrs = []")
  case True
  then have "w' = w" using assms by (auto simp: NewForwarder_def split: option.splits)
  then show ?thesis by (intro exI [of _ 0]) (simp add: forwarded_def)
next
  case False
  then obtain ex where ex: "exchangers client timeout protos proto = Some ex" by auto
  then have run: "forward_loop ex m addrs (None, None) w = (res, w')" using assms False by (simp add: NewForwarder_def)
  have "\<exists>s f. forwarded (fst w) (fst w') s f" if "forward_loop ex m addrs acc w = (res, w')" for acc w
    using that
  proof (induction addrs arbitrary: acc w)
    case Nil
    then show ?case by (intro exI [of _ 0]) (simp add: forwarded_def)
  next
    case (Cons a addrs)
    obtain lg env where w: "w = (lg, env)" by (cases w)
    obtain r t err lg1 env1 where x: "ex m (JoinHostPort a ''53'') (lg, env) = ((r, t, err), (lg1, env1))"
      by (cases "ex m (JoinHostPort a ''53'') (lg, env)") auto
    note step = exchangers_counts [OF ex x]
    show ?case
    proof (cases err)
      case None
      then have "w' = (lg1, env1)" using Cons.prems w x by simp
      then show ?thesis using step unfolding w by (intro exI) (simp only: fst_conv)
    next
      case (Some e)
      then have "forward_loop ex m addrs (r, Some e) (lg1, env1) = (res, w')" using Cons.prems w x by simp
      from Cons.IH [OF this] obtain s f where "forwarded lg1 (fst w') s f" by auto
      from forwarded_trans [OF step this] show ?thesis unfolding w by (intro exI) (simp only: fst_conv)
    qed
  qed
  from this [OF run] show ?thesis .
qed


lemma HandleNonMesos_balanced:
  assumes "HandleNonMesos mlen res network r (lg, e) = (t, (lg', e'))" "balanced lg n"
    and "Res_fwd res = NewForwarder addrs (exchangers client timeout protos)"
  shows "balanced lg' n"
proof -
  obtain m err lg2 e2 where f: "Res_fwd res r network (on_log (NonMesosRequests_update Inc) (lg, e)) = ((m, err), (lg2, e2))"
    by (cases "Res_fwd res r network (on_log (NonMesosRequests_update Inc) (lg, e))") auto
  obtain s f where "forwarded (NonMesosRequests_update Inc lg) lg2 s f"
    using forward_counts [OF f [unfolded assms(3)]] by (auto simp: on_log_def)
  moreover have "balanced (NonMesosRequests_update Inc lg) n" using assms(2) by (simp add: balanced_def)
  ultimately have "balanced lg2 n" using balanced_forwarded by blast
  moreover have "lg' = lg2 \<or> lg' = NonMesosNXDomain_update Inc lg2"
    using assms(1) f by (auto simp: HandleNonMesos_def on_log_def Let_def split: option.splits if_splits)
  ultimately show ?thesis by (auto simp: balanced_def)
qed

lemma HandleMesos_balanced:
  assumes "HandleMesos intn mlen ords res network r lg = (t, lg', g)" "balanced lg n"
    and "Msg_Question r \<noteq> []" "intn_ok intn" "orders_ok ords"
  shows "balanced lg' n"
proof -
  obtain q qs where q: "Msg_Question r = q # qs" using assms(3) by (cases "Msg_Question r") auto
  from HandleMesos_spec [OF assms(4,5) q, of res mlen network lg] assms(1)
  obtain s f where "lg' = mesos_counted s f lg" by auto
  then show ?thesis using assms(2) balanced_mesos by simp
qed

lemma RestHost_stats:
  "RestHost ord res h lg = Some (recs, lg') \<Longrightarrow> rest_name h = Some dm \<Longrightarrow>
   \<exists>success. lg' = stats dm (Config_Domain (RG_Config (Res_rg res)) @ ''.'') success lg"
  by (auto simp: RestHost_def Let_def)

lemma RestService_stats:
  "RestService ord first res h lg = Some (recs, lg') \<Longrightarrow> rest_name h = Some dm \<Longrightarrow>
   \<exists>success. lg' = stats dm (Config_Domain (RG_Config (Res_rg res)) @ ''.'') success lg"
  by (auto simp: RestService_def Let_def)

lemma serve_step_inv:
  assumes "serve s s'"
    and "Res_fwd (fst s) = NewForwarder addrs (exchangers client timeout protos) \<and> balanced (fst (fst (snd s))) (snd (snd s))"
  shows "Res_fwd (fst s') = NewForwarder addrs (exchangers client timeout protos) \<and> balanced (fst (fst (snd s'))) (snd (snd s'))"
  using assms
proof (induction rule: serve.induct)
  case (mesos r intn ords mlen res network lg t lg' g e n)
  then show ?case using HandleMesos_balanced by auto
next
  case (other mlen res network r w t w' n)
  obtain lg e lg' e' where w: "w = (lg, e)" "w' = (lg', e')" by (cases w; cases w')
  show ?case using HandleNonMesos_balanced [OF other(1) [unfolded w]] other(2) w by auto
next
  case (host ord res h lg recs lg' dm outside e n)
  let ?zn = "Config_Domain (RG_Config (Res_rg res)) @ ''.''"
  obtain success where "lg' = stats dm ?zn success lg" using RestHost_stats [OF host(1,2)] by blast
  then show ?case using host(3,4) balanced_stats [of lg n dm ?zn success] by (simp only: fst_conv snd_conv)
next
  case (service ord first res h lg srecs lg' dm outside e n)
  let ?zn = "Config_Domain (RG_Config (Res_rg res)) @ ''.''"
  obtain success where "lg' = stats dm ?zn success lg" using RestService_stats [OF service(1,2)] by blast
  then show ?case using service(3,4) balanced_stats [of lg n dm ?zn success] by (simp only: fst_conv snd_conv)
next
  case (reload res w n rg)
  then show ?case by (simp add: Reload_def)
qed


section \<open>Properties\<close>

text \<open>C5: a query outside the Mesos domain is refused, without contacting a server, when no external
  server is configured or forwarding is off; otherwise it is answered with the message of the
  first server that answers, or with SERVFAIL when every server fails. Every server tried is
  counted once, as forwarded and as a success or a failure.\<close>

theorem HandleNonMesos_outcome:
  assumes "client_ok client" and "network \<in> {''udp'', ''tcp''}"
    and res_def: "res = fst (builtin_New client seed c rg version)"
    and "HandleNonMesos mlen res network r (lg, e) = (t, (lg', e'))"
  shows "if upstreams c = []
    then t = reply mlen network (SetRcode r RcodeRefused new_Msg) \<and> e' = e \<and> lg' = NonMesosRequests_update Inc lg
    else \<exists>lg1 lg2 e1. (t = reply mlen network (SetRcode r RcodeServerFailure new_Msg) \<and>
           forwarded (NonMesosRequests_update Inc lg) lg' 0 (of_nat (length (upstreams c))))
         \<or> (\<exists>xs a ys m rtt. upstreams c = xs @ a # ys \<and>
              client network (res_timeout c) r (JoinHostPort a ''53'') e1 = ((Some m, rtt, None), e') \<and>
              t = reply mlen network m \<and>
              forwarded (NonMesosRequests_update Inc lg) lg1 0 (of_nat (length xs)) \<and> forwarded lg1 lg2 1 0 \<and>
              lg' = (if Msg_Answer m = [] then NonMesosNXDomain_update Inc lg2 else lg2))"
proof -
  let ?exs = "exchangers client (res_timeout c) [''udp'', ''tcp'']" and ?lg = "NonMesosRequests_update Inc lg"
  obtain ex where ex: "?exs network = Some ex" using exchangers_proto [OF assms(2)] by blast
  obtain m err lg2 e2 where f: "NewForwarder (upstreams c) ?exs r network (?lg, e) = ((m, err), (lg2, e2))"
    by (cases "NewForwarder (upstreams c) ?exs r network (?lg, e)") auto
  then have fwd: "Res_fwd res r network (on_log (NonMesosRequests_update Inc) (lg, e)) = ((m, err), (lg2, e2))"
    by (simp add: res_def builtin_New_fwd on_log_def)
  note run = assms(4) [unfolded HandleNonMesos_def Let_def fwd]
  note order = forwarder_tries_in_order [where addrs = "upstreams c" and exs = ?exs and m = r and proto = network and w = "(?lg, e)", unfolded f]
  consider "upstreams c = []" | "upstreams c \<noteq> []" "err = None" | e0 where "upstreams c \<noteq> []" "err = Some e0" by blast
  then show ?thesis
  proof cases
    case 1
    then show ?thesis using f ex run by (auto simp: NewForwarder_def rcode_def)
  next
    case 2
    from order 2 ex obtain xs a ys w1 rtt where o: "upstreams c = xs @ a # ys" "all_fail ex r xs (?lg, e) w1"
      "ex r (JoinHostPort a ''53'') w1 = ((m, rtt, None), (lg2, e2))" by auto
    obtain lg1 e1 where w1: "w1 = (lg1, e1)" by (cases w1)
    have c: "client network (res_timeout c) r (JoinHostPort a ''53'') e1 = ((m, rtt, None), e2)"
      using exchangers_result [OF ex o(3) [unfolded w1]] by simp
    obtain msg where "m = Some msg" using client_okD(1) [OF assms(1) c] by blast
    moreover have "forwarded ?lg lg1 0 (of_nat (length xs))" using all_fail_counts [OF o(2) ex] w1 by simp
    moreover have "forwarded lg1 lg2 1 0" using exchangers_counts [OF ex o(3) [unfolded w1]] by simp
    ultimately have A: "upstreams c = xs @ a # ys \<and>
        client network (res_timeout c) r (JoinHostPort a ''53'') e1 = ((Some msg, rtt, None), e') \<and>
        t = reply mlen network msg \<and> forwarded ?lg lg1 0 (of_nat (length xs)) \<and> forwarded lg1 lg2 1 0 \<and>
        lg' = (if Msg_Answer msg = [] then NonMesosNXDomain_update Inc lg2 else lg2)"
      using run 2 c o(1) by (auto simp: on_log_def split: if_splits)
    show ?thesis unfolding if_not_P [OF 2(1)] by (intro exI disjI2) (rule A)
  next
    case (3 e0)
    have loop: "forward_loop ex r (upstreams c) (None, None) (?lg, e) = ((m, Some e0), (lg2, e2))"
      using f ex 3 by (simp add: NewForwarder_def)
    have rc: "rcode e0 = RcodeServerFailure" by (rule forward_loop_error [OF assms(1) ex loop]) simp
    have "all_fail ex r (upstreams c) (?lg, e) (lg2, e2)" using order 3 ex by simp
    from all_fail_counts [OF this ex]
    have B: "t = reply mlen network (SetRcode r RcodeServerFailure new_Msg) \<and>
        forwarded ?lg lg' 0 (of_nat (length (upstreams c)))" using run 3 rc by simp
    show ?thesis unfolding if_not_P [OF 3(1)] by (intro exI disjI1) (rule B)
  qed
qed

theorem HandleNonMesos_outcome_witness:
  "fst (HandleNonMesos (\<lambda>_. 12) (fst (builtin_New (\<lambda>_ _ m _ e. ((Some m, 0, None), e)) (0::nat)
       (builtin_NewConfig\<lparr>BC_ExternalOn := False\<rparr>) demo_gen [])) ''udp'' demo_query (CurLog, ()))
   = reply (\<lambda>_. 12) ''udp'' (SetRcode demo_query RcodeRefused new_Msg)"
proof -
  let ?c = "builtin_NewConfig\<lparr>BC_ExternalOn := False\<rparr>" and ?client = "\<lambda>_ _ m _ e. ((Some m, 0, None), e)"
  let ?res = "fst (builtin_New ?client (0::nat) ?c demo_gen [])"
  have ok: "client_ok ?client" by (simp add: client_ok_def)
  obtain t lg' e' where h: "HandleNonMesos (\<lambda>_. 12) ?res ''udp'' demo_query (CurLog, ()) = (t, (lg', e'))"
    by (cases "HandleNonMesos (\<lambda>_. 12) ?res ''udp'' demo_query (CurLog, ())") auto
  have u: "upstreams ?c = []" by (simp add: upstreams_def)
  from HandleNonMesos_outcome [OF ok _ refl h, unfolded if_P [OF u]] show ?thesis using h by simp
qed

text \<open>C25: the counters stay balanced over every sequence of DNS queries, REST lookups and reloads a
  resolver serves: each Mesos request is counted as a success or as an empty answer, and the
  exchanges forwarded are the successes and failures outside the domain, less the REST lookups
  of foreign names (modulo \<open>2^64\<close>, the width of the counters).\<close>

theorem counters_balanced:
  assumes "serve\<^sup>*\<^sup>* (fst (builtin_New client seed c rg version), (CurLog, e), 0) (res, (lg, e'), n)"
  shows "MesosRequests lg = MesosSuccess lg + MesosNXDomain lg
    \<and> NonMesosForwarded lg + of_nat n = NonMesosSuccess lg + NonMesosFailed lg"
proof -
  let ?exs = "exchangers client (res_timeout c) [''udp'', ''tcp'']"
  have "Res_fwd (fst (res, (lg, e'), n)) = NewForwarder (upstreams c) ?exs \<and>
      balanced (fst (fst (snd (res, (lg, e'), n)))) (snd (snd (res, (lg, e'), n)))"
    using assms
  proof (induction rule: rtranclp_induct)
    case base
    then show ?case by (simp add: builtin_New_fwd balanced_def CurLog_def)
  next
    case (step s s')
    from step.hyps(2) step.IH show ?case by (rule serve_step_inv)
  qed
  then show ?thesis by (simp add: balanced_def)
qed

theorem counters_balanced_witness:
  "\<exists>lg'. serve\<^sup>*\<^sup>* (fst (builtin_New (\<lambda>_ _ m _ e. ((Some m, 0, None), e)) (0::nat) builtin_NewConfig demo_gen []), (CurLog, ()), 0)
        (Reload demo_gen (fst (builtin_New (\<lambda>_ _ m _ e. ((Some m, 0, None), e)) (0::nat) builtin_NewConfig demo_gen [])), (lg', ()), 0)
     \<and> MesosRequests lg' = MesosSuccess lg' + MesosNXDomain lg' \<and> NonMesosRequests lg' = 1"
proof -
  let ?res = "fst (builtin_New (\<lambda>_ _ m _ e. ((Some m, 0, None), e)) (0::nat) builtin_NewConfig demo_gen [])"
  obtain t lg' where h: "HandleNonMesos (\<lambda>_. 12) ?res ''x'' demo_query (CurLog, ()) = (t, (lg', ()))"
    by (cases "HandleNonMesos (\<lambda>_. 12) ?res ''x'' demo_query (CurLog, ())") auto
  have run: "serve\<^sup>*\<^sup>* (?res, (CurLog, ()), 0) (Reload demo_gen ?res, (lg', ()), 0)"
    by (rule rtranclp.rtrancl_into_rtrancl [OF rtranclp.rtrancl_into_rtrancl [OF rtranclp.rtrancl_refl]])
      (rule serve.other [OF h], rule serve.reload)
  have "exchangers client timeout [''udp'', ''tcp''] ''x'' = None" for client :: "string \<Rightarrow> int \<Rightarrow> unit Exchanger" and timeout by (simp add: exchangers_def)
  then have "lg' = NonMesosRequests_update Inc CurLog"
    using h by (simp add: HandleNonMesos_def Let_def builtin_New_fwd NewForwarder_def on_log_def)
  then have "NonMesosRequests lg' = 1" by (simp add: CurLog_def Inc_def)
  then show ?thesis using counters_balanced [OF run] run by blast
qed

text \<open>C29: the REST interface serves the same zone as the DNS interface: a lookup of a host panics
  exactly when the name is empty without its wildcards, and otherwise lists exactly the
  addresses an A query for the same name is answered with, each once, or one empty entry when
  there are none.\<close>

theorem RestHost_agrees:
  assumes "order_ok ord" and dm_def: "dm = ToLower (cleanWild host)"
    and q_def: "q = \<lparr>Question_Name = fqdn, Question_Qtype = TypeA, Question_Qclass = ClassINET\<rparr>"
    and fqdn_def: "fqdn = (if HasSuffix dm ''.'' then dm else dm @ ''.'')"
  shows "case RestHost ord res host lg of
      None \<Rightarrow> dm = []
    | Some (records, lg') \<Rightarrow> dm \<noteq> [] \<and>
        (if rrs_look (RG_As (Res_rg res)) fqdn = [] then map Host_IP records = [[]]
         else mset (map Host_IP records) = mset (rrs_look (RG_As (Res_rg res)) fqdn) \<and>
           mset (oks (map (\<lambda>r. formatA (Res_config res) (Host_Host r) (Host_IP r)) records))
             = mset (mesos_answers (Res_config res) (Res_rg res) fqdn q))"
proof (cases "dm = []")
  case True
  then show ?thesis by (simp add: RestHost_def rest_name_def dm_def)
next
  case False
  let ?l = "rrs_look (RG_As (Res_rg res)) fqdn"
  have "rest_name host = Some fqdn" using rest_name_fqdn [of host] False by (simp add: dm_def fqdn_def)
  then obtain lg' where run: "RestHost ord res host lg = Some
      (if ord ?l = [] then [\<lparr>Host_Host = [], Host_IP = []\<rparr>] else map (\<lambda>ip. \<lparr>Host_Host = fqdn, Host_IP = ip\<rparr>) (ord ?l), lg')"
    by (simp add: RestHost_def Let_def)
  have perm: "mset (ord ?l) = mset ?l" using assms(1) by (simp add: order_ok_def)
  then have empty: "ord ?l = [] \<longleftrightarrow> ?l = []" by (metis mset_zero_iff)
  show ?thesis
  proof (cases "?l = []")
    case True
    then show ?thesis using run empty False by simp
  next
    case l: False
    have "mset (oks (map (formatA (Res_config res) fqdn) (ord ?l))) = mset (oks (map (formatA (Res_config res) fqdn) ?l))"
      using assms(1) by (rule oks_order)
    moreover have "map Host_IP (map (\<lambda>ip. \<lparr>Host_Host = fqdn, Host_IP = ip\<rparr>) (ord ?l)) = ord ?l"
      "map (\<lambda>r. formatA (Res_config res) (Host_Host r) (Host_IP r)) (map (\<lambda>ip. \<lparr>Host_Host = fqdn, Host_IP = ip\<rparr>) (ord ?l))
        = map (formatA (Res_config res) fqdn) (ord ?l)"
      by (simp_all add: comp_def)
    moreover have "mesos_answers (Res_config res) (Res_rg res) fqdn q = oks (map (formatA (Res_config res) fqdn) ?l)"
      by (simp add: mesos_answers_def q_def qtypes)
    ultimately show ?thesis using run empty False l perm by (simp del: map_map mset_map)
  qed
qed

theorem RestHost_agrees_witness:
  "\<exists>records lg'. RestHost rev demo_resolver ''A.mesos'' CurLog = Some (records, lg') \<and> mset (map Host_IP records) = {#''1.2.3.4''#}"
proof -
  have "ToLower (cleanWild ''A.mesos'') = ''a.mesos''" by code_simp
  moreover have "\<not> HasSuffix ''a.mesos'' ''.''" by code_simp
  moreover have "rrs_look (RG_As (Res_rg demo_resolver)) ''a.mesos.'' = [''1.2.3.4'']"
    by (simp add: demo_resolver_def rrs_look_def rrs_get_def)
  moreover have "order_ok rev" by (simp add: order_ok_def)
  ultimately show ?thesis
    using RestHost_agrees [OF _ refl refl refl, of rev "''A.mesos''" demo_resolver CurLog]
    by (auto split: option.splits prod.splits)
qed


text \<open>
  The SRV record of a REST entry. An entry without a port stands for a target that is no host
  with a port (or for no target at all).
\<close>

definition service_rr :: "BuiltinConfig \<Rightarrow> string \<Rightarrow> service_record \<Rightarrow> RR" where
  "service_rr c qname r = SRV_RR (rr_header qname TypeSRV c) 0 0 (of_int (fst (Atoi (Service_Port r)))) (Service_Host r)"

definition services :: "service_record list \<Rightarrow> service_record list" where
  "services = filter (\<lambda>r. Service_Port r \<noteq> [])"

text \<open>Targets have ports: a target that can be split has a port after its host.\<close>

definition ported :: "string list \<Rightarrow> bool" where
  "ported targets \<longleftrightarrow> (\<forall>s\<in>set targets. snd (snd (SplitHostPort s)) = None \<longrightarrow> fst (snd (SplitHostPort s)) \<noteq> [])"

lemma SplitHostPort_error: "snd (snd (SplitHostPort s)) = Some e \<Longrightarrow> fst (snd (SplitHostPort s)) = []"
  by (auto simp: SplitHostPort_def Let_def split: if_splits option.splits)

lemma service_of_simps:
  "Service_Service (service_of first rg service s) = service" "Service_Host (service_of first rg service s) = fst (SplitHostPort s)"
  "Service_Port (service_of first rg service s) = fst (snd (SplitHostPort s))"
  by (simp_all add: service_of_def Let_def case_prod_beta)

lemma services_answers:
  assumes "ported targets"
  shows "map (service_rr c qname) (services (map (service_of first rg service) targets)) = oks (map (formatSRV c qname) targets)"
  using assms
proof (induction targets)
  case (Cons s targets)
  have "formatSRV c qname s = (if fst (snd (SplitHostPort s)) = [] then Inl InvalidTarget
      else Inr (service_rr c qname (service_of first rg service s)))"
    using Cons.prems SplitHostPort_error [of s]
    by (cases "snd (snd (SplitHostPort s))") (auto simp: ported_def formatSRV_def service_rr_def service_of_simps case_prod_beta)
  then show ?case using Cons by (simp add: services_def service_of_simps ported_def)
qed (simp add: services_def)

lemma RestService_run:
  assumes "dm = ToLower (cleanWild service)" "dm \<noteq> []" "targets = rrs_look (RG_SRVs (Res_rg res)) (if HasSuffix dm ''.'' then dm else dm @ ''.'')"
  obtains lg' where "RestService ord first res service lg = Some
      (if ord targets = [] then [\<lparr>Service_Service = [], Service_Host = [], Service_IP = [], Service_Port = []\<rparr>]
       else map (service_of first (Res_rg res) service) (ord targets), lg')"
  using rest_name_fqdn [of service] assms by (simp add: RestService_def Let_def)


definition demo_service_resolver :: "(nat, nat) Resolver" where
  "demo_service_resolver = demo_resolver\<lparr>Res_rg := (Res_rg demo_resolver)\<lparr>RG_SRVs := Some [(''s.mesos.'', [''a.mesos.:80'', ''junk''])]\<rparr>\<rparr>"

definition demo_srv_query :: Msg where
  "demo_srv_query = new_Msg\<lparr>Msg_Id := 7,
     Msg_Question := [\<lparr>Question_Name = ''s.Mesos.'', Question_Qtype = TypeSRV, Question_Qclass = ClassINET\<rparr>]\<rparr>"


end
