(* ===== verification/Task_Zone.thy ===== *)
theory Task_Zone
  imports Generator_Zone
begin

text \<open>
  The records of tasks (\<open>taskRecords\<close>, \<open>taskRecord\<close> and \<open>taskContextRecord\<close> of
  \<open>records/generator.go\<close> with the chains of \<open>records/chains.go\<close>), as sets of zone entries,
  together with the enumeration data that is built alongside.
\<close>

section \<open>The state a task's records are added to\<close>

definition rec_entry :: "EnumerableRecord \<Rightarrow> zone_entry" where
  "rec_entry r = (ER_Rtype r, ER_Name r, ER_Host r)"

abbreviation recs :: "EnumerableTask \<Rightarrow> zone_entry list" where
  "recs t \<equiv> map rec_entry (ET_Records t)"

text \<open>
  The invariant while a task's records are added to a generator whose zone was \<open>base\<close>: the
  task lists exactly the records that are new, each once.
\<close>

definition task_ok ::
  "zone_entry set \<Rightarrow> Config \<times> State \<times> (string \<times> string) list \<times> EnumerationData \<times> int \<Rightarrow> string \<times> string \<Rightarrow>
   RecordGenerator \<times> EnumerableTask \<Rightarrow> bool" where
  "task_ok base fr nm = (\<lambda>(rg, t).
     gen_ok rg \<and> gen_frame rg = fr \<and> (ET_Name t, ET_ID t) = nm \<and>
     zone rg = base \<union> set (recs t) \<and> base \<inter> set (recs t) = {} \<and> distinct (recs t))"

abbreviation tzone :: "RecordGenerator \<times> EnumerableTask \<Rightarrow> zone_entry set" where
  "tzone s \<equiv> zone (fst s)"

lemma insertTaskRR_zone [store_simps]:
  assumes "gen_ok (fst s)" "k \<in> {A, SRV}"
  shows "tzone (snd (insertTaskRR n h k s)) = tzone s \<union> entry k n h"
  using insertRR_zone [OF assms, of n h]
  by (cases s) (simp add: insertTaskRR_def case_prod_beta Let_def)

lemma insertTaskRR_gen [store_simps]:
  "gen_ok (fst s) \<Longrightarrow> gen_ok (fst (snd (insertTaskRR n h k s)))"
  using insertRR_ok [of "fst s" n h k] by (cases s) (simp add: insertTaskRR_def case_prod_beta Let_def)

lemma insertTaskRR_ok [store_simps]:
  assumes "task_ok base fr nm s" "k \<in> {A, SRV}"
  shows "task_ok base fr nm (snd (insertTaskRR n h k s))"
proof -
  obtain rg t where s: "s = (rg, t)" by (cases s)
  from assms(1) have ok: "gen_ok rg" by (simp add: s task_ok_def)
  show ?thesis
  proof (cases "fst (insertRR n h k rg)")
    case True
    then have new: "h \<noteq> []" "(k, n, h) \<notin> zone rg" using insertRR_added [OF ok assms(2)] by auto
    show ?thesis
      using assms new True
      by (auto simp: s insertTaskRR_def case_prod_beta Let_def task_ok_def store_simps frame_simps
          entry_def rec_entry_def)
  next
    case False
    then have "entry k n h \<subseteq> zone rg" using insertRR_added [OF ok assms(2)] by (auto simp: entry_def)
    then show ?thesis
      using assms False
      by (auto simp: s insertTaskRR_def case_prod_beta Let_def task_ok_def store_simps frame_simps)
  qed
qed

lemma task_ok_gen [simp]: "task_ok base fr nm s \<Longrightarrow> gen_ok (fst s)"
  by (auto simp: task_ok_def)

interpretation srv: chain_sink put_srv tzone "entry SRV" "task_ok base fr nm" for base fr nm
  by unfold_locales (auto simp: store_simps)

section \<open>SRV records of a port\<close>

definition lab :: "Func \<Rightarrow> string \<Rightarrow> string" where
  "lab spec x = (case spec x of None \<Rightarrow> [] | Some y \<Rightarrow> y)"

text \<open>Without a protocol both TCP and UDP are assumed.\<close>

definition protocols :: "Func \<Rightarrow> string \<Rightarrow> string set" where
  "protocols spec p = (if lab spec p = [] then {''tcp'', ''udp''} else {lab spec p})"

definition srv_name :: "string \<Rightarrow> string \<Rightarrow> string \<Rightarrow> string" where
  "srv_name taskName proto fname = ''_'' @ taskName @ ''._'' @ proto @ ''.'' @ fname"

definition port_zone ::
  "Func \<Rightarrow> string \<Rightarrow> string \<Rightarrow> string \<Rightarrow> string list \<Rightarrow> string \<Rightarrow> string \<Rightarrow> zone_entry set" where
  "port_zone spec taskName fname tail subs slaveHost port =
     (\<Union>proto\<in>protocols spec protocolNone. \<Union>sub\<in>set subs.
        entry SRV (srv_name taskName proto fname @ (if sub = domainNone then [] else ''.'' @ sub) @ tail)
          (slaveHost @ '':'' @ port))"

definition discovery_zone ::
  "Func \<Rightarrow> string \<Rightarrow> string \<Rightarrow> string \<Rightarrow> string \<Rightarrow> DiscoveryPort \<Rightarrow> zone_entry set" where
  "discovery_zone spec taskName fname tail canonical port =
     (let target = canonical @ tail @ '':'' @ Itoa (DiscoveryPort_Number port);
          pn = lab spec (DiscoveryPort_Name port)
      in \<Union>proto\<in>protocols spec (DiscoveryPort_Protocol port).
           entry SRV (srv_name taskName proto fname @ tail) target \<union>
           (if pn = [] then {} else entry SRV (''_'' @ pn @ ''.'' @ srv_name taskName proto fname @ tail) target))"

lemma append_sub:
  "(if sub = domainNone then r else r @ ''.'' @ sub) @ tail = r @ (if sub = domainNone then [] else ''.'' @ sub) @ tail"
  by simp

lemma port_srv_zone:
  assumes "task_ok base fr nm s" and "subs \<noteq> []"
    and "port_srv taskName fname tail subs slaveHost spec port s = Some s'"
  shows "task_ok base fr nm s' \<and> tzone s' = tzone s \<union> port_zone spec taskName fname tail subs slaveHost port"
proof -
  from assms(3) obtain p where p: "spec protocolNone = Some p"
    by (auto simp: port_srv_def withProtocol_def bind_eq_Some_conv)
  note e = srv.emits_withProtocol [where spec = spec and protocol = protocolNone and fw = fname,
      OF srv.emits_withSubdomains [OF srv.emits_asSRV [of base fr nm tail "slaveHost @ '':'' @ port"] assms(2)] p]
  from srv.emitsD [OF e assms(1), of "[''_'' @ taskName]"] assms(3)
  show ?thesis
    by (cases "p = []") (auto simp: port_srv_def port_zone_def protocols_def lab_def p srv_name_def append_sub)
qed

lemma discovery_srv_zone:
  assumes "task_ok base fr nm s" and "discovery_srv taskName fname tail canonical spec port s = Some s'"
  shows "task_ok base fr nm s' \<and> tzone s' = tzone s \<union> discovery_zone spec taskName fname tail canonical port"
proof -
  let ?target = "canonical @ tail @ '':'' @ Itoa (DiscoveryPort_Number port)"
  from assms(2) obtain named where n: "withNamedPort (DiscoveryPort_Name port) spec (asSRV put_srv tail ?target) = Some named"
    and run: "withProtocol (DiscoveryPort_Protocol port) fname spec named [''_'' @ taskName] s = Some s'"
    by (auto simp: discovery_srv_def bind_eq_Some_conv)
  from n obtain pn where pn: "spec (DiscoveryPort_Name port) = Some pn"
    by (auto simp: withNamedPort_def bind_eq_Some_conv)
  from run obtain p where p: "spec (DiscoveryPort_Protocol port) = Some p"
    by (auto simp: withProtocol_def bind_eq_Some_conv)
  from srv.emits_withNamedPort [where spec = spec and portName = "DiscoveryPort_Name port",
      OF srv.emits_asSRV [of base fr nm tail ?target] pn] n
  have e: "srv.emits base fr nm named (\<lambda>r. entry SRV (r @ tail) ?target \<union>
      (if pn = [] then {} else entry SRV ((''_'' @ pn @ ''.'' @ r) @ tail) ?target))" by simp
  from srv.emitsD [OF srv.emits_withProtocol [where spec = spec and fw = fname, OF e p] assms(1),
      of "[''_'' @ taskName]"] run
  show ?thesis
    by (cases "p = []"; cases "pn = []")
      (simp_all add: discovery_zone_def protocols_def lab_def p pn srv_name_def Let_def Un_ac)
qed

section \<open>Records of one task\<close>

definition context_zone :: "Func \<Rightarrow> string \<Rightarrow> task_context \<Rightarrow> Task \<Rightarrow> Framework \<Rightarrow> zone_entry set" where
  "context_zone spec domain ctx task f =
     (case (DomainFrag (Framework_Name f) Sep spec, Ports (Task_Resources task)) of
        (Some fname, Some ports) \<Rightarrow>
          let tail = ''.'' @ domain @ ''.'';
              canonical = ctx_taskName ctx @ ''-'' @ ctx_taskID ctx @ ''-'' @ ctx_slaveID ctx @ ''.'' @ fname;
              arec = ctx_taskName ctx @ ''.'' @ fname;
              subs = (if HasDiscoveryInfo task then [''slave''] else [''slave'', domainNone])
          in entry A (arec @ tail) (ctx_taskIP ctx) \<union> entry A (canonical @ tail) (ctx_taskIP ctx) \<union>
             entry A (arec @ ''.slave'' @ tail) (ctx_slaveIP ctx) \<union>
             entry A (canonical @ ''.slave'' @ tail) (ctx_slaveIP ctx) \<union>
             (\<Union>port\<in>set ports. port_zone spec (ctx_taskName ctx) fname tail subs (canonical @ ''.slave'' @ tail) port) \<union>
             (if HasDiscoveryInfo task
              then \<Union>port\<in>set (DiscoveryInfo_Ports (Task_DiscoveryInfo task)).
                     discovery_zone spec (ctx_taskName ctx) fname tail canonical port
              else {})
      | _ \<Rightarrow> {})"

text \<open>The first four insertions, and the two loops after them.\<close>

definition context_As ::
  "string \<Rightarrow> string \<Rightarrow> string \<Rightarrow> string \<Rightarrow> string \<Rightarrow> RecordGenerator \<times> EnumerableTask \<Rightarrow> RecordGenerator \<times> EnumerableTask" where
  "context_As arec canonical tail taskIP slaveIP s =
     snd (insertTaskRR (canonical @ ''.slave'' @ tail) slaveIP A
       (snd (insertTaskRR (arec @ ''.slave'' @ tail) slaveIP A
         (snd (insertTaskRR (canonical @ tail) taskIP A (snd (insertTaskRR (arec @ tail) taskIP A s)))))))"

lemma context_As_zone:
  assumes "task_ok base fr nm s"
  shows "task_ok base fr nm (context_As arec canonical tail taskIP slaveIP s) \<and>
    tzone (context_As arec canonical tail taskIP slaveIP s) = tzone s \<union>
      (entry A (arec @ tail) taskIP \<union> entry A (canonical @ tail) taskIP \<union>
       entry A (arec @ ''.slave'' @ tail) slaveIP \<union> entry A (canonical @ ''.slave'' @ tail) slaveIP)"
  using assms task_ok_gen [OF assms] unfolding context_As_def by (simp add: store_simps Un_assoc)

lemma fold_ports_zone:
  assumes "fold_opt (port_srv taskName fname tail subs slaveHost spec) ports s = Some s'"
    and "task_ok base fr nm s" and "subs \<noteq> []"
  shows "task_ok base fr nm s' \<and>
    tzone s' = tzone s \<union> (\<Union>port\<in>set ports. port_zone spec taskName fname tail subs slaveHost port)"
  using assms(1) by (rule fold_opt_union) (use assms port_srv_zone in blast)+

lemma fold_discovery_zone:
  assumes "fold_opt (discovery_srv taskName fname tail canonical spec) ports s = Some s'"
    and "task_ok base fr nm s"
  shows "task_ok base fr nm s' \<and>
    tzone s' = tzone s \<union> (\<Union>port\<in>set ports. discovery_zone spec taskName fname tail canonical port)"
  using assms(1) by (rule fold_opt_union) (use assms discovery_srv_zone in blast)+

definition context_body ::
  "string \<Rightarrow> string \<Rightarrow> string \<Rightarrow> string \<Rightarrow> string \<Rightarrow> string \<Rightarrow> string \<Rightarrow> Task \<Rightarrow> Func \<Rightarrow> string list \<Rightarrow>
   RecordGenerator \<times> EnumerableTask \<Rightarrow> (RecordGenerator \<times> EnumerableTask) option" where
  "context_body taskName taskIP slaveIP fname tail canonical arec task spec ports s = do {
     s5 \<leftarrow> fold_opt (port_srv taskName fname tail (if HasDiscoveryInfo task then [''slave''] else [''slave'', domainNone])
             (canonical @ ''.slave'' @ tail) spec) ports (context_As arec canonical tail taskIP slaveIP s);
     if \<not> HasDiscoveryInfo task then Some s5
     else fold_opt (discovery_srv taskName fname tail canonical spec)
            (DiscoveryInfo_Ports (Task_DiscoveryInfo task)) s5 }"

definition context_body_zone ::
  "string \<Rightarrow> string \<Rightarrow> string \<Rightarrow> string \<Rightarrow> string \<Rightarrow> string \<Rightarrow> string \<Rightarrow> Task \<Rightarrow> Func \<Rightarrow> string list \<Rightarrow> zone_entry set" where
  "context_body_zone taskName taskIP slaveIP fname tail canonical arec task spec ports =
     entry A (arec @ tail) taskIP \<union> entry A (canonical @ tail) taskIP \<union>
     entry A (arec @ ''.slave'' @ tail) slaveIP \<union> entry A (canonical @ ''.slave'' @ tail) slaveIP \<union>
     (\<Union>port\<in>set ports. port_zone spec taskName fname tail
        (if HasDiscoveryInfo task then [''slave''] else [''slave'', domainNone]) (canonical @ ''.slave'' @ tail) port) \<union>
     (if HasDiscoveryInfo task
      then \<Union>port\<in>set (DiscoveryInfo_Ports (Task_DiscoveryInfo task)).
             discovery_zone spec taskName fname tail canonical port
      else {})"

lemma context_body_zone:
  assumes "task_ok base fr nm s"
    and "context_body taskName taskIP slaveIP fname tail canonical arec task spec ports s = Some s'"
  shows "task_ok base fr nm s' \<and>
    tzone s' = tzone s \<union> context_body_zone taskName taskIP slaveIP fname tail canonical arec task spec ports"
proof -
  let ?subs = "if HasDiscoveryInfo task then [''slave''] else [''slave'', domainNone]"
  let ?s4 = "context_As arec canonical tail taskIP slaveIP s"
  note a = context_As_zone [OF assms(1), of arec canonical tail taskIP slaveIP]
  from assms(2) obtain s5 where s5:
    "fold_opt (port_srv taskName fname tail ?subs (canonical @ ''.slave'' @ tail) spec) ports ?s4 = Some s5"
    by (cases "fold_opt (port_srv taskName fname tail ?subs (canonical @ ''.slave'' @ tail) spec) ports ?s4")
      (simp_all add: context_body_def)
  note p = fold_ports_zone [OF s5 a [THEN conjunct1]]
  show ?thesis
  proof (cases "HasDiscoveryInfo task")
    case True
    then have "fold_opt (discovery_srv taskName fname tail canonical spec)
        (DiscoveryInfo_Ports (Task_DiscoveryInfo task)) s5 = Some s'"
      using assms(2) s5 by (simp add: context_body_def)
    from fold_discovery_zone [OF this, of base fr nm] p a True
    show ?thesis by (simp add: context_body_zone_def Un_assoc)
  next
    case False
    then have "s5 = s'" using assms(2) s5 by (simp add: context_body_def)
    with p a False show ?thesis by (simp add: context_body_zone_def Un_assoc)
  qed
qed

lemma taskContextRecord_eq:
  "taskContextRecord ctx task f domain spec s = do {
     fname \<leftarrow> DomainFrag (Framework_Name f) Sep spec;
     ports \<leftarrow> Ports (Task_Resources task);
     context_body (ctx_taskName ctx) (ctx_taskIP ctx) (ctx_slaveIP ctx) fname (''.'' @ domain @ ''.'')
       (ctx_taskName ctx @ ''-'' @ ctx_taskID ctx @ ''-'' @ ctx_slaveID ctx @ ''.'' @ fname)
       (ctx_taskName ctx @ ''.'' @ fname) task spec ports s }"
  by (simp add: taskContextRecord_def context_body_def context_As_def Let_def)

lemma context_zone_eq:
  assumes "DomainFrag (Framework_Name f) Sep spec = Some fname" "Ports (Task_Resources task) = Some ports"
  shows "context_zone spec domain ctx task f =
    context_body_zone (ctx_taskName ctx) (ctx_taskIP ctx) (ctx_slaveIP ctx) fname (''.'' @ domain @ ''.'')
       (ctx_taskName ctx @ ''-'' @ ctx_taskID ctx @ ''-'' @ ctx_slaveID ctx @ ''.'' @ fname)
       (ctx_taskName ctx @ ''.'' @ fname) task spec ports"
  by (simp add: context_zone_def context_body_zone_def assms Let_def)

lemma taskContextRecord_zone:
  assumes "task_ok base fr nm s" and "taskContextRecord ctx task f domain spec s = Some s'"
  shows "task_ok base fr nm s' \<and> tzone s' = tzone s \<union> context_zone spec domain ctx task f"
proof -
  from assms(2) obtain fname ports where p: "DomainFrag (Framework_Name f) Sep spec = Some fname"
      "Ports (Task_Resources task) = Some ports"
    by (auto simp only: taskContextRecord_eq bind_eq_Some_conv)
  show ?thesis
    using context_body_zone [OF assms(1)] assms(2) p by (simp only: taskContextRecord_eq context_zone_eq bind.simps)
qed

definition task_ctx :: "Func \<Rightarrow> string list \<Rightarrow> Task \<Rightarrow> task_context" where
  "task_ctx spec ipSources task =
     \<lparr>ctx_taskName = lab spec (Task_Name task), ctx_taskID = hashString (Task_ID task),
      ctx_slaveID = slaveIDTail (Task_SlaveID task),
      ctx_taskIP = Task_IP task ipSources, ctx_slaveIP = Task_SlaveIP task\<rparr>"

text \<open>A task with discovery information is entered under its discovery name, raw and mangled.\<close>

definition task_record_zone :: "Func \<Rightarrow> string \<Rightarrow> string list \<Rightarrow> Framework \<Rightarrow> Task \<Rightarrow> zone_entry set" where
  "task_record_zone spec domain ipSources f task =
     (let ctx = task_ctx spec ipSources task; di = DiscoveryInfo_Name (Task_DiscoveryInfo task)
      in if HasDiscoveryInfo task
         then context_zone spec domain (ctx\<lparr>ctx_taskName := di\<rparr>) task f \<union>
              context_zone spec domain (ctx\<lparr>ctx_taskName := lab spec di\<rparr>) task f
         else context_zone spec domain ctx task f)"

section \<open>Records and enumeration of a framework's tasks\<close>

abbreviation fw_recs :: "EnumerableFramework \<Rightarrow> zone_entry list" where
  "fw_recs ef \<equiv> concat (map recs (EF_Tasks ef))"

definition fw_ids :: "EnumerableFramework \<Rightarrow> (string \<times> string) list" where
  "fw_ids ef = map (\<lambda>t. (ET_Name t, ET_ID t)) (EF_Tasks ef)"

definition enum_ok ::
  "zone_entry set \<Rightarrow> Config \<times> State \<times> (string \<times> string) list \<times> EnumerationData \<times> int \<Rightarrow> string \<Rightarrow>
   RecordGenerator \<times> EnumerableFramework \<Rightarrow> bool" where
  "enum_ok base fr nm = (\<lambda>(rg, ef).
     gen_ok rg \<and> gen_frame rg = fr \<and> EF_Name ef = nm \<and>
     zone rg = base \<union> set (fw_recs ef) \<and> base \<inter> set (fw_recs ef) = {} \<and> distinct (fw_recs ef))"

lemma taskRecord_contexts:
  assumes "taskRecord task f domain spec ipSources (rg, ef) = Some (rg', ef')"
    and ok: "gen_ok rg"
  obtains t where "task_ok (zone rg) (gen_frame rg) (Task_Name task, Task_ID task) (rg', t)"
    "zone rg' = zone rg \<union> task_record_zone spec domain ipSources f task"
    "ef' = ef\<lparr>EF_Tasks := EF_Tasks ef @ [t]\<rparr>"
proof -
  let ?t0 = "\<lparr>ET_Name = Task_Name task, ET_ID = Task_ID task, ET_Records = []\<rparr>"
  let ?ctx = "task_ctx spec ipSources task" and ?di = "DiscoveryInfo_Name (Task_DiscoveryInfo task)"
  let ?ok = "task_ok (zone rg) (gen_frame rg) (Task_Name task, Task_ID task)"
  have start: "?ok (rg, ?t0)" using ok by (simp add: task_ok_def)
  from assms(1) obtain taskName where tn: "spec (Task_Name task) = Some taskName"
    by (cases "spec (Task_Name task)") (auto simp: taskRecord_def)
  have ctx: "?ctx = \<lparr>ctx_taskName = taskName, ctx_taskID = hashString (Task_ID task),
      ctx_slaveID = slaveIDTail (Task_SlaveID task),
      ctx_taskIP = Task_IP task ipSources, ctx_slaveIP = Task_SlaveIP task\<rparr>"
    by (simp add: task_ctx_def lab_def tn)
  show ?thesis
  proof (cases "HasDiscoveryInfo task")
    case True
    from assms(1) True obtain s1 diName t
      where s1: "taskContextRecord (?ctx\<lparr>ctx_taskName := ?di\<rparr>) task f domain spec (rg, ?t0) = Some s1"
      and di: "spec ?di = Some diName"
      and s2: "taskContextRecord (?ctx\<lparr>ctx_taskName := diName\<rparr>) task f domain spec s1 = Some (rg', t)"
      and ef': "ef' = ef\<lparr>EF_Tasks := EF_Tasks ef @ [t]\<rparr>"
      by (auto simp: taskRecord_def tn ctx bind_eq_Some_conv)
    note z1 = taskContextRecord_zone [OF start s1]
    from z1 taskContextRecord_zone [OF z1 [THEN conjunct1] s2]
    have "?ok (rg', t)" "zone rg' = zone rg \<union> task_record_zone spec domain ipSources f task"
      using True di by (auto simp: task_record_zone_def lab_def Let_def)
    then show ?thesis using ef' that by blast
  next
    case False
    from assms(1) False obtain t
      where s2: "taskContextRecord ?ctx task f domain spec (rg, ?t0) = Some (rg', t)"
      and ef': "ef' = ef\<lparr>EF_Tasks := EF_Tasks ef @ [t]\<rparr>"
      by (auto simp: taskRecord_def tn ctx bind_eq_Some_conv)
    from taskContextRecord_zone [OF start s2]
    have "?ok (rg', t)" "zone rg' = zone rg \<union> task_record_zone spec domain ipSources f task"
      using False by (auto simp: task_record_zone_def Let_def)
    then show ?thesis using ef' that by blast
  qed
qed

lemma taskRecord_zone:
  assumes "enum_ok base fr nm s" and "taskRecord task f domain spec ipSources s = Some s'"
  shows "enum_ok base fr nm s' \<and> fw_ids (snd s') = fw_ids (snd s) @ [(Task_Name task, Task_ID task)] \<and>
    zone (fst s') = zone (fst s) \<union> task_record_zone spec domain ipSources f task"
proof -
  obtain rg ef rg' ef' where s: "s = (rg, ef)" "s' = (rg', ef')" by (metis surj_pair)
  from assms(1) have ok: "gen_ok rg" and e: "gen_frame rg = fr" "EF_Name ef = nm"
      "zone rg = base \<union> set (fw_recs ef)" "base \<inter> set (fw_recs ef) = {}" "distinct (fw_recs ef)"
    by (auto simp: s enum_ok_def)
  from taskRecord_contexts [OF assms(2) [unfolded s] ok] obtain t
    where t: "task_ok (zone rg) (gen_frame rg) (Task_Name task, Task_ID task) (rg', t)"
      and z: "zone rg' = zone rg \<union> task_record_zone spec domain ipSources f task"
      and ef': "ef' = ef\<lparr>EF_Tasks := EF_Tasks ef @ [t]\<rparr>" by metis
  from t have t': "gen_ok rg'" "gen_frame rg' = gen_frame rg" "ET_Name t = Task_Name task" "ET_ID t = Task_ID task"
      "zone rg' = zone rg \<union> set (recs t)" "zone rg \<inter> set (recs t) = {}" "distinct (recs t)"
    by (auto simp: task_ok_def)
  have "fw_recs ef' = fw_recs ef @ recs t" by (simp add: ef')
  moreover have "set (fw_recs ef) \<inter> set (recs t) = {}" "base \<inter> set (recs t) = {}"
    using t'(6) e(3) by blast+
  ultimately have "enum_ok base fr nm s'"
    unfolding s enum_ok_def using e t' ef' by (simp add: Int_Un_distrib Un_ac)
  then show ?thesis using z t' by (simp add: s ef' fw_ids_def)
qed

definition live :: "(string \<Rightarrow> string option) \<Rightarrow> Task \<Rightarrow> bool" where
  "live ips task \<longleftrightarrow> ips (Task_SlaveID task) \<noteq> None \<and> Task_State task = ''TASK_RUNNING''"

text \<open>The records of a task that runs on a known slave: its slave address is filled in first.\<close>

definition task_zone ::
  "Func \<Rightarrow> string \<Rightarrow> string list \<Rightarrow> (string \<Rightarrow> string option) \<Rightarrow> Framework \<Rightarrow> Task \<Rightarrow> zone_entry set" where
  "task_zone spec domain ipSources ips f task =
     (if live ips task
      then task_record_zone spec domain ipSources f (task\<lparr>Task_SlaveIP := the (ips (Task_SlaveID task))\<rparr>)
      else {})"

definition live_ids :: "(string \<Rightarrow> string option) \<Rightarrow> Task list \<Rightarrow> (string \<times> string) list" where
  "live_ids ips tasks = map (\<lambda>t. (Task_Name t, Task_ID t)) (filter (live ips) tasks)"

lemma task_step_zone:
  assumes "enum_ok base fr nm s" and "task_step f domain spec ipSources task s = Some s'"
    and "map_of (RG_SlaveIPs (fst s)) = ips"
  shows "enum_ok base fr nm s' \<and> map_of (RG_SlaveIPs (fst s')) = ips \<and>
    fw_ids (snd s') = fw_ids (snd s) @ live_ids ips [task] \<and>
    zone (fst s') = zone (fst s) \<union> task_zone spec domain ipSources ips f task"
proof (cases "live ips task")
  case True
  then obtain ip where ip: "ips (Task_SlaveID task) = Some ip" by (auto simp: live_def)
  then have run: "taskRecord (task\<lparr>Task_SlaveIP := ip\<rparr>) f domain spec ipSources s = Some s'"
    using True assms by (simp add: task_step_def live_def)
  have "enum_ok base fr nm s'" using taskRecord_zone [OF assms(1) run] by blast
  then have "RG_SlaveIPs (fst s') = RG_SlaveIPs (fst s)"
    using assms(1) by (auto simp: enum_ok_def gen_frame_def)
  then show ?thesis
    using taskRecord_zone [OF assms(1) run] ip True assms(3) by (simp add: task_zone_def live_ids_def)
next
  case False
  then have "s' = s" using assms by (auto simp: task_step_def live_def split: option.splits)
  then show ?thesis using False assms by (simp add: task_zone_def live_ids_def)
qed

lemma task_steps_zone:
  assumes "fold_opt (task_step f domain spec ipSources) tasks s = Some s'"
    and "enum_ok base fr nm s" and "map_of (RG_SlaveIPs (fst s)) = ips"
  shows "enum_ok base fr nm s' \<and> map_of (RG_SlaveIPs (fst s')) = ips \<and>
    fw_ids (snd s') = fw_ids (snd s) @ live_ids ips tasks \<and>
    zone (fst s') = zone (fst s) \<union> (\<Union>task\<in>set tasks. task_zone spec domain ipSources ips f task)"
  using assms
proof (induction tasks arbitrary: s)
  case Nil
  then show ?case by (simp add: live_ids_def)
next
  case (Cons task tasks)
  from Cons.prems(1) obtain s1 where s1: "task_step f domain spec ipSources task s = Some s1"
      "fold_opt (task_step f domain spec ipSources) tasks s1 = Some s'"
    by (auto simp: bind_eq_Some_conv)
  note z = task_step_zone [OF Cons.prems(2) s1(1) Cons.prems(3)]
  have "live_ids ips (task # tasks) = live_ids ips [task] @ live_ids ips tasks"
    by (simp add: live_ids_def)
  then show ?case using z Cons.IH [OF s1(2)] by (simp add: Un_assoc)
qed

section \<open>All task records\<close>

text \<open>The records of all frameworks from the \<open>k\<close>-th on (a generator may already hold some).\<close>

definition enum_recs :: "nat \<Rightarrow> EnumerationData \<Rightarrow> zone_entry list" where
  "enum_recs k ed = concat (map fw_recs (drop k (ED_Frameworks ed)))"

definition enum_ids :: "EnumerationData \<Rightarrow> (string \<times> (string \<times> string) list) list" where
  "enum_ids ed = map (\<lambda>ef. (EF_Name ef, fw_ids ef)) (ED_Frameworks ed)"

definition tasks_ok :: "nat \<Rightarrow> zone_entry set \<Rightarrow> (string \<Rightarrow> string option) \<Rightarrow> RecordGenerator \<Rightarrow> bool" where
  "tasks_ok k base ips rg \<longleftrightarrow> gen_ok rg \<and> k \<le> length (ED_Frameworks (RG_EnumData rg)) \<and> map_of (RG_SlaveIPs rg) = ips \<and>
     zone rg = base \<union> set (enum_recs k (RG_EnumData rg)) \<and> base \<inter> set (enum_recs k (RG_EnumData rg)) = {} \<and>
     distinct (enum_recs k (RG_EnumData rg))"

definition live_forest :: "(string \<Rightarrow> string option) \<Rightarrow> Framework list \<Rightarrow> (string \<times> (string \<times> string) list) list" where
  "live_forest ips fs = map (\<lambda>f. (Framework_Name f, live_ids ips (Framework_Tasks f))) fs"

lemma framework_tasks_zone:
  assumes "tasks_ok k base ips rg" and "framework_tasks domain spec ipSources f rg = Some rg'"
  shows "tasks_ok k base ips rg' \<and>
    enum_ids (RG_EnumData rg') = enum_ids (RG_EnumData rg) @ live_forest ips [f] \<and>
    zone rg' = zone rg \<union> (\<Union>task\<in>set (Framework_Tasks f). task_zone spec domain ipSources ips f task) \<and>
    RG_Config rg' = RG_Config rg"
proof -
  let ?ef0 = "\<lparr>EF_Tasks = [], EF_Name = Framework_Name f\<rparr>"
  let ?ok = "enum_ok (zone rg) (gen_frame rg) (Framework_Name f)"
  from assms(2) obtain r ef where run: "fold_opt (task_step f domain spec ipSources) (Framework_Tasks f) (rg, ?ef0) = Some (r, ef)"
    and rg': "rg' = r\<lparr>RG_EnumData := \<lparr>ED_Frameworks = ED_Frameworks (RG_EnumData r) @ [ef]\<rparr>\<rparr>"
    by (auto simp: framework_tasks_def bind_eq_Some_conv)
  have "?ok (rg, ?ef0)" using assms(1) by (simp add: enum_ok_def tasks_ok_def)
  from task_steps_zone [OF run this] assms(1)
  have ok: "?ok (r, ef)" and ips: "map_of (RG_SlaveIPs r) = ips"
    and ids: "fw_ids ef = live_ids ips (Framework_Tasks f)"
    and z: "zone r = zone rg \<union> (\<Union>task\<in>set (Framework_Tasks f). task_zone spec domain ipSources ips f task)"
    by (auto simp: tasks_ok_def fw_ids_def)
  from ok have e: "gen_ok r" "RG_EnumData r = RG_EnumData rg" "EF_Name ef = Framework_Name f"
      "zone r = zone rg \<union> set (fw_recs ef)" "zone rg \<inter> set (fw_recs ef) = {}" "distinct (fw_recs ef)"
      "RG_Config r = RG_Config rg"
    by (auto simp: enum_ok_def gen_frame_def)
  have recs: "enum_recs k (RG_EnumData rg') = enum_recs k (RG_EnumData rg) @ fw_recs ef"
    using assms(1) by (simp add: rg' e(2) enum_recs_def tasks_ok_def)
  have "tasks_ok k base ips rg'"
    using assms(1) e(1,2,4-6) ips recs unfolding tasks_ok_def rg' by (simp add: Un_ac) blast
  then show ?thesis using z ids e by (simp add: rg' enum_ids_def live_forest_def)
qed

lemma taskRecords_zone:
  assumes "tasks_ok k base ips rg" and "taskRecords sj domain spec ipSources rg = Some rg'"
  shows "tasks_ok k base ips rg' \<and>
    enum_ids (RG_EnumData rg') = enum_ids (RG_EnumData rg) @ live_forest ips (State_Frameworks sj) \<and>
    zone rg' = zone rg \<union> (\<Union>f\<in>set (State_Frameworks sj). \<Union>task\<in>set (Framework_Tasks f). task_zone spec domain ipSources ips f task) \<and>
    RG_Config rg' = RG_Config rg"
proof -
  have "fold_opt (framework_tasks domain spec ipSources) fs r = Some r' \<Longrightarrow> tasks_ok k base ips r \<Longrightarrow>
      tasks_ok k base ips r' \<and> enum_ids (RG_EnumData r') = enum_ids (RG_EnumData r) @ live_forest ips fs \<and>
      zone r' = zone r \<union> (\<Union>f\<in>set fs. \<Union>task\<in>set (Framework_Tasks f). task_zone spec domain ipSources ips f task) \<and>
      RG_Config r' = RG_Config r"
    for fs r r'
  proof (induction fs arbitrary: r)
    case Nil
    then show ?case by (simp add: live_forest_def)
  next
    case (Cons f fs)
    from Cons.prems(1) obtain r1 where r1: "framework_tasks domain spec ipSources f r = Some r1"
        "fold_opt (framework_tasks domain spec ipSources) fs r1 = Some r'"
      by (auto simp: bind_eq_Some_conv)
    note z = framework_tasks_zone [OF Cons.prems(2) r1(1)]
    have "live_forest ips (f # fs) = live_forest ips [f] @ live_forest ips fs" by (simp add: live_forest_def)
    then show ?case using z Cons.IH [OF r1(2)] by (simp add: Un_assoc)
  qed
  then show ?thesis using assms by (simp add: taskRecords_def)
qed

end
