(* ===== verification/Insert_State.thy ===== *)
theory Insert_State
  imports Task_Zone
begin

text \<open>
  \<open>InsertState\<close> and \<open>ParseState\<close> of \<open>records/generator.go\<close> as a whole: the zone they build,
  the enumeration data, when they return at all, and where the state they insert comes from.
\<close>

section \<open>The zone of a state\<close>

definition base_zone :: "(string \<Rightarrow> IP option) \<Rightarrow> State \<Rightarrow> string \<Rightarrow> Func \<Rightarrow> zone_entry set" where
  "base_zone resolve sj domain spec =
     (\<Union>f\<in>set (State_Frameworks sj). framework_zone resolve domain spec f) \<union>
     (\<Union>s\<in>set (State_Slaves sj). slave_zone resolve domain s)"

text \<open>Frameworks, slaves and masters; a framework may already publish addresses under \<open>master.domain\<close>.\<close>

definition infra_zone ::
  "(string \<Rightarrow> IP option) \<Rightarrow> State \<Rightarrow> string \<Rightarrow> string list \<Rightarrow> Func \<Rightarrow> zone_entry set" where
  "infra_zone resolve sj domain masters spec =
     base_zone resolve sj domain spec \<union>
     master_zone {h. (A, master_all domain, h) \<in> base_zone resolve sj domain spec} domain masters (State_Leader sj)"

definition tasks_zone ::
  "(string \<Rightarrow> IP option) \<Rightarrow> State \<Rightarrow> string \<Rightarrow> string list \<Rightarrow> Func \<Rightarrow> zone_entry set" where
  "tasks_zone resolve sj domain ipSources spec =
     (\<Union>f\<in>set (State_Frameworks sj). \<Union>task\<in>set (Framework_Tasks f).
        task_zone spec domain ipSources (slave_ips resolve spec (State_Slaves sj)) f task)"

lemma zone_fresh: "zone (rg\<lparr>RG_SlaveIPs := [], RG_SRVs := Some [], RG_As := Some []\<rparr>) = {}"
  by (auto simp: zone_def hosts_of_def kind_rrs_def rrs_hosts_def rrs_get_def split: if_splits)

lemma gen_ok_fresh: "gen_ok (rg\<lparr>RG_SlaveIPs := [], RG_SRVs := Some [], RG_As := Some []\<rparr>)"
  using rr.invar_empty by (simp add: gen_ok_def)

lemma hosts_of_zone: "hosts_of k rg n = {h. (k, n, h) \<in> zone rg}"
  by (simp add: zone_def)

lemma InsertState_stages:
  assumes "InsertState resolve now sj domain ns masters ipSources spec rg = Some rg'"
  obtains rg3 rg4 where "gen_ok rg3" "zone rg3 = infra_zone resolve sj domain masters spec"
    "map_of (RG_SlaveIPs rg3) = slave_ips resolve spec (State_Slaves sj)" "RG_EnumData rg3 = RG_EnumData rg" "RG_Config rg3 = RG_Config rg"
    "taskRecords sj domain spec ipSources rg3 = Some rg4"
    "rg' = rg4\<lparr>RG_State := sj, RG_Config := (RG_Config rg4)\<lparr>Config_SOASerial := of_int now\<rparr>\<rparr>"
proof -
  let ?rg0 = "rg\<lparr>RG_SlaveIPs := [], RG_SRVs := Some [], RG_As := Some []\<rparr>"
  from assms obtain rg1 rg2 rg4 where r1: "frameworkRecords resolve sj domain spec ?rg0 = Some rg1"
    and r2: "slaveRecords resolve sj domain spec rg1 = Some rg2"
    and r4: "taskRecords sj domain spec ipSources (masterRecord domain masters (State_Leader sj) rg2) = Some rg4"
    and rg': "rg' = rg4\<lparr>RG_State := sj, RG_Config := (RG_Config rg4)\<lparr>Config_SOASerial := of_int now\<rparr>\<rparr>"
    by (auto simp: InsertState_def Let_def bind_eq_Some_conv)
  note z1 = frameworkRecords_zone [OF gen_ok_fresh r1]
  then have f1: "RG_SlaveIPs rg1 = []" "RG_EnumData rg1 = RG_EnumData rg" "RG_Config rg1 = RG_Config rg"
    by (auto dest: gen_frameD)
  have z2: "gen_ok rg2" "zone rg2 = base_zone resolve sj domain spec"
    using slaveRecords_zone [OF _ r2] z1 by (auto simp: base_zone_def zone_fresh)
  note i2 = slaveRecords_ips [OF r2 f1(1)]
  note z3 = masterRecord_zone [OF z2(1), of domain masters "State_Leader sj"]
  show ?thesis
    by (rule that [OF _ _ _ _ _ r4 rg'])
      (use z2 z3 i2 f1 slaveRecords_config [OF r2] gen_frameD [OF z3 [THEN conjunct2, THEN conjunct1]] in
        \<open>auto simp: infra_zone_def hosts_of_zone\<close>)
qed

lemma InsertState_facts:
  assumes "InsertState resolve now sj domain ns masters ipSources spec rg = Some rg'"
  defines "k \<equiv> length (ED_Frameworks (RG_EnumData rg))"
  shows "gen_ok rg'"
    and "zone rg' = infra_zone resolve sj domain masters spec \<union> tasks_zone resolve sj domain ipSources spec"
    and "RG_State rg' = sj" "Config_SOASerial (RG_Config rg') = of_int now"
    and "distinct (enum_recs k (RG_EnumData rg'))"
      "set (enum_recs k (RG_EnumData rg')) = zone rg' - infra_zone resolve sj domain masters spec"
      "enum_ids (RG_EnumData rg') = enum_ids (RG_EnumData rg) @
         live_forest (slave_ips resolve spec (State_Slaves sj)) (State_Frameworks sj)"
      "RG_Config rg' = (RG_Config rg)\<lparr>Config_SOASerial := of_int now\<rparr>"
proof -
  let ?infra = "infra_zone resolve sj domain masters spec"
  let ?ips = "slave_ips resolve spec (State_Slaves sj)"
  from InsertState_stages [OF assms(1)] obtain rg3 rg4 where 3: "gen_ok rg3" "zone rg3 = ?infra"
      "map_of (RG_SlaveIPs rg3) = ?ips" "RG_EnumData rg3 = RG_EnumData rg" "RG_Config rg3 = RG_Config rg"
    and r4: "taskRecords sj domain spec ipSources rg3 = Some rg4"
    and rg': "rg' = rg4\<lparr>RG_State := sj, RG_Config := (RG_Config rg4)\<lparr>Config_SOASerial := of_int now\<rparr>\<rparr>"
    by metis
  show "RG_State rg' = sj" "Config_SOASerial (RG_Config rg') = of_int now" by (simp_all add: rg')
  have "tasks_ok k ?infra ?ips rg3" using 3 by (simp add: tasks_ok_def enum_recs_def k_def)
  note z = taskRecords_zone [OF this r4]
  then show "gen_ok rg'" "zone rg' = ?infra \<union> tasks_zone resolve sj domain ipSources spec"
    "distinct (enum_recs k (RG_EnumData rg'))" "set (enum_recs k (RG_EnumData rg')) = zone rg' - ?infra"
    "enum_ids (RG_EnumData rg') = enum_ids (RG_EnumData rg) @ live_forest ?ips (State_Frameworks sj)"
    using 3 by (auto simp: rg' tasks_zone_def tasks_ok_def)
  show "RG_Config rg' = (RG_Config rg)\<lparr>Config_SOASerial := of_int now\<rparr>" using z 3(5) by (simp add: rg')
qed

section \<open>When the generator returns\<close>

text \<open>
  The states whose insertion does not panic: every slave has a PID, every range list of ports
  parses and the label function is defined on every name of the state.
\<close>

definition task_insertable :: "Func \<Rightarrow> Task \<Rightarrow> bool" where
  "task_insertable spec task \<longleftrightarrow>
     spec (Task_Name task) \<noteq> None \<and> spec (DiscoveryInfo_Name (Task_DiscoveryInfo task)) \<noteq> None \<and>
     Ports (Task_Resources task) \<noteq> None \<and>
     list_all (\<lambda>p. spec (DiscoveryPort_Protocol p) \<noteq> None \<and> spec (DiscoveryPort_Name p) \<noteq> None)
       (DiscoveryInfo_Ports (Task_DiscoveryInfo task))"

definition insertable :: "(string \<Rightarrow> IP option) \<Rightarrow> Func \<Rightarrow> State \<Rightarrow> bool" where
  "insertable resolve spec sj \<longleftrightarrow>
     spec [] \<noteq> None \<and>
     list_all (\<lambda>f. DomainFrag (Framework_Name f) Sep spec \<noteq> None \<and>
       list_all (task_insertable spec) (Framework_Tasks f)) (State_Frameworks sj) \<and>
     list_all (\<lambda>s. slave_address resolve spec s \<noteq> None) (State_Slaves sj)"

lemma context_body_total:
  assumes "task_insertable spec task" "spec [] \<noteq> None"
  shows "context_body taskName taskIP slaveIP fname tail canonical arec task spec ports s \<noteq> None"
proof -
  have port: "\<exists>s'. port_srv taskName fname tail subs slaveHost spec port s = Some s'" for subs slaveHost port s
    unfolding port_srv_def
    by (intro chain_totalD chain_total_withProtocol chain_total_withSubdomains chain_total_asSRV)
      (use assms(2) in \<open>simp add: protocolNone_def\<close>)
  have disc: "\<exists>s'. discovery_srv taskName fname tail canonical spec port s = Some s'"
    if "port \<in> set (DiscoveryInfo_Ports (Task_DiscoveryInfo task))" for port s
  proof -
    let ?target = "canonical @ tail @ '':'' @ Itoa (DiscoveryPort_Number port)"
    have p: "spec (DiscoveryPort_Protocol port) \<noteq> None" "spec (DiscoveryPort_Name port) \<noteq> None"
      using assms(1) that by (auto simp: task_insertable_def list_all_iff)
    from chain_total_withNamedPort [where spec = spec, OF chain_total_asSRV [of put_srv tail ?target] p(2)]
    obtain c where "withNamedPort (DiscoveryPort_Name port) spec (asSRV put_srv tail ?target) = Some c" "chain_total c"
      by blast
    then show ?thesis
      using chain_totalD [OF chain_total_withProtocol [where spec = spec, OF _ p(1)], of c]
      by (simp add: discovery_srv_def del: split_paired_Ex)
  qed
  let ?fold = "fold_opt (port_srv taskName fname tail (if HasDiscoveryInfo task then [''slave''] else [''slave'', domainNone])
             (canonical @ ''.slave'' @ tail) spec) ports (context_As arec canonical tail taskIP slaveIP s)"
  have "\<exists>s5. ?fold = Some s5" by (rule fold_opt_total) (rule port)
  then obtain s5 where "?fold = Some s5" by blast
  moreover have "\<exists>s'. fold_opt (discovery_srv taskName fname tail canonical spec)
      (DiscoveryInfo_Ports (Task_DiscoveryInfo task)) s5 = Some s'"
    by (rule fold_opt_total) (rule disc)
  ultimately show ?thesis by (auto simp: context_body_def)
qed

lemma taskContextRecord_total:
  assumes "task_insertable spec task" "spec [] \<noteq> None" "DomainFrag (Framework_Name f) Sep spec \<noteq> None"
  shows "\<exists>s'. taskContextRecord ctx task f domain spec s = Some s'"
proof -
  obtain fname ports where "DomainFrag (Framework_Name f) Sep spec = Some fname" "Ports (Task_Resources task) = Some ports"
    using assms by (auto simp: task_insertable_def)
  then show ?thesis
    using context_body_total [OF assms(1,2)] by (simp only: taskContextRecord_eq bind.simps) auto
qed

lemma task_step_total:
  assumes "task_insertable spec task" "spec [] \<noteq> None" "DomainFrag (Framework_Name f) Sep spec \<noteq> None"
  shows "\<exists>s'. task_step f domain spec ipSources task s = Some s'"
proof -
  have t: "\<exists>s'. taskContextRecord ctx (task\<lparr>Task_SlaveIP := ip\<rparr>) f domain spec s = Some s'" for ip ctx s
    by (rule taskContextRecord_total) (use assms in \<open>auto simp: task_insertable_def\<close>)
  have "\<exists>s'. taskRecord (task\<lparr>Task_SlaveIP := ip\<rparr>) f domain spec ipSources s = Some s'" for ip
  proof -
    obtain tn dn where n: "spec (Task_Name task) = Some tn" "spec (DiscoveryInfo_Name (Task_DiscoveryInfo task)) = Some dn"
      using assms(1) by (auto simp: task_insertable_def)
    obtain rg ef where s: "s = (rg, ef)" by (cases s)
    let ?t0 = "\<lparr>ET_Name = Task_Name task, ET_ID = Task_ID task, ET_Records = []\<rparr>"
    let ?ctx = "task_ctx spec ipSources (task\<lparr>Task_SlaveIP := ip\<rparr>)"
    obtain u where u: "taskContextRecord ?ctx (task\<lparr>Task_SlaveIP := ip\<rparr>) f domain spec (rg, ?t0) = Some u"
      using t by blast
    obtain v where v: "taskContextRecord (?ctx\<lparr>ctx_taskName := DiscoveryInfo_Name (Task_DiscoveryInfo task)\<rparr>)
        (task\<lparr>Task_SlaveIP := ip\<rparr>) f domain spec (rg, ?t0) = Some v" using t by blast
    obtain w where w: "taskContextRecord (?ctx\<lparr>ctx_taskName := dn\<rparr>) (task\<lparr>Task_SlaveIP := ip\<rparr>) f domain spec v = Some w"
      using t by blast
    show ?thesis
      using u v w n by (cases u; cases w) (simp add: s taskRecord_def task_ctx_def lab_def Let_def HasDiscoveryInfo_def)
  qed
  then show ?thesis by (auto simp: task_step_def split: option.split)
qed

lemma InsertState_returns:
  assumes "insertable resolve spec sj"
  shows "\<exists>rg'. InsertState resolve now sj domain ns masters ipSources spec rg = Some rg'"
proof -
  have "\<exists>r'. framework_record resolve domain spec f r = Some r'" if "f \<in> set (State_Frameworks sj)" for f r
    using assms that by (fastforce simp: insertable_def list_all_iff framework_record_def Let_def case_prod_beta)
  then obtain rg1 where 1: "frameworkRecords resolve sj domain spec
      (rg\<lparr>RG_SlaveIPs := [], RG_SRVs := Some [], RG_As := Some []\<rparr>) = Some rg1"
    using fold_opt_total [of "State_Frameworks sj"] by (metis frameworkRecords_def)
  have "\<exists>r'. slave_record resolve domain spec s r = Some r'" if "s \<in> set (State_Slaves sj)" for s r
  proof -
    have "slave_address resolve spec s \<noteq> None" using assms that by (simp add: insertable_def list_all_iff)
    then show ?thesis
      by (cases "Slave_PID s"; cases "snd (hostToIP4 resolve (UPID_Host (the (Slave_PID s))))")
        (auto simp: slave_record_def slave_address_def Let_def case_prod_beta)
  qed
  then obtain rg2 where 2: "slaveRecords resolve sj domain spec rg1 = Some rg2"
    using fold_opt_total [of "State_Slaves sj"] by (metis slaveRecords_def)
  have "\<exists>r'. framework_tasks domain spec ipSources f r = Some r'" if "f \<in> set (State_Frameworks sj)" for f r
  proof -
    have "\<exists>s'. fold_opt (task_step f domain spec ipSources) (Framework_Tasks f) s = Some s'" for s
      by (rule fold_opt_total, rule task_step_total) (use assms that in \<open>auto simp: insertable_def list_all_iff\<close>)
    then obtain s' where "fold_opt (task_step f domain spec ipSources) (Framework_Tasks f)
        (r, \<lparr>EF_Tasks = [], EF_Name = Framework_Name f\<rparr>) = Some s'" by blast
    then show ?thesis by (cases s') (simp add: framework_tasks_def)
  qed
  then obtain rg4 where 4: "taskRecords sj domain spec ipSources
      (masterRecord domain masters (State_Leader sj) rg2) = Some rg4"
    using fold_opt_total [of "State_Frameworks sj"] by (metis taskRecords_def)
  show ?thesis using 1 2 4 by (simp add: InsertState_def)
qed

section \<open>Names of a task\<close>

definition task_label :: "Func \<Rightarrow> Task \<Rightarrow> string" where
  "task_label spec task =
     lab spec (if HasDiscoveryInfo task then DiscoveryInfo_Name (Task_DiscoveryInfo task) else Task_Name task)"

definition canonical_name :: "Func \<Rightarrow> Task \<Rightarrow> string \<Rightarrow> string" where
  "canonical_name spec task fname =
     task_label spec task @ ''-'' @ hashString (Task_ID task) @ ''-'' @ slaveIDTail (Task_SlaveID task) @ ''.'' @ fname"

lemma Ports_update [simp]: "Task_Resources (task\<lparr>Task_SlaveIP := ip\<rparr>) = Task_Resources task"
  "HasDiscoveryInfo (task\<lparr>Task_SlaveIP := ip\<rparr>) = HasDiscoveryInfo task"
  by (simp_all add: HasDiscoveryInfo_def)

lemma task_zone_context:
  assumes "live ips task" "ips (Task_SlaveID task) = Some sip"
    "DomainFrag (Framework_Name f) Sep spec = Some fname" "Ports (Task_Resources task) = Some ports"
  shows "context_body_zone (task_label spec task) (Task_IP (task\<lparr>Task_SlaveIP := sip\<rparr>) ipSources) sip fname
      (''.'' @ domain @ ''.'') (canonical_name spec task fname) (task_label spec task @ ''.'' @ fname)
      (task\<lparr>Task_SlaveIP := sip\<rparr>) spec ports
    \<subseteq> task_zone spec domain ipSources ips f task"
proof -
  let ?task = "task\<lparr>Task_SlaveIP := sip\<rparr>"
  let ?ctx = "(task_ctx spec ipSources ?task)\<lparr>ctx_taskName := task_label spec task\<rparr>"
  have "context_zone spec domain ?ctx ?task f \<subseteq> task_zone spec domain ipSources ips f task"
    using assms(1,2)
    by (auto simp: task_zone_def task_record_zone_def task_label_def task_ctx_def Let_def)
  then show ?thesis
    using context_zone_eq [of f spec fname ?task ports domain ?ctx] assms(3,4)
    by (simp add: canonical_name_def task_ctx_def)
qed

section \<open>Service records lead to address records\<close>

text \<open>
  In a resolvable set of records the target of every SRV record is a host with an A record
  in the set, and a port.
\<close>

definition srv_target :: "zone_entry set \<Rightarrow> string \<Rightarrow> bool" where
  "srv_target Z t \<longleftrightarrow> (\<exists>host port ip. t = host @ '':'' @ port \<and> (A, host, ip) \<in> Z)"

definition resolvable :: "zone_entry set \<Rightarrow> bool" where
  "resolvable Z \<longleftrightarrow> (\<forall>n t. (SRV, n, t) \<in> Z \<longrightarrow> srv_target Z t)"

lemma srv_target_mono: "srv_target Y t \<Longrightarrow> Y \<subseteq> Z \<Longrightarrow> srv_target Z t"
  unfolding srv_target_def by blast

lemma resolvable_Un: "resolvable Y \<Longrightarrow> resolvable Z \<Longrightarrow> resolvable (Y \<union> Z)"
  using srv_target_mono unfolding resolvable_def by (metis Un_iff Un_upper1 Un_upper2)

lemma resolvable_UN: "(\<And>x. x \<in> X \<Longrightarrow> resolvable (Z x)) \<Longrightarrow> resolvable (\<Union>x\<in>X. Z x)"
  using srv_target_mono UN_upper unfolding resolvable_def by (metis UN_iff)

lemma resolvable_empty [simp]: "resolvable {}"
  by (simp add: resolvable_def)

lemma resolvable_to:
  assumes "(A, host, ip) \<in> Z" "\<And>n t. (SRV, n, t) \<in> Z \<Longrightarrow> \<exists>port. t = host @ '':'' @ port"
  shows "resolvable Z"
  using assms unfolding resolvable_def srv_target_def by metis

lemma hostToIP4_True: "hostToIP4 resolve host = (address, True) \<Longrightarrow> address \<noteq> []"
  by (auto simp: hostToIP4_def split: option.splits)

lemma JoinHostPort_name:
  "CHR '':'' \<notin> set host \<Longrightarrow> CHR ''%'' \<notin> set host \<Longrightarrow> JoinHostPort host port = host @ '':'' @ port"
  by (simp add: JoinHostPort_def)

abbreviation host_safe :: "string \<Rightarrow> bool" where
  "host_safe s \<equiv> CHR '':'' \<notin> set s \<and> CHR ''%'' \<notin> set s"

lemma DomainFrag_host_safe:
  assumes "spec \<in> {RFC952, RFC1123}" "DomainFrag name Sep spec = Some d"
  shows "host_safe d"
proof -
  have "\<not> ldh (CHR '':'')" "\<not> ldh (CHR ''%'')" by code_simp+
  then show ?thesis using assms rfc952.frag_bytes rfc1123.frag_bytes by fastforce
qed

lemma resolvable_framework:
  assumes "spec \<in> {RFC952, RFC1123}" "host_safe domain"
  shows "resolvable (framework_zone resolve domain spec f)"
proof (cases "DomainFrag (Framework_Name f) Sep spec")
  case (Some fname)
  let ?a = "fname @ ''.'' @ domain @ ''.''"
  obtain host port address ok where h: "HostPort f = (host, port)" "hostToIP4 resolve host = (address, ok)" by force
  have safe: "host_safe ?a" using assms DomainFrag_host_safe [OF assms(1) Some] by simp
  show ?thesis
  proof (cases ok)
    case True
    then have "address \<noteq> []" using h hostToIP4_True by simp
    then show ?thesis
      using Some h True JoinHostPort_name [of ?a port] safe
      by (intro resolvable_to [of ?a address]) (auto simp: framework_zone_def entry_def Let_def split: if_splits)
  qed (use Some h in \<open>simp add: framework_zone_def\<close>)
qed (simp add: framework_zone_def)

lemma resolvable_slave:
  assumes "host_safe domain"
  shows "resolvable (slave_zone resolve domain s)"
proof (cases "Slave_PID s")
  case (Some pid)
  let ?a = "''slave.'' @ domain @ ''.''"
  obtain address ok where h: "hostToIP4 resolve (UPID_Host pid) = (address, ok)" by force
  show ?thesis
  proof (cases ok)
    case True
    then have "address \<noteq> []" using h hostToIP4_True by simp
    then show ?thesis
      using Some h True JoinHostPort_name [of ?a "UPID_Port pid"] assms
      by (intro resolvable_to [of ?a address]) (auto simp: slave_zone_def entry_def Let_def split: if_splits)
  qed (use Some h in \<open>simp add: slave_zone_def\<close>)
qed (simp add: slave_zone_def)

lemma resolvable_master:
  assumes "\<And>la. leader_address leader = Some la \<Longrightarrow> proto_ip la \<noteq> []"
  shows "resolvable (master_zone seen domain masters leader)"
proof (cases "leader_address leader")
  case (Some la)
  have "(SRV, n, t) \<notin> numbered_zone domain ips" for n t ips
    by (auto simp: numbered_zone_def entry_def split: if_splits)
  then show ?thesis
    using assms Some
    by (intro resolvable_to [of "''leader.'' @ domain @ ''.''" "proto_ip la"])
      (auto simp: master_zone_def leader_zone_def entry_def Let_def case_prod_beta split: if_splits)
qed (simp add: master_zone_def)

lemma resolvable_context:
  assumes "taskIP \<noteq> []" "slaveIP \<noteq> []"
  shows "resolvable (context_body_zone taskName taskIP slaveIP fname tail canonical arec task spec ports)"
  unfolding resolvable_def srv_target_def
proof (intro allI impI)
  fix n t
  let ?Z = "context_body_zone taskName taskIP slaveIP fname tail canonical arec task spec ports"
  assume "(SRV, n, t) \<in> ?Z"
  then have "\<exists>port. t = (canonical @ ''.slave'' @ tail) @ '':'' @ port \<or> t = (canonical @ tail) @ '':'' @ port"
    by (auto simp: context_body_zone_def port_zone_def discovery_zone_def entry_def Let_def split: if_splits)
  moreover have "(A, canonical @ ''.slave'' @ tail, slaveIP) \<in> ?Z" "(A, canonical @ tail, taskIP) \<in> ?Z"
    using assms by (auto simp: context_body_zone_def entry_def)
  ultimately show "\<exists>host port ip. t = host @ '':'' @ port \<and> (A, host, ip) \<in> ?Z" by metis
qed

lemma resolvable_task:
  assumes "\<And>sip. ips (Task_SlaveID task) = Some sip \<Longrightarrow> sip \<noteq> [] \<and> Task_IP (task\<lparr>Task_SlaveIP := sip\<rparr>) ipSources \<noteq> []"
  shows "resolvable (task_zone spec domain ipSources ips f task)"
proof (cases "live ips task")
  case True
  then obtain sip where sip: "ips (Task_SlaveID task) = Some sip" by (auto simp: live_def)
  let ?task = "task\<lparr>Task_SlaveIP := sip\<rparr>"
  have ctx: "resolvable (context_zone spec domain ((task_ctx spec ipSources ?task)\<lparr>ctx_taskName := nm\<rparr>) ?task f)" for nm
  proof (cases "DomainFrag (Framework_Name f) Sep spec = None \<or> Ports (Task_Resources task) = None")
    case True
    then show ?thesis by (auto simp: context_zone_def split: option.splits)
  next
    case False
    then obtain fname ports where "DomainFrag (Framework_Name f) Sep spec = Some fname" "Ports (Task_Resources ?task) = Some ports"
      by auto
    then show ?thesis
      using assms [OF sip] by (simp only: context_zone_eq) (auto intro!: resolvable_context simp: task_ctx_def)
  qed
  have "(task_ctx spec ipSources ?task)\<lparr>ctx_taskName := lab spec (Task_Name task)\<rparr> = task_ctx spec ipSources ?task"
    by (simp add: task_ctx_def)
  then have "resolvable (context_zone spec domain (task_ctx spec ipSources ?task) ?task f)"
    using ctx [of "lab spec (Task_Name task)"] by simp
  then show ?thesis
    using True sip ctx by (auto simp: task_zone_def task_record_zone_def Let_def intro: resolvable_Un)
qed (simp add: task_zone_def)

text \<open>The records of a running task on a known slave are part of the zone.\<close>

lemma running_task_zone:
  assumes "InsertState resolve now sj domain ns masters ipSources spec rg = Some rg'"
    and "f \<in> set (State_Frameworks sj)" "task \<in> set (Framework_Tasks f)"
    and "Task_State task = ''TASK_RUNNING''"
    and "slave_ips resolve spec (State_Slaves sj) (Task_SlaveID task) = Some sip"
    and "DomainFrag (Framework_Name f) Sep spec = Some fname"
    and "Ports (Task_Resources task) = Some ports"
  shows "context_body_zone (task_label spec task) (Task_IP (task\<lparr>Task_SlaveIP := sip\<rparr>) ipSources) sip fname
      (''.'' @ domain @ ''.'') (canonical_name spec task fname) (task_label spec task @ ''.'' @ fname)
      (task\<lparr>Task_SlaveIP := sip\<rparr>) spec ports
    \<subseteq> zone rg'"
proof -
  have "live (slave_ips resolve spec (State_Slaves sj)) task" using assms(4,5) by (simp add: live_def)
  from task_zone_context [OF this assms(5-7), of ipSources domain] show ?thesis
    using assms(2,3) InsertState_facts(2) [OF assms(1)] unfolding tasks_zone_def by blast
qed

text \<open>Every host port of a running task has service records for both protocols.\<close>

lemma running_task_srv:
  assumes "InsertState resolve now sj domain ns masters ipSources spec rg = Some rg'"
    and "f \<in> set (State_Frameworks sj)" "task \<in> set (Framework_Tasks f)"
    and "Task_State task = ''TASK_RUNNING''"
    and "slave_ips resolve spec (State_Slaves sj) (Task_SlaveID task) = Some sip"
    and "DomainFrag (Framework_Name f) Sep spec = Some fname"
    and "Ports (Task_Resources task) = Some ports" "spec [] = Some []"
    and "port \<in> set ports" "proto \<in> {''tcp'', ''udp''}"
  shows "(canonical_name spec task fname @ ''.slave'' @ ''.'' @ domain @ ''.'') @ '':'' @ port \<in>
    hosts_of SRV rg' (''_'' @ task_label spec task @ ''._'' @ proto @ ''.'' @ fname @ ''.slave'' @ ''.'' @ domain @ ''.'')"
proof -
  let ?tail = "''.'' @ domain @ ''.''"
  have "proto \<in> protocols spec protocolNone"
    using assms(8,10) by (auto simp: protocols_def lab_def protocolNone_def)
  moreover have "''slave'' \<in> set (if HasDiscoveryInfo (task\<lparr>Task_SlaveIP := sip\<rparr>) then [''slave''] else [''slave'', domainNone])"
    by simp
  ultimately have "(SRV, srv_name (task_label spec task) proto fname @ ''.slave'' @ ?tail,
      (canonical_name spec task fname @ ''.slave'' @ ?tail) @ '':'' @ port) \<in>
    context_body_zone (task_label spec task) (Task_IP (task\<lparr>Task_SlaveIP := sip\<rparr>) ipSources) sip fname
      ?tail (canonical_name spec task fname) (task_label spec task @ ''.'' @ fname) (task\<lparr>Task_SlaveIP := sip\<rparr>) spec ports"
    using assms(9) by (force simp: context_body_zone_def port_zone_def entry_def domainNone_def)
  then show ?thesis using running_task_zone [OF assms(1-7)] by (auto simp: mem_zone [symmetric] srv_name_def)
qed

section \<open>An example cluster\<close>

text \<open>One framework with one running task, one slave and one master, as in the tests of the generator.\<close>

definition demo_task :: Task where
  "demo_task = \<lparr>Task_FrameworkID = ''fw'', Task_ID = ''nginx.1'', Task_Name = ''nginx'', Task_SlaveID = ''s-1'',
     Task_State = ''TASK_RUNNING'', Task_Statuses = [], Task_Resources = \<lparr>PortRanges = ''[31000-31001]''\<rparr>,
     Task_DiscoveryInfo = \<lparr>DiscoveryInfo_Visibilty = [], DiscoveryInfo_Version = [], DiscoveryInfo_Name = [],
       DiscoveryInfo_Location = [], DiscoveryInfo_Environment = [], DiscoveryInfo_Labels = [], DiscoveryInfo_Ports = []\<rparr>,
     Task_SlaveIP = [], Task_Labels = []\<rparr>"

definition demo_framework :: Framework where
  "demo_framework = \<lparr>Framework_Tasks = [demo_task], Framework_PID = None, Framework_Name = ''Marathon'',
     Framework_Hostname = ''1.2.3.11'', Framework_Active = True\<rparr>"

definition demo_slave :: Slave where
  "demo_slave = \<lparr>Slave_ID = ''s-1'', Slave_Hostname = ''1.2.3.11'',
     Slave_PID = Some \<lparr>UPID_ID = ''slave(1)'', UPID_Host = ''1.2.3.11'', UPID_Port = ''5051''\<rparr>,
     Slave_Attrs = \<lparr>Attributes_DC = [], Attributes_Master = [], Attributes_Rack = []\<rparr>, Slave_Active = True\<rparr>"

definition demo_state :: State where
  "demo_state = \<lparr>State_Frameworks = [demo_framework], State_Slaves = [demo_slave],
     State_Leader = ''master@1.2.3.4:5050''\<rparr>"

lemma demo_parse: "ParseIP ''1.2.3.11'' = Some (v4InV6Prefix @ [1, 2, 3, 11])"
  and demo_print: "IP_String (v4InV6Prefix @ [1, 2, 3, 11]) = ''1.2.3.11''"
proof -
  have d: "dotted [1, 2, 3, 11] = ''1.2.3.11''" by (simp add: dotted_def digits.simps char_of_digit)
  show "ParseIP ''1.2.3.11'' = Some (v4InV6Prefix @ [1, 2, 3, 11])"
    using ParseIP_dotted [of 1 2 3 11] by (simp only: d)
  show "IP_String (v4InV6Prefix @ [1, 2, 3, 11]) = ''1.2.3.11''"
    using d by (simp add: IP_String_def To4_def v4InV6Prefix_def)
qed

lemma demo_ip: "hostToIP4 resolve ''1.2.3.11'' = (''1.2.3.11'', True)"
  by (simp add: hostToIP4_def demo_parse demo_print [unfolded One_nat_def])

lemma demo_task_ip: "Task_IP (demo_task\<lparr>Task_SlaveIP := ''1.2.3.11''\<rparr>) [''host''] = ''1.2.3.11''"
  by (simp add: Task_IP_def Task_IPs_def sources_def hostIPs_def map_filter_simps demo_parse demo_print [unfolded One_nat_def])

lemma demo_names: "DomainFrag ''Marathon'' Sep RFC1123 = Some ''marathon''" "RFC1123 ''nginx'' = Some ''nginx''"
  "RFC1123 [] = Some []"
  by code_simp+

lemma demo_ports: "Ports \<lparr>PortRanges = ''[31000-31001]''\<rparr> = Some [''31000'', ''31001'']"
  using Ports_print [of "[(31000, 31001)]"] by (simp add: print_range_def Itoa_eval max_int64_def)

lemma demo_slave_ips: "slave_ips resolve RFC1123 (State_Slaves demo_state) ''s-1'' = Some ''1.2.3.11''"
  by (simp add: slave_ips_def slave_address_def demo_state_def demo_slave_def demo_ip)

abbreviation demo_insert :: "RecordGenerator option" where
  "demo_insert \<equiv> InsertState (\<lambda>_. None) 7 demo_state ''mesos'' [] [] [''host''] RFC1123 (NewRecordGenerator (NewConfig 0))"

lemma demo_insertable: "insertable resolve RFC1123 demo_state"
  by (simp add: insertable_def task_insertable_def demo_state_def demo_framework_def demo_task_def demo_ports
      demo_names slave_address_def demo_slave_def demo_ip)

section \<open>Properties\<close>

text \<open>C1: \<open>InsertState\<close> builds exactly the records the state calls for: those of every framework,
  slave and master and of every running task on a known slave, nothing else and nothing from
  an earlier state; the record maps stay well formed, the state is stored and the SOA
  serial number is the current time.\<close>

theorem InsertState_zone:
  assumes "InsertState resolve now sj domain ns masters ipSources spec rg = Some rg'"
  shows "gen_ok rg'
    \<and> zone rg' = infra_zone resolve sj domain masters spec \<union> tasks_zone resolve sj domain ipSources spec
    \<and> RG_State rg' = sj \<and> Config_SOASerial (RG_Config rg') = of_int now"
  using InsertState_facts(1-4) [OF assms] by blast

theorem InsertState_zone_witness:
  "\<exists>rg'. demo_insert = Some rg' \<and> gen_ok rg'
     \<and> zone rg' = infra_zone (\<lambda>_. None) demo_state ''mesos'' [] RFC1123
         \<union> tasks_zone (\<lambda>_. None) demo_state ''mesos'' [''host''] RFC1123
     \<and> Config_SOASerial (RG_Config rg') = 7"
proof -
  obtain rg' where r: "demo_insert = Some rg'" using InsertState_returns [OF demo_insertable] by blast
  show ?thesis using InsertState_zone [OF r] r by auto
qed

text \<open>C7: the enumeration data lists the frameworks of the state in order, under each the running
  tasks on known slaves in order, and under the tasks every record of the zone that is not
  a framework, slave or master record, exactly once.\<close>

theorem InsertState_enumerates:
  assumes "InsertState resolve now sj domain ns masters ipSources spec rg = Some rg'"
    and "ED_Frameworks (RG_EnumData rg) = []"
  shows "enum_ids (RG_EnumData rg') = live_forest (slave_ips resolve spec (State_Slaves sj)) (State_Frameworks sj)
    \<and> distinct (enum_recs 0 (RG_EnumData rg'))
    \<and> set (enum_recs 0 (RG_EnumData rg')) = zone rg' - infra_zone resolve sj domain masters spec"
  using InsertState_facts(5-7) [OF assms(1)] assms(2) by (simp add: enum_ids_def)

theorem InsertState_enumerates_witness:
  "\<exists>rg'. demo_insert = Some rg' \<and> enum_ids (RG_EnumData rg') = [(''Marathon'', [(''nginx'', ''nginx.1'')])]
     \<and> distinct (enum_recs 0 (RG_EnumData rg'))"
proof -
  obtain rg' where r: "demo_insert = Some rg'" using InsertState_returns [OF demo_insertable] by blast
  have "live_forest (slave_ips (\<lambda>_. None) RFC1123 (State_Slaves demo_state)) (State_Frameworks demo_state)
      = [(''Marathon'', [(''nginx'', ''nginx.1'')])]"
    using demo_slave_ips [of "\<lambda>_. None"]
    by (simp add: live_forest_def live_ids_def live_def demo_framework_def demo_task_def, simp add: demo_state_def
        demo_framework_def demo_task_def live_def)
  then show ?thesis using InsertState_enumerates [OF r] r by (simp add: NewRecordGenerator_def)
qed

text \<open>C10: \<open>InsertState\<close> returns, without a panic, on every state in which each slave has a PID,
  each list of port ranges parses and the label function is defined on the names.\<close>

theorem InsertState_total:
  assumes "insertable resolve spec sj"
  shows "\<exists>rg'. InsertState resolve now sj domain ns masters ipSources spec rg = Some rg'"
  using assms by (rule InsertState_returns)

theorem InsertState_total_witness: "\<exists>rg'. demo_insert = Some rg'"
  using InsertState_total [OF demo_insertable] by blast

text \<open>C8: a running task on a known slave is published: its plain and its canonical name resolve to
  the task's address, the same names below \<open>.slave\<close> to the slave's address, and every host
  port of the task has TCP and UDP service records that point to the canonical slave name
  and that port.\<close>

theorem running_task_published:
  assumes "InsertState resolve now sj domain ns masters ipSources spec rg = Some rg'"
    and "f \<in> set (State_Frameworks sj)" "task \<in> set (Framework_Tasks f)"
    and "Task_State task = ''TASK_RUNNING''"
    and "slave_ips resolve spec (State_Slaves sj) (Task_SlaveID task) = Some sip"
    and "DomainFrag (Framework_Name f) Sep spec = Some fname"
    and "Ports (Task_Resources task) = Some ports" and "spec [] = Some []"
    and tail_def: "tail = ''.'' @ domain @ ''.''"
    and taskIP_def: "taskIP = Task_IP (task\<lparr>Task_SlaveIP := sip\<rparr>) ipSources"
    and name_def: "name = task_label spec task @ ''.'' @ fname"
    and canonical_def: "canonical = canonical_name spec task fname"
  shows "(taskIP = [] \<or> taskIP \<in> hosts_of A rg' (name @ tail) \<inter> hosts_of A rg' (canonical @ tail))
    \<and> (sip = [] \<or> sip \<in> hosts_of A rg' (name @ ''.slave'' @ tail) \<inter> hosts_of A rg' (canonical @ ''.slave'' @ tail))
    \<and> list_all (\<lambda>port. canonical @ ''.slave'' @ tail @ '':'' @ port \<in>
        hosts_of SRV rg' (''_'' @ task_label spec task @ ''._tcp.'' @ fname @ ''.slave'' @ tail) \<inter>
        hosts_of SRV rg' (''_'' @ task_label spec task @ ''._udp.'' @ fname @ ''.slave'' @ tail)) ports"
proof -
  let ?Z = "context_body_zone (task_label spec task) taskIP sip fname tail canonical name (task\<lparr>Task_SlaveIP := sip\<rparr>) spec ports"
  have Z: "?Z \<subseteq> zone rg'"
    unfolding tail_def taskIP_def name_def canonical_def by (rule running_task_zone [OF assms(1-7)])
  have A: "entry A n h \<subseteq> ?Z \<Longrightarrow> h = [] \<or> h \<in> hosts_of A rg' n" for n h
    using Z by (auto simp: entry_def mem_zone [symmetric] split: if_splits)
  have As: "entry A (name @ tail) taskIP \<subseteq> ?Z" "entry A (canonical @ tail) taskIP \<subseteq> ?Z"
    "entry A (name @ ''.slave'' @ tail) sip \<subseteq> ?Z" "entry A (canonical @ ''.slave'' @ tail) sip \<subseteq> ?Z"
    unfolding context_body_zone_def by blast+
  have "canonical @ ''.slave'' @ tail @ '':'' @ port \<in>
      hosts_of SRV rg' (''_'' @ task_label spec task @ ''._'' @ proto @ ''.'' @ fname @ ''.slave'' @ tail)"
    if "port \<in> set ports" "proto \<in> {''tcp'', ''udp''}" for port proto
    using running_task_srv [OF assms(1-8) that] unfolding tail_def canonical_def by simp
  from this [of _ "''tcp''"] this [of _ "''udp''"] A [OF As(1)] A [OF As(2)] A [OF As(3)] A [OF As(4)]
  show ?thesis by (auto simp: list_all_iff)
qed

theorem running_task_published_witness:
  "\<exists>rg'. demo_insert = Some rg'
     \<and> ''1.2.3.11'' \<in> hosts_of A rg' ''nginx.marathon.mesos.''
     \<and> canonical_name RFC1123 demo_task ''marathon'' @ ''.slave.mesos.:31001''
         \<in> hosts_of SRV rg' ''_nginx._tcp.marathon.slave.mesos.''"
proof -
  obtain rg' where r: "demo_insert = Some rg'" using InsertState_returns [OF demo_insertable] by blast
  have f: "demo_framework \<in> set (State_Frameworks demo_state)" "demo_task \<in> set (Framework_Tasks demo_framework)"
    by (simp_all add: demo_state_def demo_framework_def)
  have t: "Task_State demo_task = ''TASK_RUNNING''" "Task_SlaveID demo_task = ''s-1''"
    "Ports (Task_Resources demo_task) = Some [''31000'', ''31001'']"
    by (simp_all add: demo_task_def demo_ports)
  have fname: "DomainFrag (Framework_Name demo_framework) Sep RFC1123 = Some ''marathon''"
    by (simp add: demo_framework_def demo_names)
  have label: "task_label RFC1123 demo_task = ''nginx''"
    by (simp add: task_label_def demo_task_def HasDiscoveryInfo_def lab_def demo_names)
  from running_task_published [OF r f t(1) _ fname t(3) demo_names(3) refl refl refl refl, of "''1.2.3.11''"]
  show ?thesis using r demo_slave_ips by (simp add: t label demo_task_ip)
qed

text \<open>C9: every SRV record of the zone leads somewhere: when the leader and the tasks have addresses,
  its target is a host name with an A record in the same zone, a colon and a port.\<close>

theorem srv_targets_resolve:
  assumes "InsertState resolve now sj domain ns masters ipSources spec rg = Some rg'"
    and "spec \<in> {RFC952, RFC1123}" and "host_safe domain"
    and "\<forall>f\<in>set (State_Frameworks sj). \<forall>task\<in>set (Framework_Tasks f). \<forall>sip.
      slave_ips resolve spec (State_Slaves sj) (Task_SlaveID task) = Some sip \<longrightarrow>
      sip \<noteq> [] \<and> Task_IP (task\<lparr>Task_SlaveIP := sip\<rparr>) ipSources \<noteq> []"
    and "\<forall>la. leader_address (State_Leader sj) = Some la \<longrightarrow> proto_ip la \<noteq> []"
    and "t \<in> hosts_of SRV rg' n"
  shows "\<exists>host port. t = host @ '':'' @ port \<and> hosts_of A rg' host \<noteq> {}"
proof -
  have "resolvable (base_zone resolve sj domain spec)"
    unfolding base_zone_def
    by (intro resolvable_Un resolvable_UN resolvable_framework resolvable_slave assms)
  moreover have "resolvable (tasks_zone resolve sj domain ipSources spec)"
    unfolding tasks_zone_def using assms(4) by (intro resolvable_UN resolvable_task) blast
  ultimately have "resolvable (zone rg')"
    unfolding InsertState_facts(2) [OF assms(1)] infra_zone_def
    using assms(5) by (intro resolvable_Un resolvable_master) blast+
  then show ?thesis using assms(6) unfolding resolvable_def srv_target_def by (metis empty_iff mem_zone)
qed

theorem srv_targets_resolve_witness:
  "\<exists>rg'. demo_insert = Some rg' \<and>
     (\<exists>t\<in>hosts_of SRV rg' ''_slave._tcp.mesos.''. \<exists>host port. t = host @ '':'' @ port \<and> hosts_of A rg' host \<noteq> {})"
proof -
  obtain rg' where r: "demo_insert = Some rg'" using InsertState_returns [OF demo_insertable] by blast
  have tasks: "\<forall>f\<in>set (State_Frameworks demo_state). \<forall>task\<in>set (Framework_Tasks f). \<forall>sip.
      slave_ips (\<lambda>_. None) RFC1123 (State_Slaves demo_state) (Task_SlaveID task) = Some sip \<longrightarrow>
      sip \<noteq> [] \<and> Task_IP (task\<lparr>Task_SlaveIP := sip\<rparr>) [''host''] \<noteq> []"
  proof -
    have "State_Frameworks demo_state = [demo_framework]" "Framework_Tasks demo_framework = [demo_task]"
      "Task_SlaveID demo_task = ''s-1''"
      by (simp_all add: demo_state_def demo_framework_def demo_task_def)
    then show ?thesis using demo_slave_ips demo_task_ip by simp
  qed
  have leader: "\<forall>la. leader_address (State_Leader demo_state) = Some la \<longrightarrow> proto_ip la \<noteq> []"
  proof -
    have "leader_address ''master@1.2.3.4:5050'' = Some ''1.2.3.4:5050''" "proto_ip ''1.2.3.4:5050'' \<noteq> []"
      by code_simp+
    then show ?thesis by (simp add: demo_state_def)
  qed
  have "(SRV, ''_slave._tcp.mesos.'', JoinHostPort ''slave.mesos.'' ''5051'')
      \<in> slave_zone (\<lambda>_. None) ''mesos'' demo_slave"
    by (simp add: slave_zone_def demo_slave_def demo_ip entry_def JoinHostPort_def)
  then have "JoinHostPort ''slave.mesos.'' ''5051'' \<in> hosts_of SRV rg' ''_slave._tcp.mesos.''"
    using InsertState_facts(2) [OF r]
    by (simp add: mem_zone [symmetric] infra_zone_def base_zone_def) (simp add: demo_state_def)
  moreover from srv_targets_resolve [OF r _ _ tasks leader this]
  have "\<exists>host port. JoinHostPort ''slave.mesos.'' ''5051'' = host @ '':'' @ port \<and> hosts_of A rg' host \<noteq> {}" by simp
  ultimately show ?thesis using r by blast
qed

end
