(* ===== verification/Parse_State.thy ===== *)
theory Parse_State
  imports Insert_State
begin

text \<open>
  \<open>ParseState\<close>, \<open>findMaster\<close> and \<open>loadWrap\<close> of \<open>records/generator.go\<close>: where the state a
  generator inserts comes from, and what happens when masters fail.
\<close>

section \<open>Lemmas\<close>

lemma loadFromMaster_error:
  "loadFromMaster get decode ip port = (sj, Some e) \<Longrightarrow> sj = emptyState"
  by (auto simp: loadFromMaster_def split: sum.splits)

lemma emptyState_Leader [simp]: "State_Leader emptyState = []"
  by (simp add: emptyState_def)

text \<open>
  Every state with a leader that \<open>loadWrap\<close> or \<open>findMaster\<close> returns was loaded from some
  master: failed loads leave the empty state.
\<close>

definition loaded :: "loader \<Rightarrow> State \<Rightarrow> bool" where
  "loaded load sj \<longleftrightarrow> State_Leader sj = [] \<or> (\<exists>ip port. load ip port = (sj, None))"

definition clean :: "loader \<Rightarrow> bool" where
  "clean load \<longleftrightarrow> (\<forall>ip port sj e. load ip port = (sj, Some e) \<longrightarrow> State_Leader sj = [])"

lemma clean_loadFromMaster: "clean (loadFromMaster get decode)"
  using loadFromMaster_error unfolding clean_def by fastforce

lemma clean_loaded: "clean load \<Longrightarrow> loaded load (fst (load ip port))"
proof -
  assume c: "clean load"
  obtain sj err where "load ip port = (sj, err)" by force
  then show ?thesis using c by (cases err) (auto simp: loaded_def clean_def)
qed

lemma loadWrap_loaded:
  assumes "clean load" "loadWrap load ip port = Some (sj, err)"
  shows "loaded load sj"
proof -
  obtain s e where l: "load ip port = (s, e)" by force
  show ?thesis
  proof (cases e)
    case None
    with assms(2) l obtain rip where "leaderIP (State_Leader s) = Some rip" by (auto simp: loadWrap_def bind_eq_Some_conv)
    then show ?thesis
      using assms l None clean_loaded [OF assms(1), of ip port] clean_loaded [OF assms(1), of rip port]
      by (cases "rip = ip") (auto simp: loadWrap_def)
  next
    case (Some x)
    then show ?thesis using assms(2) l by (auto simp: loadWrap_def loaded_def)
  qed
qed

lemma find_loop_loaded:
  assumes "clean load" "find_loop load masters s = Some (sj, err)" "loaded load s"
  shows "loaded load sj"
  using assms(2,3)
proof (induction masters arbitrary: s)
  case (Cons master masters)
  obtain ip port e where p: "getProto master = (ip, port, e)" by (metis surj_pair)
  from Cons.prems(1) p obtain s1 e1 where w: "loadWrap load ip port = Some (s1, e1)"
    by (auto simp: bind_eq_Some_conv)
  note l = loadWrap_loaded [OF assms(1) w]
  show ?case using Cons p w l by (auto split: if_splits)
qed simp

lemma findMaster_loaded:
  assumes "clean load" "findMaster load masters = Some (sj, err)"
  shows "loaded load sj"
proof -
  have empty: "loaded load emptyState" by (simp add: loaded_def)
  show ?thesis
  proof (cases "masters = [] \<or> hd masters = []")
    case True
    then show ?thesis
      using assms empty find_loop_loaded [OF assms(1) _ empty] by (cases masters) (auto simp: findMaster_def)
  next
    case False
    then obtain m ms where m: "masters = m # ms" "m \<noteq> []" by (cases masters) auto
    obtain ip port e where p: "getProto m = (ip, port, e)" by (metis surj_pair)
    from assms(2) m p obtain s1 e1 where w: "loadWrap load ip port = Some (s1, e1)"
      by (auto simp: findMaster_def bind_eq_Some_conv)
    note l = loadWrap_loaded [OF assms(1) w]
    then show ?thesis
      using assms m p w find_loop_loaded [OF assms(1) _ l] by (auto simp: findMaster_def split: if_splits)
  qed
qed

section \<open>Properties\<close>

text \<open>C23: \<open>ParseState\<close> either reports an error and leaves the generator as it was, or inserts, with
  the configured domain, masters, IP sources and label rules, a state that some master
  returned and that names a leader.\<close>

theorem ParseState_correct:
  assumes "ParseState resolve (loadFromMaster get decode) now rg = Some (err, rg')"
  shows "case err of
      Some e \<Rightarrow> rg' = rg
    | None \<Rightarrow> \<exists>sj ip port. loadFromMaster get decode ip port = (sj, None) \<and> State_Leader sj \<noteq> []
        \<and> InsertState resolve now sj (Config_Domain (RG_Config rg)) (Config_SOARname (RG_Config rg))
            (Config_Masters (RG_Config rg)) (Config_IPSources (RG_Config rg))
            (if Config_EnforceRFC952 (RG_Config rg) then RFC952 else RFC1123) rg = Some rg'"
proof -
  from assms obtain sj e where f: "findMaster (loadFromMaster get decode) (Config_Masters (RG_Config rg)) = Some (sj, e)"
    by (auto simp: ParseState_def bind_eq_Some_conv)
  from findMaster_loaded [OF clean_loadFromMaster f] have l: "loaded (loadFromMaster get decode) sj" .
  show ?thesis
  proof (cases "e = None \<and> State_Leader sj \<noteq> []")
    case True
    then have "err = None" and "InsertState resolve now sj (Config_Domain (RG_Config rg)) (Config_SOARname (RG_Config rg))
        (Config_Masters (RG_Config rg)) (Config_IPSources (RG_Config rg)) (hostSpec (RG_Config rg)) rg = Some rg'"
      using assms f by (auto simp: ParseState_def Let_def bind_eq_Some_conv)
    moreover from l True obtain ip port where "loadFromMaster get decode ip port = (sj, None)"
      by (auto simp: loaded_def)
    ultimately show ?thesis
      using True by (simp only: option.case, intro exI [of _ sj] exI [of _ ip] exI [of _ port]) (simp add: hostSpec_def)
  next
    case False
    then show ?thesis using assms f by (auto simp: ParseState_def split: if_splits)
  qed
qed

definition demo_config :: Config where
  "demo_config = (NewConfig 0)\<lparr>Config_Masters := [''1.2.3.4:5050''], Config_IPSources := [''host'']\<rparr>"

definition demo_get :: "string \<Rightarrow> string \<Rightarrow> string + string" where
  "demo_get host path = (if host = ''1.2.3.4:5050'' then Inr ''{}'' else Inl ''refused'')"

abbreviation demo_load :: loader where
  "demo_load \<equiv> loadFromMaster demo_get (\<lambda>_. Inr demo_state)"

lemma demo_findMaster: "findMaster demo_load [''1.2.3.4:5050''] = Some (demo_state, None)"
proof -
  have g: "getProto ''1.2.3.4:5050'' = (''1.2.3.4'', ''5050'', None)"
    "leaderIP (State_Leader demo_state) = Some ''1.2.3.4''" "JoinHostPort ''1.2.3.4'' ''5050'' = ''1.2.3.4:5050''"
    "State_Leader demo_state \<noteq> []" by code_simp+
  have "demo_load ''1.2.3.4'' ''5050'' = (demo_state, None)"
    by (simp add: loadFromMaster_def demo_get_def g)
  then show ?thesis by (simp add: findMaster_def loadWrap_def g)
qed

lemma demo_ParseState:
  "\<exists>rg'. ParseState (\<lambda>_. None) demo_load 7 (NewRecordGenerator (demo_config\<lparr>Config_Resolvers := r\<rparr>)) = Some (None, rg')"
proof -
  let ?rg = "NewRecordGenerator (demo_config\<lparr>Config_Resolvers := r\<rparr>)"
  have c: "Config_Masters (RG_Config ?rg) = [''1.2.3.4:5050'']" "\<not> Config_EnforceRFC952 (RG_Config ?rg)"
    by (simp_all add: NewRecordGenerator_def demo_config_def NewConfig_def)
  obtain rg' where "InsertState (\<lambda>_. None) 7 demo_state (Config_Domain (RG_Config ?rg)) (Config_SOARname (RG_Config ?rg))
      [''1.2.3.4:5050''] (Config_IPSources (RG_Config ?rg)) RFC1123 ?rg = Some rg'" using InsertState_returns [OF demo_insertable] by blast
  then show ?thesis using c by (simp add: ParseState_def hostSpec_def demo_findMaster) (simp add: demo_state_def)
qed

theorem ParseState_correct_witness:
  "\<exists>rg'. ParseState (\<lambda>_. None) demo_load 7 (NewRecordGenerator demo_config) = Some (None, rg')
     \<and> (\<exists>sj. State_Leader sj \<noteq> [] \<and> InsertState (\<lambda>_. None) 7 sj ''mesos'' ''root.ns1.mesos'' [''1.2.3.4:5050''] [''host'']
          RFC1123 (NewRecordGenerator demo_config) = Some rg')"
proof -
  let ?rg = "NewRecordGenerator demo_config"
  have c: "Config_Masters (RG_Config ?rg) = [''1.2.3.4:5050'']" "Config_Domain (RG_Config ?rg) = ''mesos''"
    "Config_SOARname (RG_Config ?rg) = ''root.ns1.mesos''" "Config_IPSources (RG_Config ?rg) = [''host'']"
    "\<not> Config_EnforceRFC952 (RG_Config ?rg)"
    by (simp_all add: NewRecordGenerator_def demo_config_def NewConfig_def)
  obtain rg' where p: "ParseState (\<lambda>_. None) demo_load 7 ?rg = Some (None, rg')"
    using demo_ParseState [of "Config_Resolvers demo_config"] by auto
  from ParseState_correct [OF p] p c show ?thesis by auto
qed

text \<open>C24: the configured order of masters is respected and leadership followed: when the first master
  answers and is the leader itself its state is used, and when it names another leader the
  state is loaded again from that leader.\<close>

theorem findMaster_follows_leader:
  assumes "getProto m = (ip, port, e)" and "m \<noteq> []" and "load ip port = (sj, None)"
    and "leaderIP (State_Leader sj) = Some rip"
    and "load rip port = (sj', None)" and "State_Leader sj' \<noteq> []"
  shows "findMaster load (m # ms) = Some (if rip = ip then (sj, None) else (sj', None))"
proof -
  have "State_Leader sj \<noteq> []" using assms(4) by (auto simp: leaderIP_def slice_at_def)
  then show ?thesis using assms by (simp add: findMaster_def loadWrap_def)
qed

theorem findMaster_follows_leader_witness:
  "findMaster (\<lambda>ip port. (emptyState\<lparr>State_Leader := ''master@b:5050''\<rparr>, None)) [''a:5050'', ''c:5050'']
     = Some (emptyState\<lparr>State_Leader := ''master@b:5050''\<rparr>, None)"
proof -
  have g: "getProto ''a:5050'' = (''a'', ''5050'', None)" "leaderIP (State_Leader (emptyState\<lparr>State_Leader := ''master@b:5050''\<rparr>)) = Some ''b''"
    by code_simp+
  let ?sj = "emptyState\<lparr>State_Leader := ''master@b:5050''\<rparr>"
  have "findMaster (\<lambda>ip port. (?sj, None)) [''a:5050'', ''c:5050'']
      = Some (if ''b'' = ''a'' then (?sj, None) else (?sj, None))"
    by (rule findMaster_follows_leader [where load = "\<lambda>ip port. (?sj, None)", OF g(1) _ refl g(2) refl]) simp_all
  then show ?thesis by simp
qed

section \<open>Findings\<close>

text \<open>
  A master whose state names no leader makes \<open>leaderIP\<close> index past the end of the split
  string: the load panics before the check for an empty leader that the callers make.
\<close>

lemma loadWrap_no_leader_panics:
  "load ip port = (sj, None) \<Longrightarrow> State_Leader sj = [] \<Longrightarrow> loadWrap load ip port = None"
  by (simp add: loadWrap_def leaderIP_def slice_at_def Split_Nil)

text \<open>
  A fallback master that cannot be reached ends the search: the remaining masters are not
  tried, and the empty state is returned without an error.
\<close>

lemma findMaster_stops_at_failed_fallback:
  assumes "\<And>ip port. fst (getProto m) = ip \<Longrightarrow> load ip port = (emptyState, Some e)"
  shows "findMaster load ([] # m # ms) = Some (emptyState, None)"
  using assms by (cases "getProto m") (auto simp: findMaster_def loadWrap_def)

end
