(* ===== verification/Detect.thy ===== *)
theory Detect
  imports Go_Net "HOL-Library.Word"
begin

text \<open>
  \<open>detect/masters.go\<close>: the detector that turns ZooKeeper notifications into lists of masters
  and sends them to the main loop. The channel is modelled by the list of messages sent to
  it. \<open>MasterInfo\<close> and \<open>Address\<close> have the fields the code reads of the generated protocol
  buffer types; an optional field that is absent is \<open>None\<close> and its getter returns the
  default. The byte order of the machine is an argument.
\<close>

section \<open>Definitions\<close>

record Address =
  Address_Ip :: "string option"
  Address_Port :: "32 word option"

record MasterInfo =
  MasterInfo_Ip :: "32 word option"
  MasterInfo_Port :: "32 word option"
  MasterInfo_Address :: "Address option"

definition get_default :: "'a \<Rightarrow> 'a option \<Rightarrow> 'a" where
  "get_default d x = (case x of None \<Rightarrow> d | Some v \<Rightarrow> v)"

definition Default_MasterInfo_Port :: "32 word" where
  "Default_MasterInfo_Port = 5050"

text \<open>\<open>binary.ByteOrder.PutUint32\<close> into a four-byte slice.\<close>

definition PutUint32 :: "bool \<Rightarrow> 32 word \<Rightarrow> nat list" where
  "PutUint32 bigEndian v =
     (let bs = map (\<lambda>k. unat v div 256 ^ k mod 256) [3, 2, 1, 0] in if bigEndian then bs else rev bs)"

text \<open>\<open>byteOrder\<close>, from the first byte in memory of the word \<open>0x01020304\<close>: big endian, little endian, or a panic.\<close>

definition byteOrder :: "nat \<Rightarrow> bool option" where
  "byteOrder b = (if b = 1 then Some True else if b = 4 then Some False else None)"

definition masterAddr :: "bool \<Rightarrow> MasterInfo option \<Rightarrow> string" where
  "masterAddr bigEndian info =
     (case info of
        None \<Rightarrow> []
      | Some info \<Rightarrow>
          let (ip, port) =
            (case MasterInfo_Address info of
               Some addr \<Rightarrow> (get_default [] (Address_Ip addr), sint (get_default 0 (Address_Port addr)))
             | None \<Rightarrow> (IP_String (PutUint32 bigEndian (get_default 0 (MasterInfo_Ip info))),
                        uint (get_default Default_MasterInfo_Port (MasterInfo_Port info))))
          in JoinHostPort ip (Itoa port))"

text \<open>The first item of \<open>masters\<close> is the leader; \<open>sent\<close> is what went into the channel, oldest first.\<close>

record Masters =
  masters :: "string list"
  sent :: "string list list"

definition NewMasters :: "string list \<Rightarrow> Masters" where
  "NewMasters ms = \<lparr>masters = [[]] @ ms, sent = []\<rparr>"

definition emit :: "string list \<Rightarrow> Masters \<Rightarrow> Masters" where
  "emit s ms = ms\<lparr>sent := sent ms @ [s]\<rparr>"

definition ordered :: "string \<Rightarrow> string list \<Rightarrow> string list" where
  "ordered leader ms = leader # filter (\<lambda>m. m \<noteq> leader) ms"

text \<open>Slicing off or reading the leader of an empty list would panic.\<close>

definition OnMasterChanged :: "bool \<Rightarrow> MasterInfo option \<Rightarrow> Masters \<Rightarrow> Masters option" where
  "OnMasterChanged bigEndian leader ms =
     (case masters ms of
        [] \<Rightarrow> None
      | _ # rest \<Rightarrow>
          let ms' = ms\<lparr>masters := ordered (masterAddr bigEndian leader) rest\<rparr>
          in Some (emit (masters ms') ms'))"

definition UpdatedMasters :: "bool \<Rightarrow> MasterInfo option list \<Rightarrow> Masters \<Rightarrow> Masters option" where
  "UpdatedMasters bigEndian infos ms =
     (case masters ms of
        [] \<Rightarrow> None
      | leader # _ \<Rightarrow>
          let addrs = filter (\<lambda>addr. addr \<noteq> []) (map (masterAddr bigEndian) infos);
              ms' = ms\<lparr>masters := ordered leader addrs\<rparr>
          in Some (emit (masters ms') ms'))"

section \<open>The detector as a state machine\<close>

datatype notification = LeaderChanged "MasterInfo option" | MastersChanged "MasterInfo option list"

definition notify :: "bool \<Rightarrow> notification \<Rightarrow> Masters \<Rightarrow> Masters option" where
  "notify bigEndian n ms =
     (case n of
        LeaderChanged leader \<Rightarrow> OnMasterChanged bigEndian leader ms
      | MastersChanged infos \<Rightarrow> UpdatedMasters bigEndian infos ms)"

text \<open>\<open>detects be cfg ns ms\<close>: the detector created for the configured masters \<open>cfg\<close> is in state \<open>ms\<close>
  after the notifications \<open>ns\<close>, oldest first.\<close>

inductive detects :: "bool \<Rightarrow> string list \<Rightarrow> notification list \<Rightarrow> Masters \<Rightarrow> bool" for be cfg where
  start: "detects be cfg [] (NewMasters cfg)"
| step: "detects be cfg ns ms \<Longrightarrow> notify be n ms = Some ms' \<Longrightarrow> detects be cfg (ns @ [n]) ms'"

inductive_cases detects_snocE: "detects be cfg (ns @ [n]) ms'"

text \<open>The address of the leader after a sequence of notifications.\<close>

definition leader_after :: "bool \<Rightarrow> notification list \<Rightarrow> string" where
  "leader_after be ns =
     foldl (\<lambda>l n. case n of LeaderChanged i \<Rightarrow> masterAddr be i | MastersChanged _ \<Rightarrow> l) [] ns"

definition addrs_of :: "bool \<Rightarrow> MasterInfo option list \<Rightarrow> string list" where
  "addrs_of be infos = filter (\<lambda>a. a \<noteq> []) (map (masterAddr be) infos)"

section \<open>Lemmas\<close>

text \<open>A machine that stores words in an order is found to have that order.\<close>

lemma byteOrder_detects: "byteOrder (hd (PutUint32 be 0x01020304)) = Some be"
  by (cases be) (simp_all add: byteOrder_def PutUint32_def)

lemma ordered_hd [simp]: "hd (ordered l ms) = l" "ordered l ms \<noteq> []" "tl (ordered l ms) = filter (\<lambda>m. m \<noteq> l) ms"
  by (simp_all add: ordered_def)

lemma notify_total: "masters ms \<noteq> [] \<Longrightarrow> \<exists>ms'. notify be n ms = Some ms'"
  by (cases n) (auto simp: notify_def OnMasterChanged_def UpdatedMasters_def Let_def split: list.split)

lemma notify_Some:
  assumes "notify be n ms = Some ms'"
  shows "masters ms \<noteq> [] \<and> sent ms' = sent ms @ [masters ms'] \<and>
    masters ms' = (case n of
        LeaderChanged i \<Rightarrow> ordered (masterAddr be i) (tl (masters ms))
      | MastersChanged infos \<Rightarrow> ordered (hd (masters ms)) (addrs_of be infos))"
  using assms
  by (cases n) (auto simp: notify_def OnMasterChanged_def UpdatedMasters_def emit_def addrs_of_def Let_def
      split: list.splits)

lemma masterAddr_Nil: "masterAddr be i = [] \<longleftrightarrow> i = None"
  by (auto simp: masterAddr_def JoinHostPort_def Let_def split: option.split prod.split)

lemma detects_inv:
  assumes "detects be cfg ns ms"
  shows "masters ms \<noteq> [] \<and> hd (masters ms) = leader_after be ns \<and>
    (ns \<noteq> [] \<longrightarrow> hd (masters ms) \<notin> set (tl (masters ms))) \<and>
    length (sent ms) = length ns \<and> (ns \<noteq> [] \<longrightarrow> last (sent ms) = masters ms)"
  using assms
proof (induction rule: detects.induct)
  case start
  then show ?case by (simp add: NewMasters_def leader_after_def)
next
  case (step ns ms n ms')
  from notify_Some [OF step.hyps(2)] step.IH show ?case
    by (cases n) (auto simp: leader_after_def)
qed

section \<open>Properties\<close>

text \<open>Whatever notifications arrive, the detector never panics: its list starts with the address
  of the latest leader (empty when there is none), which does not occur again in the list;
  every notification sends exactly one message and the last message is the current list.\<close>

theorem detector_tracks_leader:
  assumes "detects be cfg ns ms" and "ns \<noteq> []"
  shows "hd (masters ms) = leader_after be ns \<and> hd (masters ms) \<notin> set (tl (masters ms))
    \<and> length (sent ms) = length ns \<and> last (sent ms) = masters ms
    \<and> (\<exists>ms'. notify be n ms = Some ms' \<and> detects be cfg (ns @ [n]) ms')"
proof -
  note i = detects_inv [OF assms(1)]
  then obtain ms' where "notify be n ms = Some ms'" using notify_total by blast
  then show ?thesis using i assms detects.step by blast
qed

theorem detector_tracks_leader_witness:
  "\<exists>ms. detects True [''a:1''] [LeaderChanged None] ms \<and> hd (masters ms) = [] \<and> last (sent ms) = masters ms"
proof -
  obtain ms where n: "notify True (LeaderChanged None) (NewMasters [''a:1'']) = Some ms"
    using notify_total [of "NewMasters [''a:1'']"] by (auto simp: NewMasters_def)
  then have d: "detects True [''a:1''] ([] @ [LeaderChanged None]) ms" by (rule detects.step [OF detects.start])
  have "leader_after True [LeaderChanged None] = []" by (simp add: leader_after_def masterAddr_def)
  with detector_tracks_leader [OF d, of "LeaderChanged None"] d show ?thesis by auto
qed

text \<open>A notification of the set of masters makes the list consist of the current leader followed
  by the other reported masters in the order reported, and a notification of the leader
  keeps the other masters in their order.\<close>

theorem detector_lists_masters:
  assumes "detects be cfg ns ms" and "notify be n ms = Some ms'"
  shows "tl (masters ms') = filter (\<lambda>m. m \<noteq> leader_after be (ns @ [n]))
     (case n of MastersChanged infos \<Rightarrow> addrs_of be infos | LeaderChanged _ \<Rightarrow> tl (masters ms))"
  using notify_Some [OF assms(2)] detects_inv [OF assms(1)]
  by (cases n) (auto simp: leader_after_def)

theorem detector_lists_masters_witness:
  "\<exists>ms'. notify True (LeaderChanged None) (NewMasters [''a:1'', ''b:1'']) = Some ms' \<and> tl (masters ms') = [''a:1'', ''b:1'']"
proof -
  obtain ms' where n: "notify True (LeaderChanged None) (NewMasters [''a:1'', ''b:1'']) = Some ms'"
    using notify_total [of "NewMasters [''a:1'', ''b:1'']"] by (auto simp: NewMasters_def)
  from detector_lists_masters [OF detects.start n] n show ?thesis
    by (simp add: leader_after_def masterAddr_def NewMasters_def)
qed

end
