(* ===== verification/Consul_Utils.thy ===== *)
theory Consul_Utils
  imports Generator
begin

text \<open>
  The data and the pure functions of the Consul backend: \<open>resolvers/consul/config.go\<close>,
  \<open>cache.go\<close> and \<open>utils.go\<close>. The registrations are those of the Consul API package; the
  embedded checks of a service registration, which the program never sets, are left out.
  A function that dereferences a nil pointer or indexes past the end returns none.
\<close>

section \<open>Data\<close>

record ConsulConfig =
  CC_Address :: string
  CC_CacheOnly :: bool
  CC_CacheRefresh :: int
  CC_Datacenter :: string
  CC_Scheme :: string
  CC_ServicePrefix :: string
  CC_SkipInactiveFrameworks :: bool
  CC_Token :: string

definition consul_NewConfig :: ConsulConfig where
  "consul_NewConfig = \<lparr>CC_Address = ''127.0.0.1:8500'', CC_CacheOnly = False, CC_CacheRefresh = 3, CC_Datacenter = [],
     CC_Scheme = ''http'', CC_ServicePrefix = ''mesos-dns'', CC_SkipInactiveFrameworks = False, CC_Token = []\<rparr>"

record AgentServiceRegistration =
  ASR_ID :: string
  ASR_Name :: string
  ASR_Tags :: "string list"
  ASR_Port :: int
  ASR_Address :: string

record AgentServiceCheck =
  ASC_Script :: string
  ASC_DockerContainerID :: string
  ASC_Shell :: string
  ASC_Interval :: string
  ASC_Timeout :: string
  ASC_TTL :: string
  ASC_HTTP :: string
  ASC_TCP :: string
  ASC_Status :: string

record AgentCheckRegistration =
  ACR_ID :: string
  ACR_Name :: string
  ACR_Notes :: string
  ACR_ServiceID :: string
  ACR_Check :: AgentServiceCheck

record Record =
  Rec_Action :: string
  Rec_Address :: string
  Rec_SlaveID :: string
  Rec_Type :: string
  Rec_Service :: "AgentServiceRegistration option"
  Rec_Check :: "AgentCheckRegistration option"

definition zero_Record :: Record where
  "zero_Record = \<lparr>Rec_Action = [], Rec_Address = [], Rec_SlaveID = [], Rec_Type = [], Rec_Service = None, Rec_Check = None\<rparr>"

definition zero_Check :: AgentCheckRegistration where
  "zero_Check = \<lparr>ACR_ID = [], ACR_Name = [], ACR_Notes = [], ACR_ServiceID = [],
     ACR_Check = \<lparr>ASC_Script = [], ASC_DockerContainerID = [], ASC_Shell = [], ASC_Interval = [], ASC_Timeout = [],
       ASC_TTL = [], ASC_HTTP = [], ASC_TCP = [], ASC_Status = []\<rparr>\<rparr>"

section \<open>The cache\<close>

text \<open>A nil map of records is none.\<close>

record cache =
  Cache_Records :: "(string \<times> Record) list option"
  Cache_Updated :: int

definition record_id :: "Record \<Rightarrow> string option" where
  "record_id r =
     (if Rec_Type r = ''service'' then map_option ASR_ID (Rec_Service r)
      else if Rec_Type r = ''check'' then map_option ACR_ID (Rec_Check r)
      else Some [])"

definition UpdateCache :: "int \<Rightarrow> Record \<Rightarrow> string \<Rightarrow> cache \<Rightarrow> cache option" where
  "UpdateCache now r action c = do {
     ident \<leftarrow> record_id r;
     let rs = (case Cache_Records c of None \<Rightarrow> [] | Some rs \<Rightarrow> rs);
     let rs = (if action = ''add'' then AList.update ident r rs
               else if action = ''remove'' then AList.delete ident rs else rs);
     Some (c\<lparr>Cache_Records := Some rs, Cache_Updated := now\<rparr>) }"

text \<open>
  \<open>CachedRecords\<close> makes a slice of as many zero records as there are entries and appends the
  entries, in the order \<open>ord\<close> of the map.
\<close>

definition CachedRecords :: "(Record list \<Rightarrow> Record list) \<Rightarrow> cache \<Rightarrow> Record list" where
  "CachedRecords ord c =
     (let rs = (case Cache_Records c of None \<Rightarrow> [] | Some rs \<Rightarrow> map snd rs)
      in replicate (length rs) zero_Record @ ord rs)"

section \<open>Services\<close>

text \<open>
  The width of the UTF-8 sequence a string starts with; an invalid byte has width one, as in Go.
\<close>

definition in_range :: "nat \<Rightarrow> nat \<Rightarrow> string \<Rightarrow> nat \<Rightarrow> bool" where
  "in_range lo hi s i \<longleftrightarrow> i < length s \<and> lo \<le> byte (s ! i) \<and> byte (s ! i) \<le> hi"

definition rune_width :: "string \<Rightarrow> nat" where
  "rune_width s =
     (let b = byte (hd s)
      in if b < 0xC2 then 1
         else if b < 0xE0 then (if in_range 0x80 0xBF s 1 then 2 else 1)
         else if b < 0xF0 then
           (if in_range (if b = 0xE0 then 0xA0 else 0x80) (if b = 0xED then 0x9F else 0xBF) s 1 \<and> in_range 0x80 0xBF s 2
            then 3 else 1)
         else if b < 0xF5 then
           (if in_range (if b = 0xF0 then 0x90 else 0x80) (if b = 0xF4 then 0x8F else 0xBF) s 1 \<and>
               in_range 0x80 0xBF s 2 \<and> in_range 0x80 0xBF s 3
            then 4 else 1)
         else 1)"

definition word_char :: "char \<Rightarrow> bool" where
  "word_char c \<longleftrightarrow>
     (let b = byte c in 48 \<le> b \<and> b \<le> 57 \<or> 65 \<le> b \<and> b \<le> 90 \<or> 97 \<le> b \<and> b \<le> 122 \<or> b = 95)"

text \<open>Replacing every match of \<open>[^\w-]\<close>, a single character, by a hyphen.\<close>

function replace_nonword :: "string \<Rightarrow> string" where
  "replace_nonword [] = []"
| "replace_nonword (c # cs) =
     (if word_char c \<or> c = CHR ''-'' then c else CHR ''-'') # replace_nonword (drop (rune_width (c # cs) - 1) cs)"
  by pat_completeness auto
termination
  by (relation "measure length") auto

definition CreateService :: "string \<Rightarrow> string \<Rightarrow> string \<Rightarrow> string \<Rightarrow> string list \<Rightarrow> AgentServiceRegistration" where
  "CreateService ident name address stateport tags =
     (let (port, err) = Atoi stateport
      in \<lparr>ASR_ID = ident, ASR_Name = ToLower (ReplaceAll (replace_nonword name) ''_'' []),
          ASR_Tags = tags, ASR_Port = (if err = None then port else 0), ASR_Address = address\<rparr>)"


section \<open>Health checks\<close>

datatype check_error = InvalidPort string | BadJSON

text \<open>\<open>evalVars\<close>: the string and the error.\<close>

definition evalVars :: "string \<Rightarrow> string \<Rightarrow> string \<Rightarrow> string \<times> check_error option" where
  "evalVars check address port =
     (if Contains check ''{PORT}'' \<and> port = ''0'' then (check, Some (InvalidPort (check @ port)))
      else (ReplaceAll (ReplaceAll check ''{PORT}'' port) ''{IP}'' address, None))"

record KVPair =
  KV_Key :: string
  KV_Value :: string

text \<open>One of the three fields a check may have: expanded when it is set, with the error of the last expansion.\<close>

definition eval_field ::
  "(AgentServiceCheck \<Rightarrow> string) \<Rightarrow> ((string \<Rightarrow> string) \<Rightarrow> AgentServiceCheck \<Rightarrow> AgentServiceCheck) \<Rightarrow>
   string \<Rightarrow> string \<Rightarrow> AgentServiceCheck \<times> check_error option \<Rightarrow> AgentServiceCheck \<times> check_error option" where
  "eval_field sel upd address port = (\<lambda>(check, err).
     if sel check \<noteq> [] then let (v, err') = evalVars (sel check) address port in (upd (\<lambda>_. v) check, err')
     else (check, err))"

text \<open>
  The loop over the key-value pairs stops at the first pair of the endpoint. \<open>unmarshal\<close> is
  \<open>json.Unmarshal\<close> into the given check: the check it leaves and whether it failed.
\<close>

fun check_loop ::
  "(string \<Rightarrow> AgentCheckRegistration \<Rightarrow> AgentCheckRegistration \<times> bool) \<Rightarrow> KVPair list \<Rightarrow> string \<Rightarrow> string \<Rightarrow> string \<Rightarrow> string \<Rightarrow>
   AgentCheckRegistration \<Rightarrow> AgentCheckRegistration \<times> check_error option" where
  "check_loop unmarshal [] endpoint ident address port check = (check, None)"
| "check_loop unmarshal (kv # kvs) endpoint ident address port check =
     (if KV_Key kv \<noteq> ''healthchecks/'' @ endpoint then check_loop unmarshal kvs endpoint ident address port check
      else
        let (check, failed) = unmarshal (KV_Value kv) check
        in if failed then (check, Some BadJSON)
           else
             let (asc, err) =
               eval_field ASC_Script ASC_Script_update address port
                 (eval_field ASC_TCP ASC_TCP_update address port
                   (eval_field ASC_HTTP ASC_HTTP_update address port (ACR_Check check, None)))
             in (check\<lparr>ACR_ID := Join [ACR_ID check, ident] '':'', ACR_ServiceID := ident, ACR_Check := asc\<rparr>, err))"

definition createHealthChecks ::
  "(string \<Rightarrow> AgentCheckRegistration \<Rightarrow> AgentCheckRegistration \<times> bool) \<Rightarrow> KVPair list \<Rightarrow> string \<Rightarrow> string \<Rightarrow> string \<Rightarrow> string \<Rightarrow>
   AgentCheckRegistration \<times> check_error option" where
  "createHealthChecks unmarshal kvs endpoint ident address port =
     check_loop unmarshal kvs endpoint ident address port zero_Check"

section \<open>Differences\<close>

definition compareService :: "AgentServiceRegistration \<Rightarrow> AgentServiceRegistration \<Rightarrow> bool" where
  "compareService newservice oldservice \<longleftrightarrow>
     ASR_ID newservice = ASR_ID oldservice \<and> ASR_Name newservice = ASR_Name oldservice \<and>
     ASR_Address newservice = ASR_Address oldservice \<and> ASR_Port newservice = ASR_Port oldservice \<and>
     length (ASR_Tags newservice) = length (ASR_Tags oldservice) \<and>
     list_all (\<lambda>otag. list_ex (\<lambda>ntag. otag = ntag) (ASR_Tags newservice)) (ASR_Tags oldservice)"

definition compareCheck :: "AgentCheckRegistration \<Rightarrow> AgentCheckRegistration \<Rightarrow> bool" where
  "compareCheck newcheck oldcheck \<longleftrightarrow>
     ACR_ID newcheck = ACR_ID oldcheck \<and> ACR_Name newcheck = ACR_Name oldcheck \<and>
     ACR_ServiceID newcheck = ACR_ServiceID oldcheck \<and> ACR_Check newcheck = ACR_Check oldcheck"

text \<open>\<open>found_in cmp sel r rs\<close>: whether \<open>cmp\<close> holds of the pointer of \<open>r\<close> and that of some record.\<close>

fun found_in :: "('a \<Rightarrow> 'a \<Rightarrow> bool) \<Rightarrow> (Record \<Rightarrow> 'a option) \<Rightarrow> Record \<Rightarrow> Record list \<Rightarrow> bool option" where
  "found_in cmp sel r [] = Some False"
| "found_in cmp sel r (e # es) = do { a \<leftarrow> sel r; b \<leftarrow> sel e; if cmp a b then Some True else found_in cmp sel r es }"

fun getDeltaServices :: "Record list \<Rightarrow> Record list \<Rightarrow> string \<Rightarrow> Record list option" where
  "getDeltaServices oldservices [] action = Some []"
| "getDeltaServices oldservices (service # rest) action = do {
     found \<leftarrow> found_in compareService Rec_Service service oldservices;
     delta \<leftarrow> getDeltaServices oldservices rest action;
     Some (if found then delta else service\<lparr>Rec_Action := action\<rparr> # delta) }"

fun getDeltaChecks :: "Record list \<Rightarrow> Record list \<Rightarrow> string \<Rightarrow> Record list option" where
  "getDeltaChecks oldchecks [] action = Some []"
| "getDeltaChecks oldchecks (newhc # rest) action = do {
     found \<leftarrow> found_in compareCheck Rec_Check newhc oldchecks;
     delta \<leftarrow> getDeltaChecks oldchecks rest action;
     Some (if found then delta else newhc\<lparr>Rec_Action := action\<rparr> # delta) }"

definition getDeltaRecords :: "Record list \<Rightarrow> Record list \<Rightarrow> string \<Rightarrow> Record list option" where
  "getDeltaRecords oldRecords newRecords action = do {
     let services = filter (\<lambda>r. Rec_Service r \<noteq> None);
     let checks = filter (\<lambda>r. Rec_Check r \<noteq> None);
     ds \<leftarrow> getDeltaServices (services oldRecords) (services newRecords) action;
     dc \<leftarrow> getDeltaChecks (checks oldRecords) (checks newRecords) action;
     Some (ds @ dc) }"

section \<open>Task addresses\<close>

text \<open>
  The loop over the sources, with the address found so far; none is the exit of the process on a
  malformed label source.
\<close>

definition calico_label :: string where
  "calico_label = ''CalicoDocker.NetworkSettings.IPAddress''"

fun address_loop :: "Task \<Rightarrow> string \<Rightarrow> string list \<Rightarrow> string \<Rightarrow> string option" where
  "address_loop task slaveip [] address = Some address"
| "address_loop task slaveip (lookup # ls) address =
     (let key = Split lookup '':'';
          continue = (\<lambda>address. if address \<noteq> [] then Some address else address_loop task slaveip ls address)
      in if hd key = ''mesos'' then continue (Task_IP task [''mesos''])
         else if hd key = ''docker'' then continue (Task_IP task [''docker''])
         else if hd key = ''netinfo'' then continue (Task_IP task [''netinfo''])
         else if hd key = ''host'' then continue (Task_IP task [''host''])
         else if hd key = ''label'' then
           (if length key \<noteq> 2 then None
            else
              let address = (case StatusIPs (Task_Statuses task) (Labels (key ! 1)) of a # _ \<Rightarrow> a | [] \<Rightarrow> address)
              in if address = [] \<and> key ! 1 = calico_label \<and> list_ex (\<lambda>l. Label_Key l = ''CALICO_IP'') (Task_Labels task)
                 then Some []
                 else continue address)
         else if hd key = ''fallback'' then continue slaveip
         else continue address)"

definition getAddress :: "Task \<Rightarrow> string list \<Rightarrow> string \<Rightarrow> string option" where
  "getAddress task ipsources slaveip = address_loop task slaveip ipsources []"

end
