(* ===== verification/Consul.thy ===== *)
theory Consul
  imports Consul_Utils
begin

text \<open>
  \<open>resolvers/consul/parser.go\<close> and \<open>resolvers/consul/consul.go\<close>: the records generated from
  a Mesos state, their dispatch to the Consul agents of the slaves, and the loop of one agent. A
  channel between goroutines that is written by one and drained by another until it is closed is
  the list of its messages. None is a panic or the exit of the process. The Consul API is a
  parameter.
\<close>

section \<open>Generating records\<close>

record SlaveInfo =
  SI_Address :: string
  SI_Hostname :: string
  SI_ID :: string

definition mesos_leader_host :: "RecordGenerator \<Rightarrow> string option" where
  "mesos_leader_host rg = do {
     part \<leftarrow> slice_at (Split (State_Leader (RG_State rg)) ''@'') 1;
     host \<leftarrow> slice_at (Split part '':'') 0;
     _ \<leftarrow> slice_at (Split part '':'') 1;
     Some host }"

definition mesos_slave_record :: "string \<Rightarrow> string \<Rightarrow> Slave \<Rightarrow> (Record \<times> SlaveInfo) option" where
  "mesos_slave_record leader pfx slave = do {
     pid \<leftarrow> Slave_PID slave;
     let slaveHostname = hd (Split (Slave_Hostname slave) ''.'');
     let tags = [''slave'', slaveHostname];
     let tags = (if Attributes_Master (Slave_Attrs slave) = ''true'' then tags @ [''master''] else tags);
     let tags = (if UPID_Host pid = leader then tags @ [''leader''] else tags);
     Some (\<lparr>Rec_Action = ''add'', Rec_Address = [], Rec_SlaveID = Slave_ID slave, Rec_Type = ''service'',
             Rec_Service = Some (CreateService (Join [pfx, Slave_ID slave] '':'') ''mesos'' (UPID_Host pid) (UPID_Port pid) tags),
             Rec_Check = None\<rparr>,
           \<lparr>SI_Address = UPID_Host pid, SI_Hostname = slaveHostname, SI_ID = Slave_ID slave\<rparr>) }"

text \<open>The records and the map of slaves sent to the generator of task records.\<close>

definition generateMesosRecords :: "RecordGenerator \<Rightarrow> string \<Rightarrow> (Record list \<times> (string \<times> SlaveInfo) list) option" where
  "generateMesosRecords rg pfx = do {
     leader \<leftarrow> mesos_leader_host rg;
     rs \<leftarrow> map_opt (mesos_slave_record leader pfx) (State_Slaves (RG_State rg));
     Some (map fst rs, fold (\<lambda>i m. AList.update (SI_ID i) i m) (map snd rs) []) }"

definition framework_service :: "string \<Rightarrow> bool \<Rightarrow> Framework \<Rightarrow> Record list" where
  "framework_service pfx skipInactiveFrameworks framework =
     (if skipInactiveFrameworks \<and> \<not> Framework_Active framework then []
      else
        let (frameworkHost, frameworkPort) = HostPort framework
        in if frameworkHost = [] then []
           else [\<lparr>Rec_Action = ''add'', Rec_Address = [], Rec_SlaveID = [], Rec_Type = ''service'',
                  Rec_Service = Some (CreateService (Join [pfx, Framework_Name framework] '':'') (Framework_Name framework)
                    frameworkHost frameworkPort []),
                  Rec_Check = None\<rparr>])"

definition generateFrameworkRecords :: "RecordGenerator \<Rightarrow> string \<Rightarrow> bool \<Rightarrow> Record list" where
  "generateFrameworkRecords rg pfx skipInactiveFrameworks =
     concat (map (framework_service pfx skipInactiveFrameworks) (State_Frameworks (RG_State rg)))"

type_synonym json_check = "string \<Rightarrow> AgentCheckRegistration \<Rightarrow> AgentCheckRegistration \<times> bool"

text \<open>The health checks of one service: one record per endpoint of a label that renders.\<close>

definition check_records ::
  "json_check \<Rightarrow> KVPair list \<Rightarrow> Task \<Rightarrow> string \<Rightarrow> string \<Rightarrow> string \<Rightarrow> Record list" where
  "check_records unmarshal kvPairs task ident address port =
     concat (map (\<lambda>label. concat (map (\<lambda>endpoint.
         case createHealthChecks unmarshal kvPairs endpoint ident address port of
           (hc, None) \<Rightarrow>
             [\<lparr>Rec_Action = ''add'', Rec_Address = address, Rec_SlaveID = Task_SlaveID task, Rec_Type = ''check'',
               Rec_Service = None, Rec_Check = Some hc\<rparr>]
         | (_, Some _) \<Rightarrow> []) (Split (Label_Value label) '','')))
       (filter (\<lambda>label. Label_Key label = ''ConsulHealthCheckKeys'') (Task_Labels task)))"

definition port_records ::
  "json_check \<Rightarrow> KVPair list \<Rightarrow> string \<Rightarrow> (string \<times> SlaveInfo) list \<Rightarrow> Task \<Rightarrow> string \<Rightarrow> string \<Rightarrow> Record list" where
  "port_records unmarshal kvPairs pfx slaveInfo task address port =
     (let tags = (case map_of slaveInfo (Task_SlaveID task) of Some slave \<Rightarrow> [SI_Hostname slave] | None \<Rightarrow> []);
          ident = Join [pfx, Task_SlaveID task, Task_ID task, port] '':''
      in \<lparr>Rec_Action = ''add'', Rec_Address = address, Rec_SlaveID = Task_SlaveID task, Rec_Type = ''service'',
          Rec_Service = Some (CreateService ident (Task_Name task) address port tags), Rec_Check = None\<rparr>
         # check_records unmarshal kvPairs task ident address port)"

definition task_services ::
  "json_check \<Rightarrow> KVPair list \<Rightarrow> string \<Rightarrow> (string \<times> SlaveInfo) list \<Rightarrow> string list \<Rightarrow> Task \<Rightarrow> Record list option" where
  "task_services unmarshal kvPairs pfx slaveInfo ipsources task =
     (if Task_State task \<noteq> ''TASK_RUNNING'' then Some []
      else do {
        address \<leftarrow> getAddress task ipsources
          (case map_of slaveInfo (Task_SlaveID task) of Some i \<Rightarrow> SI_Address i | None \<Rightarrow> []);
        if address = [] then Some []
        else do {
          ports \<leftarrow> Ports (Task_Resources task);
          let ports = (if length ports = 0 then ports @ [''0''] else ports);
          Some (concat (map (port_records unmarshal kvPairs pfx slaveInfo task address) ports)) } })"

text \<open>The sources start with as many empty strings as the code makes room for; no source has that name.\<close>

definition consul_sources :: "Config \<Rightarrow> string list" where
  "consul_sources c = replicate (length (Config_IPSources c) + 1) [] @ Config_IPSources c @ [''fallback'']"

definition generateTaskRecords ::
  "json_check \<Rightarrow> RecordGenerator \<Rightarrow> string \<Rightarrow> (string \<times> SlaveInfo) list \<Rightarrow> KVPair list \<Rightarrow> bool \<Rightarrow> Record list option" where
  "generateTaskRecords unmarshal rg pfx slaveInfo kvPairs skipInactiveFrameworks =
     map_option concat (map_opt (task_services unmarshal kvPairs pfx slaveInfo (consul_sources (RG_Config rg)))
       (concat (map Framework_Tasks
         (filter (\<lambda>f. \<not> (skipInactiveFrameworks \<and> \<not> Framework_Active f)) (State_Frameworks (RG_State rg))))))"

section \<open>Dispatch\<close>

text \<open>
  The channels of the agents, which never change, are named by the address of the agent. The
  state of the dispatcher: the agent of each slave, the slave at each address, and the records
  of each slave.
\<close>

record dispatch =
  D_consulAgent :: "(string \<times> string) list"
  D_records :: "(string \<times> Record list) list"
  D_slaveLookup :: "(string \<times> string) list"

definition push_record :: "string \<Rightarrow> Record \<Rightarrow> dispatch \<Rightarrow> dispatch" where
  "push_record slaveid r d =
     d\<lparr>D_records := AList.update slaveid ((case map_of (D_records d) slaveid of None \<Rightarrow> [] | Some rs \<Rightarrow> rs) @ [r]) (D_records d)\<rparr>"

definition dispatch_mesos :: "string set \<Rightarrow> Record \<Rightarrow> dispatch \<Rightarrow> dispatch option" where
  "dispatch_mesos agents r d = do {
     service \<leftarrow> Rec_Service r;
     let addr = ASR_Address service;
     let d = (if addr \<in> agents
       then d\<lparr>D_consulAgent := AList.update (Rec_SlaveID r) addr (D_consulAgent d),
              D_slaveLookup := AList.update addr (Rec_SlaveID r) (D_slaveLookup d)\<rparr>
       else d);
     Some (push_record (Rec_SlaveID r) r d) }"

definition dispatch_framework :: "Record \<Rightarrow> dispatch \<Rightarrow> dispatch" where
  "dispatch_framework r d =
     (case map_of (D_slaveLookup d) (Rec_Address r) of Some slaveid \<Rightarrow> push_record slaveid r d | None \<Rightarrow> d)"

definition dispatch_task :: "Record \<Rightarrow> dispatch \<Rightarrow> dispatch" where
  "dispatch_task r d = push_record (Rec_SlaveID r) r d"

text \<open>The record sets sent to the agents, by address.\<close>

definition Dispatch :: "string set \<Rightarrow> Record list \<Rightarrow> Record list \<Rightarrow> Record list \<Rightarrow> (string \<times> Record list) list option" where
  "Dispatch agents mesosRecords frameworks tasks = do {
     d \<leftarrow> fold_opt (dispatch_mesos agents) mesosRecords \<lparr>D_consulAgent = [], D_records = [], D_slaveLookup = []\<rparr>;
     let d = fold dispatch_framework frameworks d;
     let d = fold dispatch_task tasks d;
     Some (map (\<lambda>(slaveid, addr). (addr, case map_of (D_records d) slaveid of None \<Rightarrow> [] | Some rs \<Rightarrow> rs)) (D_consulAgent d)) }"

record Backend =
  B_Agents :: "string set"
  B_Config :: ConsulConfig
  B_count :: int

text \<open>\<open>Reload\<close>: the new state of the backend and the record sets its goroutines send; \<open>kvPairs\<close> is received from the poller.\<close>

definition consul_Reload ::
  "json_check \<Rightarrow> KVPair list \<Rightarrow> RecordGenerator \<Rightarrow> Backend \<Rightarrow> Backend \<times> (string \<times> Record list) list option" where
  "consul_Reload unmarshal kvPairs rg b =
     (b\<lparr>B_count := B_count b + 1\<rparr>,
      do {
        let pfx = CC_ServicePrefix (B_Config b);
        let skip = CC_SkipInactiveFrameworks (B_Config b);
        (mesosRecords, slaves) \<leftarrow> generateMesosRecords rg pfx;
        taskRecords \<leftarrow> generateTaskRecords unmarshal rg pfx slaves kvPairs skip;
        Dispatch (B_Agents b) mesosRecords (generateFrameworkRecords rg pfx skip) taskRecords })"

end
