(* ===== verification/Consul_Dispatch.thy ===== *)
theory Consul_Dispatch
  imports Consul
begin

text \<open>
  What a reload of the Consul backend sends to which agent, the names of the services, and the
  rendering of health checks.
\<close>

section \<open>Service names\<close>

definition service_char :: "char \<Rightarrow> bool" where
  "service_char c \<longleftrightarrow> (let b = byte c in 48 \<le> b \<and> b \<le> 57 \<or> 97 \<le> b \<and> b \<le> 122 \<or> b = 45)"

lemma replace_nonword_chars: "c \<in> set (replace_nonword s) \<Longrightarrow> word_char c \<or> c = CHR ''-''"
  by (induction s rule: replace_nonword.induct) (auto split: if_splits)

lemma byte_lower_service:
  assumes "word_char c \<or> c = CHR ''-''" "c \<noteq> CHR ''_''"
  shows "service_char (byte_lower c)"
proof -
  have "byte c \<noteq> 95"
  proof
    assume "byte c = 95"
    then have "c = char_of (95::nat)" by (metis char_of_char)
    moreover have "char_of (95::nat) = CHR ''_''" by code_simp
    ultimately show False using assms(2) by (simp only:)
  qed
  moreover have "byte c + 32 < 256" if "byte c \<le> 90" using that by simp
  ultimately show ?thesis using assms(1)
    by (auto simp: word_char_def service_char_def byte_lower_def Let_def)
qed

lemma CreateService_fields [simp]:
  "ASR_ID (CreateService ident name address port tags) = ident" "ASR_Address (CreateService ident name address port tags) = address"
  "ASR_Tags (CreateService ident name address port tags) = tags"
  "ASR_Name (CreateService ident name address port tags) = ToLower (ReplaceAll (replace_nonword name) ''_'' [])"
  by (simp_all add: CreateService_def split: prod.split)

section \<open>Dispatch\<close>

definition recs_of :: "dispatch \<Rightarrow> string \<Rightarrow> Record list" where
  "recs_of d sid = (case map_of (D_records d) sid of None \<Rightarrow> [] | Some rs \<Rightarrow> rs)"

lemma recs_of_push: "recs_of (push_record s r d) t = (if t = s then recs_of d t @ [r] else recs_of d t)"
  by (auto simp: recs_of_def push_record_def update_conv' split: option.splits)

lemma push_record_frame [simp]:
  "D_consulAgent (push_record s r d) = D_consulAgent d" "D_slaveLookup (push_record s r d) = D_slaveLookup d"
  by (simp_all add: push_record_def)

text \<open>The agents of the slaves: each from a service record whose address is an agent's.\<close>

definition agents_from :: "string set \<Rightarrow> Record list \<Rightarrow> dispatch \<Rightarrow> bool" where
  "agents_from agents rs d \<longleftrightarrow> distinct (map fst (D_consulAgent d)) \<and>
     (\<forall>sid addr. map_of (D_consulAgent d) sid = Some addr \<longrightarrow>
        addr \<in> agents \<and> (\<exists>r\<in>set rs. Rec_SlaveID r = sid \<and> map_option ASR_Address (Rec_Service r) = Some addr)) \<and>
     (\<forall>r\<in>set rs. \<forall>s. Rec_Service r = Some s \<longrightarrow> ASR_Address s \<in> agents \<longrightarrow> map_of (D_consulAgent d) (Rec_SlaveID r) \<noteq> None) \<and>
     fst ` set (D_slaveLookup d) \<subseteq> agents"

lemma agents_from_push: "agents_from agents rs (push_record s r d) = agents_from agents rs d"
  by (simp add: agents_from_def)

lemma agents_fromI:
  assumes "distinct (map fst (D_consulAgent d))" "fst ` set (D_slaveLookup d) \<subseteq> agents"
    and "\<And>sid addr. map_of (D_consulAgent d) sid = Some addr \<Longrightarrow> addr \<in> agents \<and>
        (\<exists>r\<in>set rs. Rec_SlaveID r = sid \<and> map_option ASR_Address (Rec_Service r) = Some addr)"
    and "\<And>r s. r \<in> set rs \<Longrightarrow> Rec_Service r = Some s \<Longrightarrow> ASR_Address s \<in> agents \<Longrightarrow> map_of (D_consulAgent d) (Rec_SlaveID r) \<noteq> None"
  shows "agents_from agents rs d"
  using assms unfolding agents_from_def by blast

lemma dispatch_mesos_step:
  assumes "dispatch_mesos agents r d = Some d'" "agents_from agents rs d"
  shows "agents_from agents (rs @ [r]) d' \<and> recs_of d' sid = recs_of d sid @ filter (\<lambda>r. Rec_SlaveID r = sid) [r]"
proof -
  obtain s where s: "Rec_Service r = Some s" using assms(1) by (auto simp: dispatch_mesos_def bind_eq_Some_conv)
  let ?d = "if ASR_Address s \<in> agents
       then d\<lparr>D_consulAgent := AList.update (Rec_SlaveID r) (ASR_Address s) (D_consulAgent d),
              D_slaveLookup := AList.update (ASR_Address s) (Rec_SlaveID r) (D_slaveLookup d)\<rparr>
       else d"
  have d': "d' = push_record (Rec_SlaveID r) r ?d" using assms(1) s by (simp add: dispatch_mesos_def Let_def split: if_splits)
  have recs: "recs_of ?d sid = recs_of d sid" by (simp add: recs_of_def)
  have dist: "distinct (map fst (D_consulAgent d))" and look: "fst ` set (D_slaveLookup d) \<subseteq> agents"
    and origin: "\<And>sid addr. map_of (D_consulAgent d) sid = Some addr \<Longrightarrow> addr \<in> agents \<and>
        (\<exists>r\<in>set rs. Rec_SlaveID r = sid \<and> map_option ASR_Address (Rec_Service r) = Some addr)"
    and known: "\<And>r s. r \<in> set rs \<Longrightarrow> Rec_Service r = Some s \<Longrightarrow> ASR_Address s \<in> agents \<Longrightarrow> map_of (D_consulAgent d) (Rec_SlaveID r) \<noteq> None"
    using assms(2) unfolding agents_from_def by blast+
  have known': "map_of (D_consulAgent ?d) (Rec_SlaveID r') \<noteq> None"
    if r': "r' \<in> set (rs @ [r])" "Rec_Service r' = Some s'" "ASR_Address s' \<in> agents" for r' s'
  proof (cases "r' \<in> set rs")
    case True
    from known [OF this r'(2,3)] show ?thesis by (simp add: update_conv')
  next
    case False
    then have "r' = r" "s' = s" using r'(1,2) s by auto
    then show ?thesis using r'(3) by (simp add: update_conv')
  qed
  have origin': "addr \<in> agents \<and> (\<exists>r'\<in>set (rs @ [r]). Rec_SlaveID r' = sid \<and> map_option ASR_Address (Rec_Service r') = Some addr)"
    if a: "map_of (D_consulAgent ?d) sid = Some addr" for sid addr
  proof (cases "ASR_Address s \<in> agents \<and> sid = Rec_SlaveID r")
    case True
    then have "addr = ASR_Address s" using a by (simp add: update_conv')
    then show ?thesis using True s by simp
  next
    case False
    then have "map_of (D_consulAgent d) sid = Some addr" using a by (auto simp: update_conv' split: if_splits)
    from origin [OF this] show ?thesis by auto
  qed
  have "agents_from agents (rs @ [r]) ?d"
  proof (rule agents_fromI)
    show "distinct (map fst (D_consulAgent ?d))" using dist by (simp add: distinct_update)
    show "fst ` set (D_slaveLookup ?d) \<subseteq> agents" using look by (simp add: dom_update)
  qed (rule origin', assumption, rule known', assumption+)
  then have "agents_from agents (rs @ [r]) d'" unfolding d' agents_from_push .
  moreover have "recs_of d' sid = recs_of d sid @ filter (\<lambda>r. Rec_SlaveID r = sid) [r]"
    unfolding d' recs_of_push recs by simp
  ultimately show ?thesis by (rule conjI)
qed

lemma dispatch_mesos_fold:
  assumes "fold_opt (dispatch_mesos agents) ms \<lparr>D_consulAgent = [], D_records = [], D_slaveLookup = []\<rparr> = Some d"
  shows "agents_from agents ms d \<and> recs_of d sid = filter (\<lambda>r. Rec_SlaveID r = sid) ms"
  using assms
proof (induction ms arbitrary: d rule: rev_induct)
  case Nil
  then show ?case by (auto simp: agents_from_def recs_of_def)
next
  case (snoc r ms)
  then obtain d0 where d0: "fold_opt (dispatch_mesos agents) ms \<lparr>D_consulAgent = [], D_records = [], D_slaveLookup = []\<rparr> = Some d0"
    "dispatch_mesos agents r d0 = Some d" by (auto simp: fold_opt_append bind_eq_Some_conv)
  show ?case using snoc.IH [OF d0(1)] dispatch_mesos_step [OF d0(2), of ms sid] by simp
qed

lemma dispatch_framework_fold:
  assumes "\<forall>r\<in>set fs. Rec_Address r = []" "[] \<notin> fst ` set (D_slaveLookup d)"
  shows "fold dispatch_framework fs d = d"
  using assms
proof (induction fs)
  case (Cons r fs)
  have "map_of (D_slaveLookup d) [] = None" using Cons.prems(2) by (simp add: map_of_eq_None_iff)
  then have "dispatch_framework r d = d" using Cons.prems(1) by (simp add: dispatch_framework_def)
  then show ?case using Cons by simp
qed simp

lemma dispatch_task_fold:
  "recs_of (fold dispatch_task ts d) sid = recs_of d sid @ filter (\<lambda>r. Rec_SlaveID r = sid) ts \<and>
   D_consulAgent (fold dispatch_task ts d) = D_consulAgent d"
  by (induction ts arbitrary: d) (auto simp: dispatch_task_def recs_of_push)

lemma Dispatch_eq:
  assumes "Dispatch agents ms fs ts = Some out" "[] \<notin> agents" "\<forall>r\<in>set fs. Rec_Address r = []"
  shows "\<exists>d. agents_from agents ms d \<and>
    out = map (\<lambda>(sid, addr). (addr, filter (\<lambda>r. Rec_SlaveID r = sid) (ms @ ts))) (D_consulAgent d)"
proof -
  obtain d where d: "fold_opt (dispatch_mesos agents) ms \<lparr>D_consulAgent = [], D_records = [], D_slaveLookup = []\<rparr> = Some d"
    and out: "out = map (\<lambda>(slaveid, addr). (addr, recs_of (fold dispatch_task ts (fold dispatch_framework fs d)) slaveid))
      (D_consulAgent (fold dispatch_task ts (fold dispatch_framework fs d)))"
    using assms(1) by (auto simp: Dispatch_def bind_eq_Some_conv Let_def recs_of_def)
  note m = dispatch_mesos_fold [OF d]
  have "[] \<notin> fst ` set (D_slaveLookup d)" using m assms(2) by (auto simp: agents_from_def)
  then have "fold dispatch_framework fs d = d" by (rule dispatch_framework_fold [OF assms(3)])
  then show ?thesis using m out dispatch_task_fold [of ts d] by (intro exI [of _ d]) auto
qed


lemma framework_records_address: "r \<in> set (generateFrameworkRecords rg pfx skip) \<Longrightarrow> Rec_Address r = []"
  by (auto simp: generateFrameworkRecords_def framework_service_def Let_def split: if_splits prod.splits)

lemma mesos_slave_record_eq:
  assumes "mesos_slave_record leader pfx slave = Some (r, i)"
  shows "Rec_SlaveID r = Slave_ID slave" "map_option ASR_Address (Rec_Service r) = map_option UPID_Host (Slave_PID slave)"
  using assms by (auto simp: mesos_slave_record_def bind_eq_Some_conv Let_def)

lemma generateMesosRecords_slaves:
  assumes "generateMesosRecords rg pfx = Some (ms, slaves)"
  shows "list_all2 (\<lambda>slave r. Rec_SlaveID r = Slave_ID slave \<and>
    map_option ASR_Address (Rec_Service r) = map_option UPID_Host (Slave_PID slave)) (State_Slaves (RG_State rg)) ms"
proof -
  obtain leader rs where rs: "map_opt (mesos_slave_record leader pfx) (State_Slaves (RG_State rg)) = Some rs" "ms = map fst rs"
    using assms by (auto simp: generateMesosRecords_def bind_eq_Some_conv)
  then show ?thesis using mesos_slave_record_eq unfolding map_opt_Some_conv
    by (auto simp: list.rel_map elim!: list.rel_mono_strong)
qed

text \<open>The record sets of a reload.\<close>

lemma consul_Reload_sets:
  assumes "consul_Reload unmarshal kvPairs rg b = (b', Some out)" and "[] \<notin> B_Agents b"
  shows "\<exists>ms slaves ts. generateMesosRecords rg (CC_ServicePrefix (B_Config b)) = Some (ms, slaves) \<and>
    generateTaskRecords unmarshal rg (CC_ServicePrefix (B_Config b)) slaves kvPairs (CC_SkipInactiveFrameworks (B_Config b)) = Some ts \<and>
    (\<forall>addr rs. (addr, rs) \<in> set out \<longrightarrow> addr \<in> B_Agents b \<and>
       (\<exists>slave\<in>set (State_Slaves (RG_State rg)). map_option UPID_Host (Slave_PID slave) = Some addr \<and>
          rs = filter (\<lambda>r. Rec_SlaveID r = Slave_ID slave) (ms @ ts))) \<and>
    (\<forall>slave\<in>set (State_Slaves (RG_State rg)). \<forall>u. Slave_PID slave = Some u \<longrightarrow> UPID_Host u \<in> B_Agents b \<longrightarrow>
       (\<exists>addr. (addr, filter (\<lambda>r. Rec_SlaveID r = Slave_ID slave) (ms @ ts)) \<in> set out))"
proof -
  let ?p = "CC_ServicePrefix (B_Config b)" and ?s = "CC_SkipInactiveFrameworks (B_Config b)"
  obtain ms slaves ts where gen: "generateMesosRecords rg ?p = Some (ms, slaves)"
    "generateTaskRecords unmarshal rg ?p slaves kvPairs ?s = Some ts"
    and out: "Dispatch (B_Agents b) ms (generateFrameworkRecords rg ?p ?s) ts = Some out"
    using assms(1) by (auto simp: consul_Reload_def bind_eq_Some_conv Let_def)
  obtain d where d: "agents_from (B_Agents b) ms d"
    "out = map (\<lambda>(sid, addr). (addr, filter (\<lambda>r. Rec_SlaveID r = sid) (ms @ ts))) (D_consulAgent d)"
    using Dispatch_eq [OF out assms(2)] framework_records_address by blast
  note slaves = generateMesosRecords_slaves [OF gen(1)]
  have "addr \<in> B_Agents b \<and> (\<exists>slave\<in>set (State_Slaves (RG_State rg)). map_option UPID_Host (Slave_PID slave) = Some addr \<and>
          rs = filter (\<lambda>r. Rec_SlaveID r = Slave_ID slave) (ms @ ts))" if "(addr, rs) \<in> set out" for addr rs
  proof -
    from that obtain sid where sid: "(sid, addr) \<in> set (D_consulAgent d)" "rs = filter (\<lambda>r. Rec_SlaveID r = sid) (ms @ ts)"
      unfolding d(2) by auto
    then have "map_of (D_consulAgent d) sid = Some addr" using d(1) by (simp add: agents_from_def)
    then obtain r where "addr \<in> B_Agents b" "r \<in> set ms" "Rec_SlaveID r = sid" "map_option ASR_Address (Rec_Service r) = Some addr"
      using d(1) unfolding agents_from_def by blast
    moreover from this obtain slave where "slave \<in> set (State_Slaves (RG_State rg))" "Rec_SlaveID r = Slave_ID slave"
      "map_option ASR_Address (Rec_Service r) = map_option UPID_Host (Slave_PID slave)"
      using list_all2_rightD [OF slaves, of r] by blast
    ultimately show ?thesis using sid(2) by (intro conjI bexI [of _ slave]) simp_all
  qed
  moreover have "\<exists>addr. (addr, filter (\<lambda>r. Rec_SlaveID r = Slave_ID slave) (ms @ ts)) \<in> set out"
    if slave: "slave \<in> set (State_Slaves (RG_State rg))" "Slave_PID slave = Some u" "UPID_Host u \<in> B_Agents b" for slave u
  proof -
    obtain r where r: "r \<in> set ms" "Rec_SlaveID r = Slave_ID slave" "map_option ASR_Address (Rec_Service r) = Some (UPID_Host u)"
      using list_all2_leftD [OF slaves slave(1)] slave(2) by auto
    then obtain s where "Rec_Service r = Some s" "ASR_Address s = UPID_Host u" by auto
    then obtain addr where "map_of (D_consulAgent d) (Slave_ID slave) = Some addr"
      using d(1) r slave(3) unfolding agents_from_def by fastforce
    then have "(Slave_ID slave, addr) \<in> set (D_consulAgent d)" by (rule map_of_SomeD)
    then show ?thesis unfolding d(2) by force
  qed
  ultimately show ?thesis using gen by blast
qed

text \<open>
  An endpoint without a definition gives an empty check and no error, so an empty check is
  registered; and the error of a field that cannot be expanded is lost when a later field can.
\<close>

lemma missing_check_registered: "createHealthChecks unmarshal [] endpoint ident address port = (zero_Check, None)"
  by (simp add: createHealthChecks_def)

lemma check_error_lost:
  "snd (createHealthChecks (\<lambda>_ c. (c\<lparr>ACR_Check := (ACR_Check c)\<lparr>ASC_HTTP := ''{PORT}'', ASC_TCP := ''x''\<rparr>\<rparr>, False))
     [\<lparr>KV_Key = ''healthchecks/web'', KV_Value = []\<rparr>] ''web'' ''id'' ''10.0.0.1'' ''0'') = None"
  "snd (evalVars ''{PORT}'' ''10.0.0.1'' ''0'') \<noteq> None"
  by code_simp+

section \<open>Properties\<close>

text \<open>C26: a reload of the Consul backend sends to the agent on a slave's host exactly the service of
  that slave and the services and checks of the tasks on it, in this order, and sends
  something to the agent of every slave whose host runs one. The services of frameworks reach
  no agent.\<close>

theorem consul_Reload_dispatches:
  assumes "consul_Reload unmarshal kvPairs rg b = (b', Some out)" and "[] \<notin> B_Agents b"
  shows "\<exists>ms slaves ts. generateMesosRecords rg (CC_ServicePrefix (B_Config b)) = Some (ms, slaves) \<and>
    generateTaskRecords unmarshal rg (CC_ServicePrefix (B_Config b)) slaves kvPairs (CC_SkipInactiveFrameworks (B_Config b)) = Some ts \<and>
    (\<forall>addr rs. (addr, rs) \<in> set out \<longrightarrow> addr \<in> B_Agents b \<and>
       (\<exists>slave\<in>set (State_Slaves (RG_State rg)). map_option UPID_Host (Slave_PID slave) = Some addr \<and>
          rs = filter (\<lambda>r. Rec_SlaveID r = Slave_ID slave) (ms @ ts))) \<and>
    (\<forall>slave\<in>set (State_Slaves (RG_State rg)). \<forall>u. Slave_PID slave = Some u \<longrightarrow> UPID_Host u \<in> B_Agents b \<longrightarrow>
       (\<exists>addr. (addr, filter (\<lambda>r. Rec_SlaveID r = Slave_ID slave) (ms @ ts)) \<in> set out))"
  by (rule consul_Reload_sets [OF assms])

definition demo_agent_slave :: Slave where
  "demo_agent_slave = \<lparr>Slave_ID = ''s-1'', Slave_Hostname = ''h.local'',
     Slave_PID = Some \<lparr>UPID_ID = ''slave(1)'', UPID_Host = ''10.0.0.2'', UPID_Port = ''5051''\<rparr>,
     Slave_Attrs = \<lparr>Attributes_DC = [], Attributes_Master = ''true'', Attributes_Rack = []\<rparr>, Slave_Active = True\<rparr>"

definition demo_agent_rg :: RecordGenerator where
  "demo_agent_rg = (NewRecordGenerator (NewConfig 0))
     \<lparr>RG_State := \<lparr>State_Frameworks = [], State_Slaves = [demo_agent_slave], State_Leader = ''master@10.0.0.2:5050''\<rparr>\<rparr>"

definition demo_backend :: Backend where
  "demo_backend = \<lparr>B_Agents = {''10.0.0.2''}, B_Config = consul_NewConfig, B_count = 0\<rparr>"

theorem consul_Reload_dispatches_witness:
  "\<exists>b' out addr rs. consul_Reload (\<lambda>_ c. (c, True)) [] demo_agent_rg demo_backend = (b', Some out) \<and>
     (addr, rs) \<in> set out \<and> addr \<in> B_Agents demo_backend"
proof -
  have "snd (consul_Reload (\<lambda>_ c. (c, True)) [] demo_agent_rg demo_backend) \<noteq> None" by code_simp
  then obtain b' out where r: "consul_Reload (\<lambda>_ c. (c, True)) [] demo_agent_rg demo_backend = (b', Some out)"
    by (cases "consul_Reload (\<lambda>_ c. (c, True)) [] demo_agent_rg demo_backend") auto
  have no: "[] \<notin> B_Agents demo_backend" by (simp add: demo_backend_def)
  have "demo_agent_slave \<in> set (State_Slaves (RG_State demo_agent_rg))"
    "Slave_PID demo_agent_slave = Some \<lparr>UPID_ID = ''slave(1)'', UPID_Host = ''10.0.0.2'', UPID_Port = ''5051''\<rparr>"
    "''10.0.0.2'' \<in> B_Agents demo_backend"
    by (simp_all add: demo_agent_rg_def demo_agent_slave_def demo_backend_def)
  with consul_Reload_dispatches [OF r no] obtain addr rs where "(addr, rs) \<in> set out" "addr \<in> B_Agents demo_backend" by fastforce
  then show ?thesis using r by blast
qed

text \<open>The name of every service the backend registers consists of lower-case letters, digits
  and hyphens, for any name of a task or framework.\<close>

theorem CreateService_name:
  "list_all service_char (ASR_Name (CreateService ident name address port tags))"
proof -
  have "CHR ''_'' \<notin> set (ReplaceAll (replace_nonword name) ''_'' [])"
    "set (ReplaceAll (replace_nonword name) ''_'' []) \<subseteq> set (replace_nonword name)"
    unfolding ReplaceAll_def using set_Join [of "Split (replace_nonword name) ''_''" "[]"]
      Split_parts_no_sep [of _ "replace_nonword name" "CHR ''_''"] Split_parts_subset [of _ "replace_nonword name" "CHR ''_''"]
    by fastforce+
  then have "service_char (byte_lower c)" if "c \<in> set (ReplaceAll (replace_nonword name) ''_'' [])" for c
    using that replace_nonword_chars byte_lower_service by blast
  then show ?thesis by (simp add: ToLower_def list_all_iff)
qed

end
