(* ===== verification/Consul_Agent.thy ===== *)
theory Consul_Agent
  imports Consul
begin

text \<open>
  \<open>resolvers/consul/consul.go\<close>: connecting to Consul, the loop of one agent, and the poller of
  health checks. The Consul API, reached over HTTP, is a record of functions on the outside world
  \<open>'w\<close>; a call returns whether it succeeded.
\<close>

section \<open>The API\<close>

record client_config =
  Client_Address :: string
  Client_Datacenter :: string
  Client_Scheme :: string
  Client_Token :: string
  Client_Timeout :: int

record AgentService =
  AS_ID :: string
  AS_Service :: string
  AS_Tags :: "string list"
  AS_Port :: int
  AS_Address :: string

text \<open>
  \<open>api_connect\<close> makes a client and asks the agent for itself; \<open>api_Services\<close> lists the services
  in the order Go visits the map.
\<close>

record 'w consul_api =
  api_connect :: "client_config \<Rightarrow> 'w \<Rightarrow> bool \<times> 'w"
  api_Members :: "'w \<Rightarrow> string list option \<times> 'w"
  api_Services :: "'w \<Rightarrow> AgentService list option \<times> 'w"
  api_ServiceRegister :: "AgentServiceRegistration \<Rightarrow> 'w \<Rightarrow> bool \<times> 'w"
  api_CheckRegister :: "AgentCheckRegistration \<Rightarrow> 'w \<Rightarrow> bool \<times> 'w"
  api_ServiceDeregister :: "string \<Rightarrow> 'w \<Rightarrow> bool \<times> 'w"
  api_CheckDeregister :: "string \<Rightarrow> 'w \<Rightarrow> bool \<times> 'w"
  api_Now :: "'w \<Rightarrow> int"

definition consulInit :: "'w consul_api \<Rightarrow> ConsulConfig \<Rightarrow> string \<Rightarrow> string \<Rightarrow> int \<Rightarrow> 'w \<Rightarrow> bool \<times> 'w" where
  "consulInit api config addr port refresh =
     api_connect api \<lparr>Client_Address = Join [addr, port] '':'', Client_Datacenter = CC_Datacenter config,
       Client_Scheme = CC_Scheme config, Client_Token = CC_Token config, Client_Timeout = refresh\<rparr>"

text \<open>
  \<open>New\<close>: a nil backend for a malformed address; when the agent cannot be reached, the error is
  sent on the unbuffered channel that only the main loop, which has not started, reads.
\<close>

datatype new_result = NilBackend | Blocked | Started Backend

definition consul_New :: "'w consul_api \<Rightarrow> ConsulConfig \<Rightarrow> RecordGenerator \<Rightarrow> 'w \<Rightarrow> new_result \<times> 'w" where
  "consul_New api config rg w =
     (case SplitHostPort (CC_Address config) of
        (_, _, Some _) \<Rightarrow> (NilBackend, w)
      | (addr, port, None) \<Rightarrow>
          let (ok, w1) = consulInit api config addr port (Config_RefreshSeconds (RG_Config rg)) w
          in if \<not> ok then (Blocked, w1)
             else
               let (members, w2) = api_Members api w1
               in (case members of
                     None \<Rightarrow> (Blocked, w2)
                   | Some ms \<Rightarrow> (Started \<lparr>B_Agents = set ms, B_Config = config, B_count = 0\<rparr>, w2)))"

section \<open>One agent\<close>

record agent =
  A_Address :: string
  A_Healthy :: bool
  A_count :: int
  A_cache :: cache
  A_Updated :: "int option"

text \<open>The agent \<open>consulAgent\<close> starts with; \<open>A_Updated\<close> is the last time stamp sent.\<close>

definition new_agent :: "string \<Rightarrow> agent" where
  "new_agent addr = \<lparr>A_Address = addr, A_Healthy = False, A_count = 0,
     A_cache = \<lparr>Cache_Records = None, Cache_Updated = 0\<rparr>, A_Updated = None\<rparr>"

fun service_records :: "string \<Rightarrow> AgentService list \<Rightarrow> Record list option" where
  "service_records pfx [] = Some []"
| "service_records pfx (service # rest) =
     (let parts = Split (AS_ID service) '':''
      in if hd parts \<noteq> pfx then service_records pfx rest
         else do {
           slave \<leftarrow> slice_at parts 1;
           recs \<leftarrow> service_records pfx rest;
           Some (\<lparr>Rec_Action = [], Rec_Address = AS_Address service, Rec_SlaveID = slave, Rec_Type = ''service'',
                  Rec_Service = Some \<lparr>ASR_ID = AS_ID service, ASR_Name = AS_Service service, ASR_Tags = AS_Tags service,
                    ASR_Port = AS_Port service, ASR_Address = AS_Address service\<rparr>,
                  Rec_Check = None\<rparr> # recs) })"

definition agentServiceRecords :: "'w consul_api \<Rightarrow> string \<Rightarrow> 'w \<Rightarrow> Record list option \<times> 'w" where
  "agentServiceRecords api pfx w =
     (let (services, w') = api_Services api w
      in case services of
           None \<Rightarrow> (Some [], w')
         | Some ss \<Rightarrow> (map_option (\<lambda>rs. replicate (length ss) zero_Record @ rs) (service_records pfx ss), w'))"

definition drop_cache :: "agent \<Rightarrow> agent" where
  "drop_cache a = a\<lparr>A_cache := (A_cache a)\<lparr>Cache_Records := Some []\<rparr>\<rparr>"

definition cache_record :: "'w consul_api \<Rightarrow> string \<Rightarrow> Record \<Rightarrow> agent \<times> 'w \<Rightarrow> (agent \<times> 'w) option" where
  "cache_record api action r = (\<lambda>(a, w). do {
     c \<leftarrow> UpdateCache (api_Now api w) r action (A_cache a);
     Some (a\<lparr>A_cache := c\<rparr>, w) })"

text \<open>
  The head of the loop: whether the agent is ready for records (otherwise the loop starts again
  after a second). A refresh interval of zero divides by zero.
\<close>

definition agent_refresh :: "'w consul_api \<Rightarrow> ConsulConfig \<Rightarrow> string \<Rightarrow> agent \<times> 'w \<Rightarrow> (bool \<times> agent \<times> 'w) option" where
  "agent_refresh api config port = (\<lambda>(a, w).
     if CC_CacheRefresh config = 0 then None
     else if \<not> CC_CacheRefresh config dvd A_count a then Some (True, a, w)
     else
       let (ok, w1) = (if A_Healthy a then (True, w) else consulInit api config (A_Address a) port 5 w);
           a1 = (if A_Healthy a then a else drop_cache (a\<lparr>A_Healthy := True\<rparr>))
       in if \<not> ok then Some (False, a, w1)
          else if CC_CacheOnly config then Some (True, drop_cache a1, w1)
          else
            let (recs, w2) = agentServiceRecords api (CC_ServicePrefix config) w1
            in do {
              recs \<leftarrow> recs;
              (a2, w3) \<leftarrow> fold_opt (cache_record api ''add'') recs (a1, w2);
              Some (True, a2, w3) })"

text \<open>One record of the difference.\<close>

definition call_api :: "'w consul_api \<Rightarrow> Record \<Rightarrow> 'w \<Rightarrow> (bool \<times> 'w) option" where
  "call_api api r w =
     (if Rec_Action r = ''add'' then
        (if Rec_Type r = ''service'' then do { s \<leftarrow> Rec_Service r; Some (api_ServiceRegister api s w) }
         else if Rec_Type r = ''check'' then do { c \<leftarrow> Rec_Check r; Some (api_CheckRegister api c w) }
         else Some (True, w))
      else if Rec_Action r = ''remove'' then
        (if Rec_Type r = ''service'' then do { s \<leftarrow> Rec_Service r; Some (api_ServiceDeregister api (ASR_ID s) w) }
         else if Rec_Type r = ''check'' then do { c \<leftarrow> Rec_Check r; Some (api_CheckDeregister api (ACR_ID c) w) }
         else Some (True, w))
      else Some (True, w))"

definition apply_record :: "'w consul_api \<Rightarrow> Record \<Rightarrow> agent \<times> 'w \<Rightarrow> (agent \<times> 'w) option" where
  "apply_record api r = (\<lambda>(a, w).
     if \<not> A_Healthy a then Some (a, w)
     else do {
       (ok, w1) \<leftarrow> call_api api r w;
       let a1 = (if ok then a else a\<lparr>A_Healthy := False\<rparr>);
       (a2, w2) \<leftarrow> (if Rec_Action r \<in> {''add'', ''remove''} then cache_record api (Rec_Action r) r (a1, w1) else Some (a1, w1));
       Some (a2\<lparr>A_Updated := Some (Cache_Updated (A_cache a2))\<rparr>, w2) })"

text \<open>A set of records received: \<open>ord1\<close> and \<open>ord2\<close> are the orders of the two reads of the cache.\<close>

definition agent_round ::
  "'w consul_api \<Rightarrow> (Record list \<Rightarrow> Record list) \<Rightarrow> (Record list \<Rightarrow> Record list) \<Rightarrow> Record list \<Rightarrow> agent \<times> 'w \<Rightarrow> (agent \<times> 'w) option" where
  "agent_round api ord1 ord2 recordSet = (\<lambda>(a, w). do {
     additions \<leftarrow> getDeltaRecords (CachedRecords ord1 (A_cache a)) recordSet ''add'';
     removals \<leftarrow> getDeltaRecords recordSet (CachedRecords ord2 (A_cache a)) ''remove'';
     fold_opt (apply_record api) (additions @ removals) (a\<lparr>A_count := A_count a + 1\<rparr>, w) })"

text \<open>
  One pass of the loop with a set of records waiting: they are taken only when the agent is ready.
\<close>

definition agent_pass ::
  "'w consul_api \<Rightarrow> ConsulConfig \<Rightarrow> string \<Rightarrow> (Record list \<Rightarrow> Record list) \<Rightarrow> (Record list \<Rightarrow> Record list) \<Rightarrow>
   Record list \<Rightarrow> agent \<times> 'w \<Rightarrow> (agent \<times> 'w) option" where
  "agent_pass api config port ord1 ord2 recordSet s = do {
     (ready, s') \<leftarrow> agent_refresh api config port s;
     if ready then agent_round api ord1 ord2 recordSet s' else Some s' }"

section \<open>The poller of health checks\<close>

text \<open>
  One iteration of \<open>pollConsulKVHC\<close>: \<open>listed\<close> is the outcome of the request, made only when the
  counter calls for it; the result is the new counter and pairs, and whether they are sent.
\<close>

definition poll_step :: "int \<Rightarrow> KVPair list option \<Rightarrow> int \<times> KVPair list \<Rightarrow> ((int \<times> KVPair list) \<times> bool) option" where
  "poll_step refresh listed = (\<lambda>(n, kvs).
     if refresh = 0 then None
     else if (n + 1) mod \<bar>refresh\<bar> = 1 then
       (case listed of None \<Rightarrow> Some ((n + 1, []), False) | Some kvs' \<Rightarrow> Some ((n + 1, kvs'), True))
     else Some ((n + 1, kvs), True))"


text \<open>With an interval of one the poller never asks Consul: its remainder is never one.\<close>

lemma poll_interval_one: "poll_step 1 listed (n, kvs) = Some ((n + 1, kvs), True)"
  by (simp add: poll_step_def)

end
