(* ===== verification/Consul_Props.thy ===== *)
theory Consul_Props
  imports Consul_Agent
begin

text \<open>
  What the Consul backend does: service names, the expansion of health checks, which agent gets
  which records, and that an agent brings the registrations in line with the records it is sent.
\<close>

section \<open>Differences\<close>

definition service_rec :: "Record \<Rightarrow> bool" where
  "service_rec r \<longleftrightarrow> Rec_Type r = ''service'' \<and> Rec_Service r \<noteq> None \<and> Rec_Check r = None"

definition check_rec :: "Record \<Rightarrow> bool" where
  "check_rec r \<longleftrightarrow> Rec_Type r = ''check'' \<and> Rec_Service r = None \<and> Rec_Check r \<noteq> None"

definition wf_rec :: "Record \<Rightarrow> bool" where
  "wf_rec r \<longleftrightarrow> service_rec r \<or> check_rec r"

text \<open>The identifier of a record, and when two records register the same thing.\<close>

definition rid :: "Record \<Rightarrow> string" where
  "rid r = (case Rec_Service r of Some s \<Rightarrow> ASR_ID s | None \<Rightarrow> (case Rec_Check r of Some c \<Rightarrow> ACR_ID c | None \<Rightarrow> []))"

definition same_rec :: "Record \<Rightarrow> Record \<Rightarrow> bool" where
  "same_rec r e \<longleftrightarrow>
     (case (Rec_Service r, Rec_Service e) of (Some a, Some b) \<Rightarrow> compareService a b | _ \<Rightarrow> False) \<or>
     (case (Rec_Check r, Rec_Check e) of (Some a, Some b) \<Rightarrow> compareCheck a b | _ \<Rightarrow> False)"

text \<open>
  The two difference functions share a contract: they go through the new records and keep, with
  the given action, those that the comparison finds in no old record.
\<close>

locale record_delta =
  fixes cmp :: "'a \<Rightarrow> 'a \<Rightarrow> bool" and sel :: "Record \<Rightarrow> 'a option"
    and delta :: "Record list \<Rightarrow> Record list \<Rightarrow> string \<Rightarrow> Record list option"
  assumes delta_Nil: "delta old [] action = Some []"
    and delta_Cons: "delta old (r # rs) action = do {
      found \<leftarrow> found_in cmp sel r old; ds \<leftarrow> delta old rs action;
      Some (if found then ds else r\<lparr>Rec_Action := action\<rparr> # ds) }"
begin

lemma found_in_eq:
  "sel r \<noteq> None \<Longrightarrow> \<forall>e\<in>set es. sel e \<noteq> None \<Longrightarrow>
   found_in cmp sel r es = Some (\<exists>e\<in>set es. cmp (the (sel r)) (the (sel e)))"
  by (induction es) auto

lemma delta_eq:
  assumes "\<forall>r\<in>set old. sel r \<noteq> None" "\<forall>r\<in>set new. sel r \<noteq> None"
  shows "delta old new action = Some (map (Rec_Action_update (\<lambda>_. action))
    (filter (\<lambda>r. \<not> (\<exists>e\<in>set old. cmp (the (sel r)) (the (sel e)))) new))"
  using assms by (induction new) (auto simp: found_in_eq delta_Nil delta_Cons)

end

interpretation services: record_delta compareService Rec_Service getDeltaServices
  by unfold_locales simp_all

interpretation checks: record_delta compareCheck Rec_Check getDeltaChecks
  by unfold_locales simp_all

text \<open>The records of \<open>new\<close> that \<open>old\<close> lacks, services first.\<close>

definition missing :: "Record list \<Rightarrow> Record list \<Rightarrow> Record list" where
  "missing old new =
     filter (\<lambda>r. Rec_Service r \<noteq> None \<and> \<not> (\<exists>e\<in>set old. same_rec r e)) new @
     filter (\<lambda>r. Rec_Check r \<noteq> None \<and> \<not> (\<exists>e\<in>set old. same_rec r e)) new"

definition one_kind :: "Record \<Rightarrow> bool" where
  "one_kind r \<longleftrightarrow> Rec_Service r = None \<or> Rec_Check r = None"

lemma one_kind_simps: "wf_rec r \<Longrightarrow> one_kind r" "one_kind zero_Record"
  by (auto simp: wf_rec_def service_rec_def check_rec_def one_kind_def zero_Record_def)

lemma getDeltaRecords_eq:
  assumes "\<forall>r\<in>set old. one_kind r" "\<forall>r\<in>set new. one_kind r"
  shows "getDeltaRecords old new action = Some (map (Rec_Action_update (\<lambda>_. action)) (missing old new))"
proof -
  have "filter (\<lambda>r. \<not> (\<exists>e\<in>set (filter (\<lambda>r. Rec_Service r \<noteq> None) old). compareService (the (Rec_Service r)) (the (Rec_Service e))))
        (filter (\<lambda>r. Rec_Service r \<noteq> None) new)
      = filter (\<lambda>r. Rec_Service r \<noteq> None \<and> \<not> (\<exists>e\<in>set old. same_rec r e)) new"
    unfolding filter_filter using assms(2)
    by (intro filter_cong refl) (fastforce simp: same_rec_def one_kind_def split: option.splits)
  moreover have "filter (\<lambda>r. \<not> (\<exists>e\<in>set (filter (\<lambda>r. Rec_Check r \<noteq> None) old). compareCheck (the (Rec_Check r)) (the (Rec_Check e))))
        (filter (\<lambda>r. Rec_Check r \<noteq> None) new)
      = filter (\<lambda>r. Rec_Check r \<noteq> None \<and> \<not> (\<exists>e\<in>set old. same_rec r e)) new"
    unfolding filter_filter using assms(2)
    by (intro filter_cong refl) (fastforce simp: same_rec_def one_kind_def split: option.splits)
  ultimately show ?thesis
    by (simp add: getDeltaRecords_def missing_def services.delta_eq checks.delta_eq)
qed

lemma set_missing:
  "\<forall>r\<in>set new. wf_rec r \<or> r = zero_Record \<Longrightarrow> set (missing old new) = {r \<in> set new. wf_rec r \<and> \<not> (\<exists>e\<in>set old. same_rec r e)}"
  by (auto simp: missing_def wf_rec_def service_rec_def check_rec_def zero_Record_def)

lemma distinct_missing:
  assumes "distinct (map rid (filter wf_rec new))" "\<forall>r\<in>set new. wf_rec r \<or> r = zero_Record"
  shows "distinct (map rid (missing old new))"
proof -
  define P where "P r \<longleftrightarrow> Rec_Service r \<noteq> None \<and> \<not> (\<exists>e\<in>set old. same_rec r e)" for r
  define Q where "Q r \<longleftrightarrow> Rec_Check r \<noteq> None \<and> \<not> (\<exists>e\<in>set old. same_rec r e)" for r
  have zero: "\<not> P zero_Record" "\<not> Q zero_Record" by (simp_all add: P_def Q_def zero_Record_def)
  have P: "filter P new = filter P (filter wf_rec new)" and Q: "filter Q new = filter Q (filter wf_rec new)"
    unfolding filter_filter by (rule filter_cong [OF refl], use assms(2) zero in blast)+
  have PQ: "wf_rec r \<Longrightarrow> P r \<Longrightarrow> \<not> Q r" for r
    by (auto simp: P_def Q_def wf_rec_def service_rec_def check_rec_def)
  have inj: "inj_on rid (set (filter wf_rec new))" using assms(1) by (simp add: distinct_map)
  have "rid r \<noteq> rid s" if "r \<in> set (filter P (filter wf_rec new))" "s \<in> set (filter Q (filter wf_rec new))" for r s
    using that PQ inj_onD [OF inj, of r s] by auto
  then have "rid ` set (filter P (filter wf_rec new)) \<inter> rid ` set (filter Q (filter wf_rec new)) = {}" by blast
  then have "distinct (map rid (filter P (filter wf_rec new) @ filter Q (filter wf_rec new)))"
    using distinct_map_filter [OF assms(1)] by (simp del: filter_filter)
  then show ?thesis unfolding missing_def P_def [symmetric] Q_def [symmetric] P [symmetric] Q [symmetric] .
qed


section \<open>One agent\<close>

text \<open>The cache as a map, and its well-formedness: records are stored under their identifier.\<close>

definition cmap :: "agent \<Rightarrow> string \<rightharpoonup> Record" where
  "cmap a = map_of (case Cache_Records (A_cache a) of None \<Rightarrow> [] | Some rs \<Rightarrow> rs)"

definition cache_ok :: "agent \<Rightarrow> bool" where
  "cache_ok a \<longleftrightarrow> (case Cache_Records (A_cache a) of
     None \<Rightarrow> True
   | Some rs \<Rightarrow> distinct (map fst rs) \<and> list_all (\<lambda>(i, r). wf_rec r \<and> rid r = i \<or> i = [] \<and> r = zero_Record) rs)"

text \<open>
  A Consul agent whose calls succeed and do what the API documents: registering a service sets
  the registration of its identifier, deregistering removes it. \<open>svcs\<close> reads the registrations.
\<close>

definition api_ok :: "'w consul_api \<Rightarrow> ('w \<Rightarrow> string \<rightharpoonup> AgentServiceRegistration) \<Rightarrow> bool" where
  "api_ok api svcs \<longleftrightarrow>
     (\<forall>s w. fst (api_ServiceRegister api s w) \<and> svcs (snd (api_ServiceRegister api s w)) = (svcs w)(ASR_ID s \<mapsto> s)) \<and>
     (\<forall>i w. fst (api_ServiceDeregister api i w) \<and> svcs (snd (api_ServiceDeregister api i w)) = (svcs w)(i := None)) \<and>
     (\<forall>c w. fst (api_CheckRegister api c w) \<and> svcs (snd (api_CheckRegister api c w)) = svcs w) \<and>
     (\<forall>i w. fst (api_CheckDeregister api i w) \<and> svcs (snd (api_CheckDeregister api i w)) = svcs w)"

lemma record_id_rid: "wf_rec r \<or> r = zero_Record \<Longrightarrow> record_id r = Some (rid r)"
  by (auto simp: wf_rec_def service_rec_def check_rec_def record_id_def rid_def zero_Record_def)

lemma rid_zero [simp]: "rid zero_Record = []"
  by (simp add: rid_def zero_Record_def)

lemma UpdateCache_cmap:
  assumes "wf_rec r \<or> r = zero_Record" "cache_ok a" "action \<in> {''add'', ''remove''}"
  shows "\<exists>c. UpdateCache now r action (A_cache a) = Some c \<and>
    cmap (a\<lparr>A_cache := c\<rparr>) = (cmap a)(rid r := (if action = ''add'' then Some r else None)) \<and> cache_ok (a\<lparr>A_cache := c\<rparr>)"
proof -
  define rs where "rs = (case Cache_Records (A_cache a) of None \<Rightarrow> [] | Some rs \<Rightarrow> rs)"
  have ok: "distinct (map fst rs)" "\<forall>(i, r)\<in>set rs. wf_rec r \<and> rid r = i \<or> i = [] \<and> r = zero_Record"
    using assms(2) unfolding cache_ok_def rs_def by (auto simp: list_all_iff split: option.splits)
  define rs' where "rs' = (if action = ''add'' then AList.update (rid r) r rs else AList.delete (rid r) rs)"
  have "UpdateCache now r action (A_cache a) = Some ((A_cache a)\<lparr>Cache_Records := Some rs', Cache_Updated := now\<rparr>)"
    using assms(3) by (auto simp: UpdateCache_def record_id_rid [OF assms(1)] Let_def rs_def rs'_def)
  moreover have m: "map_of rs' = (map_of rs)(rid r := (if action = ''add'' then Some r else None))"
    by (auto simp: rs'_def update_conv' delete_conv')
  moreover have d: "distinct (map fst rs')" using ok(1) by (simp add: rs'_def distinct_update distinct_delete)
  have "\<forall>(i, x)\<in>set rs'. wf_rec x \<and> rid x = i \<or> i = [] \<and> x = zero_Record"
  proof (intro ballI, clarify)
    fix i x assume "(i, x) \<in> set rs'" "\<not> (i = [] \<and> x = zero_Record)"
    then have "map_of rs' i = Some x" using d by (simp only: map_of_is_SomeI)
    then have "i = rid r \<and> x = r \<or> (i, x) \<in> set rs" unfolding m by (auto simp: fun_upd_def map_of_SomeD split: if_splits)
    then show "wf_rec x \<and> rid x = i" using ok(2) assms(1) \<open>\<not> (i = [] \<and> x = zero_Record)\<close> by auto
  qed
  moreover note d
  moreover have "cmap a = map_of rs" by (simp add: cmap_def rs_def)
  ultimately show ?thesis
    by (intro exI [of _ "(A_cache a)\<lparr>Cache_Records := Some rs', Cache_Updated := now\<rparr>"])
      (simp add: cmap_def cache_ok_def list_all_iff)
qed


text \<open>One record of the difference, for a healthy agent.\<close>

definition act_map :: "Record \<Rightarrow> ('v option) \<Rightarrow> (string \<rightharpoonup> 'v) \<Rightarrow> (string \<rightharpoonup> 'v)" where
  "act_map r v m = m(rid r := (if Rec_Action r = ''add'' then v else None))"

lemma rid_service: "service_rec r \<Longrightarrow> Rec_Service r = Some s \<Longrightarrow> rid r = ASR_ID s"
  by (simp add: rid_def)

lemma call_api_ok:
  assumes "api_ok api svcs" "wf_rec r" "Rec_Action r \<in> {''add'', ''remove''}"
  shows "\<exists>w'. call_api api r w = Some (True, w') \<and>
    svcs w' = (if service_rec r then act_map r (Rec_Service r) (svcs w) else svcs w)"
proof (cases "service_rec r")
  case True
  then obtain s where s: "Rec_Service r = Some s" "Rec_Type r = ''service''" by (auto simp: service_rec_def)
  have "fst (api_ServiceRegister api s w) \<and> svcs (snd (api_ServiceRegister api s w)) = (svcs w)(ASR_ID s \<mapsto> s)"
    "fst (api_ServiceDeregister api (ASR_ID s) w) \<and> svcs (snd (api_ServiceDeregister api (ASR_ID s) w)) = (svcs w)(ASR_ID s := None)"
    using assms(1) by (simp_all add: api_ok_def)
  then show ?thesis using assms(3) True s rid_service [OF True s(1)]
    by (cases "api_ServiceRegister api s w"; cases "api_ServiceDeregister api (ASR_ID s) w") (auto simp: call_api_def act_map_def)
next
  case False
  then obtain c where c: "Rec_Check r = Some c" "Rec_Type r = ''check''" using assms(2) by (auto simp: wf_rec_def check_rec_def)
  have "fst (api_CheckRegister api c w) \<and> svcs (snd (api_CheckRegister api c w)) = svcs w"
    "fst (api_CheckDeregister api (ACR_ID c) w) \<and> svcs (snd (api_CheckDeregister api (ACR_ID c) w)) = svcs w"
    using assms(1) by (simp_all add: api_ok_def)
  then show ?thesis using assms(3) False c
    by (cases "api_CheckRegister api c w"; cases "api_CheckDeregister api (ACR_ID c) w") (auto simp: call_api_def)
qed

lemma apply_record_ok:
  assumes "api_ok api svcs" "wf_rec r" "Rec_Action r \<in> {''add'', ''remove''}" "A_Healthy a" "cache_ok a"
  shows "\<exists>a' w'. apply_record api r (a, w) = Some (a', w') \<and> A_Healthy a' \<and> cache_ok a' \<and>
    cmap a' = act_map r (Some r) (cmap a) \<and> A_count a' = A_count a \<and>
    svcs w' = (if service_rec r then act_map r (Rec_Service r) (svcs w) else svcs w)"
proof -
  obtain w1 where w1: "call_api api r w = Some (True, w1)"
    "svcs w1 = (if service_rec r then act_map r (Rec_Service r) (svcs w) else svcs w)"
    using call_api_ok [OF assms(1-3)] by blast
  obtain c where c: "UpdateCache (api_Now api w1) r (Rec_Action r) (A_cache a) = Some c"
    "cmap (a\<lparr>A_cache := c\<rparr>) = (cmap a)(rid r := (if Rec_Action r = ''add'' then Some r else None))" "cache_ok (a\<lparr>A_cache := c\<rparr>)"
    using UpdateCache_cmap [OF _ assms(5,3)] assms(2) by blast
  let ?a = "a\<lparr>A_cache := c, A_Updated := Some (Cache_Updated c)\<rparr>"
  have "apply_record api r (a, w) = Some (?a, w1)"
    using assms(3,4) w1(1) c(1) by (simp add: apply_record_def cache_record_def)
  moreover have "cmap ?a = act_map r (Some r) (cmap a)" using c(2) by (simp add: cmap_def act_map_def)
  moreover have "cache_ok ?a" using c(3) by (simp add: cache_ok_def)
  ultimately show ?thesis using w1(2) assms(4) by (intro exI [of _ ?a] exI [of _ w1]) simp
qed

lemma apply_records_ok:
  assumes "api_ok api svcs" "\<forall>r\<in>set rs. wf_rec r \<and> Rec_Action r \<in> {''add'', ''remove''}" "A_Healthy a" "cache_ok a"
  shows "\<exists>a' w'. fold_opt (apply_record api) rs (a, w) = Some (a', w') \<and> A_Healthy a' \<and> cache_ok a' \<and>
    cmap a' = fold (\<lambda>r. act_map r (Some r)) rs (cmap a) \<and> A_count a' = A_count a \<and>
    svcs w' = fold (\<lambda>r. act_map r (Rec_Service r)) (filter service_rec rs) (svcs w)"
  using assms(2-)
proof (induction rs arbitrary: a w)
  case Nil
  then show ?case by simp
next
  case (Cons r rs)
  obtain a1 w1 where 1: "apply_record api r (a, w) = Some (a1, w1)" "A_Healthy a1" "cache_ok a1"
    "cmap a1 = act_map r (Some r) (cmap a)" "A_count a1 = A_count a"
    "svcs w1 = (if service_rec r then act_map r (Rec_Service r) (svcs w) else svcs w)"
    using apply_record_ok [OF assms(1), of r a w] Cons.prems by auto
  have "\<forall>r\<in>set rs. wf_rec r \<and> Rec_Action r \<in> {''add'', ''remove''}" using Cons.prems(1) by simp
  from Cons.IH [OF this 1(2,3), of w1] show ?case using 1 by auto
qed


definition tags_ok :: "Record \<Rightarrow> bool" where
  "tags_ok r \<longleftrightarrow> (case Rec_Service r of Some s \<Rightarrow> distinct (ASR_Tags s) | None \<Rightarrow> True)"

lemma rid_action [simp]: "rid (Rec_Action_update f r) = rid r"
  by (simp add: rid_def split: option.split)

lemma wf_action [simp]:
  "service_rec (Rec_Action_update f r) = service_rec r" "wf_rec (Rec_Action_update f r) = wf_rec r"
  by (simp_all add: wf_rec_def service_rec_def check_rec_def)

lemma tags_action [simp]: "tags_ok (Rec_Action_update f r) = tags_ok r"
  by (simp add: tags_ok_def)

lemma same_rec_action [simp]:
  "same_rec (Rec_Action_update f r) e = same_rec r e" "same_rec e (Rec_Action_update f r) = same_rec e r"
  by (simp_all add: same_rec_def)

lemma fold_act_out: "i \<notin> rid ` set rs \<Longrightarrow> fold (\<lambda>r. act_map r (v r)) rs m i = m i"
  by (induction rs arbitrary: m) (auto simp: act_map_def)

lemma fold_act_in:
  "distinct (map rid rs) \<Longrightarrow> r \<in> set rs \<Longrightarrow>
   fold (\<lambda>r. act_map r (v r)) rs m (rid r) = (if Rec_Action r = ''add'' then v r else None)"
  by (induction rs arbitrary: m) (auto simp: act_map_def fold_act_out)

text \<open>
  Records an agent may be sent: well formed, with an identifier of their own, and no tag twice.
\<close>

definition records_ok :: "Record list \<Rightarrow> bool" where
  "records_ok rs \<longleftrightarrow> distinct (map rid rs) \<and> (\<forall>r\<in>set rs. wf_rec r \<and> rid r \<noteq> [] \<and> tags_ok r)"

lemma compareService_sym:
  assumes "distinct (ASR_Tags a)" "distinct (ASR_Tags b)"
  shows "compareService a b \<longleftrightarrow> compareService b a"
proof -
  have "set xs \<subseteq> set ys \<longleftrightarrow> set ys \<subseteq> set xs" if "distinct xs" "distinct ys" "length xs = length ys" for xs ys :: "string list"
    using that by (metis List.finite_set card_subset_eq distinct_card order_refl)
  then show ?thesis using assms unfolding compareService_def list_all_iff list_ex_iff by (fastforce simp: subset_iff)
qed

lemma same_rec_sym: "tags_ok r \<Longrightarrow> tags_ok e \<Longrightarrow> same_rec r e \<longleftrightarrow> same_rec e r"
  using compareService_sym by (auto simp: same_rec_def tags_ok_def compareCheck_def split: option.splits)

lemma same_rec_rid: "wf_rec r \<Longrightarrow> wf_rec e \<Longrightarrow> same_rec r e \<Longrightarrow> rid r = rid e"
  by (auto simp: same_rec_def rid_def compareService_def compareCheck_def wf_rec_def service_rec_def check_rec_def
      split: option.splits)

lemma same_rec_kind: "wf_rec r \<Longrightarrow> wf_rec e \<Longrightarrow> same_rec r e \<Longrightarrow> service_rec r = service_rec e"
  by (auto simp: same_rec_def wf_rec_def service_rec_def check_rec_def split: option.splits)

text \<open>The identifiers of the program's own services start with its prefix.\<close>

definition owned :: "string \<Rightarrow> string \<Rightarrow> bool" where
  "owned pfx i \<longleftrightarrow> hd (Split i '':'') = pfx"

definition service_at :: "(string \<rightharpoonup> Record) \<Rightarrow> string \<rightharpoonup> AgentServiceRegistration" where
  "service_at M i = (case M i of Some c \<Rightarrow> Rec_Service c | None \<Rightarrow> None)"

text \<open>
  An agent in step with Consul: it is healthy, its cache is well formed, and the cached services
  are its own services registered with Consul.
\<close>

definition map_ok :: "string \<Rightarrow> (string \<rightharpoonup> Record) \<Rightarrow> bool" where
  "map_ok pfx M \<longleftrightarrow> (\<forall>i c. M i = Some c \<longrightarrow>
     c = zero_Record \<and> i = [] \<or> wf_rec c \<and> rid c = i \<and> i \<noteq> [] \<and> tags_ok c \<and> service_rec c = owned pfx i)"

definition in_step :: "('w \<Rightarrow> string \<rightharpoonup> AgentServiceRegistration) \<Rightarrow> string \<Rightarrow> agent \<Rightarrow> 'w \<Rightarrow> bool" where
  "in_step svcs pfx a w \<longleftrightarrow> A_Healthy a \<and> cache_ok a \<and> map_ok pfx (cmap a) \<and>
     (\<forall>i. owned pfx i \<longrightarrow> svcs w i = service_at (cmap a) i)"

definition perm_fun :: "(Record list \<Rightarrow> Record list) \<Rightarrow> bool" where
  "perm_fun ord \<longleftrightarrow> (\<forall>xs. mset (ord xs) = mset xs)"

lemma cached_facts:
  assumes "cache_ok a" "perm_fun ord"
  shows "set (CachedRecords ord (A_cache a)) \<subseteq> insert zero_Record (ran (cmap a))"
    "ran (cmap a) \<subseteq> set (CachedRecords ord (A_cache a))"
    "distinct (map rid (filter wf_rec (CachedRecords ord (A_cache a))))"
proof -
  define rs where "rs = (case Cache_Records (A_cache a) of None \<Rightarrow> [] | Some rs \<Rightarrow> rs)"
  have ok: "distinct (map fst rs)" "\<forall>(i, r)\<in>set rs. wf_rec r \<and> rid r = i \<or> i = [] \<and> r = zero_Record"
    using assms(1) unfolding cache_ok_def rs_def by (auto simp: list_all_iff split: option.splits)
  have cm: "cmap a = map_of rs" by (simp add: cmap_def rs_def)
  have cr: "CachedRecords ord (A_cache a) = replicate (length rs) zero_Record @ ord (map snd rs)"
    by (auto simp: CachedRecords_def rs_def Let_def split: option.splits)
  have perm: "mset (ord (map snd rs)) = mset (map snd rs)" using assms(2) by (simp add: perm_fun_def del: mset_map)
  then have "set (ord (map snd rs)) = snd ` set rs" by (metis mset_eq_setD list.set_map)
  moreover have "ran (map_of rs) = snd ` set rs" using ran_distinct [OF ok(1)] .
  ultimately show "set (CachedRecords ord (A_cache a)) \<subseteq> insert zero_Record (ran (cmap a))"
    "ran (cmap a) \<subseteq> set (CachedRecords ord (A_cache a))" unfolding cr cm by auto
  have z: "\<not> wf_rec zero_Record" by (simp add: wf_rec_def service_rec_def check_rec_def zero_Record_def)
  have "map rid (filter wf_rec (map snd rs)) = map fst (filter (\<lambda>p. wf_rec (snd p)) rs)"
    using ok(2) z by (induction rs) auto
  then have "distinct (map rid (filter wf_rec (map snd rs)))" using distinct_map_filter [OF ok(1)] by simp
  moreover have "mset (map rid (filter wf_rec (ord (map snd rs)))) = mset (map rid (filter wf_rec (map snd rs)))"
    by (simp only: mset_map mset_filter perm)
  ultimately show "distinct (map rid (filter wf_rec (CachedRecords ord (A_cache a))))"
    unfolding cr using z mset_eq_imp_distinct_iff by (fastforce simp: filter_replicate)
qed


text \<open>
  A round: the map \<open>M\<close> of the cache, the records sent, and the two lists of cached records read.
\<close>

definition sync_ok :: "(string \<rightharpoonup> Record) \<Rightarrow> Record list \<Rightarrow> Record list \<Rightarrow> Record list \<Rightarrow> bool" where
  "sync_ok M R cached1 cached2 \<longleftrightarrow> records_ok R \<and>
     (\<forall>i c. M i = Some c \<longrightarrow> c = zero_Record \<and> i = [] \<or> wf_rec c \<and> rid c = i \<and> i \<noteq> [] \<and> tags_ok c) \<and>
     set cached1 \<subseteq> insert zero_Record (ran M) \<and> ran M \<subseteq> set cached1 \<and>
     set cached2 \<subseteq> insert zero_Record (ran M) \<and> ran M \<subseteq> set cached2 \<and>
     distinct (map rid (filter wf_rec cached2))"

definition additions :: "Record list \<Rightarrow> Record list \<Rightarrow> Record list" where
  "additions R cached1 = map (Rec_Action_update (\<lambda>_. ''add'')) (missing cached1 R)"

definition removals :: "Record list \<Rightarrow> Record list \<Rightarrow> Record list" where
  "removals R cached2 = map (Rec_Action_update (\<lambda>_. ''remove'')) (missing R cached2)"

lemma not_same_zero: "\<not> same_rec r zero_Record" "\<not> same_rec zero_Record r" "\<not> wf_rec zero_Record"
  by (auto simp: same_rec_def zero_Record_def wf_rec_def service_rec_def check_rec_def split: option.splits)

lemma records_okD: "records_ok R \<Longrightarrow> r \<in> set R \<Longrightarrow> wf_rec r \<and> rid r \<noteq> [] \<and> tags_ok r"
  by (simp add: records_ok_def)

lemma records_ok_unique: "records_ok R \<Longrightarrow> r \<in> set R \<Longrightarrow> s \<in> set R \<Longrightarrow> rid r = rid s \<Longrightarrow> r = s"
  by (auto simp: records_ok_def distinct_map inj_on_def)

lemma set_missing_new:
  assumes "sync_ok M R cached1 cached2"
  shows "set (missing cached1 R) = {r \<in> set R. \<not> (\<exists>c. M (rid r) = Some c \<and> same_rec r c)}"
proof -
  have R: "records_ok R" and c1: "set cached1 \<subseteq> insert zero_Record (ran M)" "ran M \<subseteq> set cached1"
    using assms by (simp_all add: sync_ok_def)
  have "(\<exists>e\<in>set cached1. same_rec r e) \<longleftrightarrow> (\<exists>c. M (rid r) = Some c \<and> same_rec r c)" if "r \<in> set R" for r
  proof
    assume "\<exists>e\<in>set cached1. same_rec r e"
    then obtain e where e: "e \<in> set cached1" "same_rec r e" by blast
    then have "e \<in> ran M" using c1(1) not_same_zero by auto
    then obtain i where i: "M i = Some e" by (auto simp: ran_def)
    then have "wf_rec e \<and> rid e = i" using assms e(2) not_same_zero unfolding sync_ok_def by blast
    then show "\<exists>c. M (rid r) = Some c \<and> same_rec r c"
      using i e(2) same_rec_rid [of r e] records_okD [OF R that] by auto
  qed (use c1(2) in \<open>auto simp: ran_def\<close>)
  moreover have "\<forall>r\<in>set R. wf_rec r \<or> r = zero_Record" using records_okD [OF R] by blast
  ultimately show ?thesis using records_okD [OF R] by (auto simp: set_missing)
qed

lemma cached_wf:
  assumes "sync_ok M R cached1 cached2"
  shows "\<forall>r\<in>set cached2. wf_rec r \<or> r = zero_Record" "wf_rec c \<Longrightarrow> c \<in> set cached2 \<longleftrightarrow> M (rid c) = Some c"
proof -
  have c2: "set cached2 \<subseteq> insert zero_Record (ran M)" "ran M \<subseteq> set cached2"
    and M: "\<And>i c. M i = Some c \<Longrightarrow> c = zero_Record \<or> wf_rec c \<and> rid c = i"
    using assms unfolding sync_ok_def by blast+
  show "\<forall>r\<in>set cached2. wf_rec r \<or> r = zero_Record" using c2(1) M unfolding ran_def by blast
  show "wf_rec c \<Longrightarrow> c \<in> set cached2 \<longleftrightarrow> M (rid c) = Some c"
    using c2 M not_same_zero(3) unfolding ran_def by blast
qed

lemma set_missing_cached:
  assumes "sync_ok M R cached1 cached2"
  shows "set (missing R cached2) = {c. wf_rec c \<and> M (rid c) = Some c \<and> \<not> (\<exists>r\<in>set R. same_rec c r)}"
  using cached_wf [OF assms] by (auto simp: set_missing)

lemma distinct_deltas:
  assumes "sync_ok M R cached1 cached2"
  shows "distinct (map rid (additions R cached1))" "distinct (map rid (removals R cached2))"
proof -
  have R: "records_ok R" and d: "distinct (map rid (filter wf_rec cached2))" using assms by (simp_all add: sync_ok_def)
  have rid: "map rid (map (Rec_Action_update f) xs) = map rid xs" for f xs by simp
  have "filter wf_rec R = R" using records_okD [OF R] by (simp add: filter_id_conv)
  then have "distinct (map rid (missing cached1 R))"
    using R records_okD [OF R] by (intro distinct_missing) (auto simp: records_ok_def)
  then show "distinct (map rid (additions R cached1))" unfolding additions_def rid .
  show "distinct (map rid (removals R cached2))" unfolding removals_def rid
    using distinct_missing [OF d cached_wf(1) [OF assms]] .
qed

lemma deltas_wf:
  assumes "sync_ok M R cached1 cached2"
  shows "\<forall>r\<in>set (additions R cached1 @ removals R cached2). wf_rec r \<and> Rec_Action r \<in> {''add'', ''remove''}"
  unfolding additions_def removals_def using set_missing_new [OF assms] set_missing_cached [OF assms] assms
  by (auto simp: sync_ok_def records_ok_def)


lemma rid_image_action: "rid ` set (map (Rec_Action_update f) xs) = rid ` set xs"
  by (simp add: image_image)

lemma sync_map:
  "sync_ok M R cached1 cached2 \<Longrightarrow> M i = Some c \<Longrightarrow> c = zero_Record \<and> i = [] \<or> wf_rec c \<and> rid c = i \<and> i \<noteq> [] \<and> tags_ok c"
  unfolding sync_ok_def by blast

lemma rid_additions:
  assumes "sync_ok M R cached1 cached2"
  shows "i \<in> rid ` set (additions R cached1) \<longleftrightarrow> (\<exists>r\<in>set R. rid r = i \<and> \<not> (\<exists>c. M i = Some c \<and> same_rec r c))"
  unfolding additions_def rid_image_action set_missing_new [OF assms] by blast

lemma rid_removals:
  assumes "sync_ok M R cached1 cached2"
  shows "i \<in> rid ` set (removals R cached2) \<longleftrightarrow> (\<exists>c. M i = Some c \<and> wf_rec c \<and> \<not> (\<exists>r\<in>set R. same_rec c r))"
  unfolding removals_def rid_image_action set_missing_cached [OF assms]
  using sync_map [OF assms] not_same_zero(3) by blast

lemma sync_cached:
  assumes "sync_ok M R cached1 cached2" "r \<in> set R" "M (rid r) = Some c"
  shows "wf_rec c \<and> rid c = rid r \<and> tags_ok c" "same_rec r c = same_rec c r" "(\<exists>r\<in>set R. same_rec c r) = same_rec c r"
proof -
  have R: "records_ok R" using assms(1) by (simp add: sync_ok_def)
  show c: "wf_rec c \<and> rid c = rid r \<and> tags_ok c"
    using sync_map [OF assms(1,3)] records_okD [OF R assms(2)] by blast
  show "same_rec r c = same_rec c r" using same_rec_sym c records_okD [OF R assms(2)] by blast
  show "(\<exists>r\<in>set R. same_rec c r) = same_rec c r"
    using assms(2) same_rec_rid [of c] c records_okD [OF R] records_ok_unique [OF R] by metis
qed

text \<open>
  The effect of a round on a map that follows the actions of the records that satisfy \<open>P\<close>.
\<close>

definition after_round ::
  "(Record \<Rightarrow> bool) \<Rightarrow> (Record \<Rightarrow> 'v option) \<Rightarrow> Record list \<Rightarrow> Record list \<Rightarrow> Record list \<Rightarrow> (string \<rightharpoonup> 'v) \<Rightarrow> (string \<rightharpoonup> 'v)" where
  "after_round P v R cached1 cached2 m =
     fold (\<lambda>r. act_map r (v r)) (filter P (additions R cached1 @ removals R cached2)) m"

lemma after_round_split:
  assumes "sync_ok M R cached1 cached2"
  shows "i \<notin> rid ` set (filter P (removals R cached2)) \<Longrightarrow> i \<notin> rid ` set (filter P (additions R cached1)) \<Longrightarrow>
      after_round P v R cached1 cached2 m i = m i"
    and "i \<notin> rid ` set (filter P (removals R cached2)) \<Longrightarrow> a \<in> set (additions R cached1) \<Longrightarrow> P a \<Longrightarrow> rid a = i \<Longrightarrow>
      after_round P v R cached1 cached2 m i = v a"
    and "d \<in> set (removals R cached2) \<Longrightarrow> P d \<Longrightarrow> rid d = i \<Longrightarrow> after_round P v R cached1 cached2 m i = None"
proof -
  have dist: "distinct (map rid (filter P (additions R cached1)))" "distinct (map rid (filter P (removals R cached2)))"
    using distinct_deltas [OF assms] by (simp_all add: distinct_map_filter)
  have act: "a \<in> set (additions R cached1) \<Longrightarrow> Rec_Action a = ''add''" "d \<in> set (removals R cached2) \<Longrightarrow> Rec_Action d = ''remove''" for a d
    by (auto simp: additions_def removals_def)
  show "i \<notin> rid ` set (filter P (removals R cached2)) \<Longrightarrow> i \<notin> rid ` set (filter P (additions R cached1)) \<Longrightarrow>
      after_round P v R cached1 cached2 m i = m i"
    by (simp add: after_round_def fold_act_out del: set_filter)
  show "i \<notin> rid ` set (filter P (removals R cached2)) \<Longrightarrow> a \<in> set (additions R cached1) \<Longrightarrow> P a \<Longrightarrow> rid a = i \<Longrightarrow>
      after_round P v R cached1 cached2 m i = v a"
    using fold_act_in [OF dist(1), of a v m] act(1) [of a] by (auto simp: after_round_def fold_act_out)
  show "d \<in> set (removals R cached2) \<Longrightarrow> P d \<Longrightarrow> rid d = i \<Longrightarrow> after_round P v R cached1 cached2 m i = None"
    using fold_act_in [OF dist(2), of d] act(2) [of d] by (auto simp: after_round_def)
qed

text \<open>The outcome at one identifier, for the cache and for the services.\<close>

lemma after_round_cache:
  assumes "sync_ok M R cached1 cached2"
  defines "M' \<equiv> after_round (\<lambda>_. True) Some R cached1 cached2 M"
  shows "r \<in> set R \<Longrightarrow> M (rid r) = None \<Longrightarrow> M' (rid r) = Some (r\<lparr>Rec_Action := ''add''\<rparr>)"
    and "r \<in> set R \<Longrightarrow> M (rid r) = Some c \<Longrightarrow> M' (rid r) = (if same_rec c r then Some c else None)"
    and "i \<notin> rid ` set R \<Longrightarrow> i \<noteq> [] \<Longrightarrow> M' i = None"
    and "M' [] = M []"
proof -
  note add = rid_additions [OF assms(1)] and rem = rid_removals [OF assms(1)] and split = after_round_split [OF assms(1), of _ "\<lambda>_. True"]
  have new: "r\<lparr>Rec_Action := ''add''\<rparr> \<in> set (additions R cached1)" if "r \<in> set R" "M (rid r) = None" for r
    using that set_missing_new [OF assms(1)] by (auto simp: additions_def)
  show "r \<in> set R \<Longrightarrow> M (rid r) = None \<Longrightarrow> M' (rid r) = Some (r\<lparr>Rec_Action := ''add''\<rparr>)"
    unfolding M'_def using new rem [of "rid r"] by (intro split(2)) auto
  show "r \<in> set R \<Longrightarrow> M (rid r) = Some c \<Longrightarrow> M' (rid r) = (if same_rec c r then Some c else None)"
  proof (cases "same_rec c r")
    assume r: "r \<in> set R" "M (rid r) = Some c"
    note c = sync_cached [OF assms(1) r]
    {
      case True
      have "rid r \<notin> rid ` set (additions R cached1)"
        unfolding add using r c(2) True records_ok_unique [of R] assms(1) by (auto simp: sync_ok_def)
      moreover have "rid r \<notin> rid ` set (removals R cached2)" unfolding rem using r c(3) True by auto
      ultimately show ?thesis unfolding M'_def using r True by (subst split(1)) auto
    next
      case False
      then have "rid r \<in> rid ` set (removals R cached2)" unfolding rem using r c by auto
      then show ?thesis unfolding M'_def using False by (auto intro!: split(3))
    }
  qed
  show "M' i = None" if "i \<notin> rid ` set R" "i \<noteq> []"
  proof (cases "M i")
    case None
    then have "i \<notin> rid ` set (additions R cached1)" "i \<notin> rid ` set (removals R cached2)"
      unfolding add rem using that by auto
    then show ?thesis unfolding M'_def using None by (subst split(1)) auto
  next
    case (Some c)
    then have "wf_rec c" "rid c = i" using assms(1) that(2) by (auto simp: sync_ok_def)
    moreover have "\<not> (\<exists>r\<in>set R. same_rec c r)"
      using that(1) same_rec_rid [of c] \<open>wf_rec c\<close> \<open>rid c = i\<close> records_okD [of R] assms(1)
      unfolding sync_ok_def by (metis imageI)
    ultimately have "i \<in> rid ` set (removals R cached2)" unfolding rem using Some by auto
    then show ?thesis unfolding M'_def by (auto intro!: split(3))
  qed
  have "[] \<notin> rid ` set (additions R cached1)" "[] \<notin> rid ` set (removals R cached2)"
    unfolding add rem using assms(1) not_same_zero(3) by (auto simp: sync_ok_def records_ok_def)
  then show "M' [] = M []" unfolding M'_def by (subst split(1)) auto
qed


lemma in_additions:
  assumes "sync_ok M R cached1 cached2" "a \<in> set (additions R cached1)"
  shows "\<exists>r\<in>set R. a = r\<lparr>Rec_Action := ''add''\<rparr>"
  using assms(2) set_missing_new [OF assms(1)] by (auto simp: additions_def)

lemma in_removals:
  assumes "sync_ok M R cached1 cached2" "d \<in> set (removals R cached2)"
  shows "\<exists>c. d = c\<lparr>Rec_Action := ''remove''\<rparr> \<and> M (rid d) = Some c"
  using assms(2) set_missing_cached [OF assms(1)] by (auto simp: removals_def)

definition same_kinds :: "(string \<rightharpoonup> Record) \<Rightarrow> Record list \<Rightarrow> bool" where
  "same_kinds M R \<longleftrightarrow> (\<forall>r\<in>set R. \<forall>c. M (rid r) = Some c \<longrightarrow> service_rec c = service_rec r)"

lemma service_rec_None: "wf_rec r \<Longrightarrow> \<not> service_rec r \<Longrightarrow> Rec_Service r = None"
  by (auto simp: wf_rec_def service_rec_def check_rec_def)

text \<open>Where no service is added, a service that is removed or was absent is absent.\<close>

lemma after_round_absent:
  assumes "sync_ok M R cached1 cached2" "\<forall>r\<in>set R. rid r = i \<longrightarrow> \<not> service_rec r" "i \<noteq> []"
    and "\<forall>c. M i = Some c \<longrightarrow> service_rec c \<longrightarrow> \<not> (\<exists>r\<in>set R. same_rec c r)"
  shows "after_round service_rec Rec_Service R cached1 cached2 (service_at M) i = None"
proof (cases "\<exists>c. M i = Some c \<and> service_rec c")
  case True
  then obtain c where c: "M i = Some c" "service_rec c" by blast
  then have "rid c = i" "wf_rec c" using sync_map [OF assms(1) c(1)] assms(3) by auto
  then have "c\<lparr>Rec_Action := ''remove''\<rparr> \<in> set (removals R cached2)"
    using c assms(4) set_missing_cached [OF assms(1)] by (auto simp: removals_def)
  from after_round_split(3) [OF assms(1) this, where P = service_rec and v = Rec_Service and m = "service_at M"] show ?thesis using c(2) \<open>rid c = i\<close> by simp
next
  case False
  have "i \<notin> rid ` set (filter service_rec (removals R cached2))"
    using in_removals [OF assms(1)] False by fastforce
  moreover have "i \<notin> rid ` set (filter service_rec (additions R cached1))"
    using in_additions [OF assms(1)] assms(2) by fastforce
  moreover have "service_at M i = None"
    using False sync_map [OF assms(1), of i] assms(3) service_rec_None by (auto simp: service_at_def split: option.split)
  ultimately show ?thesis using after_round_split(1) [OF assms(1)] by metis
qed

abbreviation services_after :: "(string \<rightharpoonup> Record) \<Rightarrow> Record list \<Rightarrow> Record list \<Rightarrow> Record list \<Rightarrow> string \<rightharpoonup> AgentServiceRegistration" where
  "services_after M R cached1 cached2 \<equiv> after_round service_rec Rec_Service R cached1 cached2 (service_at M)"

lemma services_after_added:
  assumes "sync_ok M R cached1 cached2" "r \<in> set R" "M (rid r) = None" "service_rec r"
  shows "services_after M R cached1 cached2 (rid r) = Rec_Service r"
proof -
  have a: "r\<lparr>Rec_Action := ''add''\<rparr> \<in> set (additions R cached1)"
    using assms(2,3) set_missing_new [OF assms(1)] by (auto simp: additions_def)
  have d: "rid r \<notin> rid ` set (filter service_rec (removals R cached2))"
    using in_removals [OF assms(1)] assms(3) by fastforce
  from after_round_split(2) [OF assms(1) d a, where v = Rec_Service and m = "service_at M"] show ?thesis using assms(4) by simp
qed

lemma services_after_kept:
  assumes "sync_ok M R cached1 cached2" "i \<notin> rid ` set (additions R cached1)" "i \<notin> rid ` set (removals R cached2)"
  shows "services_after M R cached1 cached2 i = service_at M i"
  by (rule after_round_split(1) [OF assms(1)]) (use assms(2,3) in auto)

lemma services_after_changed:
  assumes "sync_ok M R cached1 cached2" "r \<in> set R" "M (rid r) = Some c" "\<not> same_rec c r" "service_rec c"
  shows "services_after M R cached1 cached2 (rid r) = None"
proof -
  note c = sync_cached [OF assms(1-3)]
  have d: "c\<lparr>Rec_Action := ''remove''\<rparr> \<in> set (removals R cached2)"
    using c assms(3,4) set_missing_cached [OF assms(1)] by (auto simp: removals_def)
  from after_round_split(3) [OF assms(1) d, where P = service_rec and v = Rec_Service and m = "service_at M"] show ?thesis using c(1) assms(5) by simp
qed

lemma services_after_gone:
  assumes "sync_ok M R cached1 cached2" "i \<noteq> []" "i \<notin> rid ` set R"
  shows "services_after M R cached1 cached2 i = None"
proof (rule after_round_absent [OF assms(1)])
  have R: "records_ok R" using assms(1) by (simp add: sync_ok_def)
  show "\<forall>r\<in>set R. rid r = i \<longrightarrow> \<not> service_rec r" using assms(3) by blast
  show "\<forall>c. M i = Some c \<longrightarrow> service_rec c \<longrightarrow> \<not> (\<exists>r\<in>set R. same_rec c r)"
  proof (intro allI impI notI, elim bexE)
    fix c r assume c: "M i = Some c" and r: "r \<in> set R" "same_rec c r"
    have "wf_rec c" "rid c = i" using sync_map [OF assms(1) c] assms(2) by auto
    then show False using same_rec_rid [OF _ _ r(2)] records_okD [OF R r(1)] r(1) assms(3) by auto
  qed
qed (rule assms(2))

lemma after_round_services:
  assumes "sync_ok M R cached1 cached2" "same_kinds M R"
  shows "services_after M R cached1 cached2 i = service_at (after_round (\<lambda>_. True) Some R cached1 cached2 M) i"
proof -
  note cache = after_round_cache [OF assms(1)]
  have R: "records_ok R" using assms(1) by (simp add: sync_ok_def)
  consider "i = []" | "i \<noteq> []" "i \<notin> rid ` set R" | r where "r \<in> set R" "i = rid r" by auto
  then show ?thesis
  proof cases
    case 1
    have "[] \<notin> rid ` set (additions R cached1)" "[] \<notin> rid ` set (removals R cached2)"
      unfolding rid_additions [OF assms(1)] rid_removals [OF assms(1)]
      using records_okD [OF R] sync_map [OF assms(1)] not_same_zero(3) by blast+
    from services_after_kept [OF assms(1) this] show ?thesis using cache(4) 1 by (simp add: service_at_def)
  next
    case 2
    from services_after_gone [OF assms(1) 2] cache(3) [OF 2(2,1)] show ?thesis by (simp add: service_at_def)
  next
    case (3 r)
    have wf: "rid r \<noteq> []" "wf_rec r" using records_okD [OF R 3(1)] by auto
    have absent: "services_after M R cached1 cached2 (rid r) = None"
      if "\<not> service_rec r" "M (rid r) = Some c \<longrightarrow> \<not> service_rec c" for c
      using that assms(2) 3(1) records_ok_unique [OF R _ 3(1)] wf(1)
      by (intro after_round_absent [OF assms(1)]) (auto simp: same_kinds_def)
    show ?thesis
    proof (cases "M (rid r)")
      case None
      then show ?thesis
        using cache(1) [OF 3(1) None] services_after_added [OF assms(1) 3(1) None] absent service_rec_None [OF wf(2)]
        by (cases "service_rec r") (auto simp: service_at_def 3(2))
    next
      case (Some c)
      note c = sync_cached [OF assms(1) 3(1) Some] and M' = cache(2) [OF 3(1) Some]
      have kind: "service_rec c = service_rec r" using assms(2) 3 Some by (auto simp: same_kinds_def)
      show ?thesis
      proof (cases "same_rec c r")
        case True
        have "rid r \<notin> rid ` set (additions R cached1)" "rid r \<notin> rid ` set (removals R cached2)"
          unfolding rid_additions [OF assms(1)] rid_removals [OF assms(1)]
          using c True Some records_ok_unique [OF R _ 3(1)] by auto
        from services_after_kept [OF assms(1) this] show ?thesis using M' True Some by (simp add: service_at_def 3(2))
      next
        case False
        have "services_after M R cached1 cached2 (rid r) = None"
          using services_after_changed [OF assms(1) 3(1) Some False] absent kind by blast
        then show ?thesis using M' False by (simp add: service_at_def 3(2))
      qed
    qed
  qed
qed

lemma fold_act_cong: "m i = m' i \<Longrightarrow> fold (\<lambda>r. act_map r (v r)) rs m i = fold (\<lambda>r. act_map r (v r)) rs m' i"
proof (induction rs arbitrary: m m')
  case (Cons r rs)
  have "act_map r (v r) m i = act_map r (v r) m' i" using Cons.prems by (simp add: act_map_def)
  then show ?case using Cons.IH [of "act_map r (v r) m" "act_map r (v r) m'"] by simp
qed simp

lemma after_round_cong:
  "m i = m' i \<Longrightarrow> after_round P v R cached1 cached2 m i = after_round P v R cached1 cached2 m' i"
  unfolding after_round_def by (rule fold_act_cong)

text \<open>What a round makes of the cache.\<close>

definition round_spec :: "Record list \<Rightarrow> (string \<rightharpoonup> Record) \<Rightarrow> (string \<rightharpoonup> Record) \<Rightarrow> bool" where
  "round_spec R M M' \<longleftrightarrow>
     (\<forall>r\<in>set R. M' (rid r) = (case M (rid r) of
        None \<Rightarrow> Some (r\<lparr>Rec_Action := ''add''\<rparr>) | Some c \<Rightarrow> if same_rec c r then Some c else None)) \<and>
     (\<forall>i. i \<notin> rid ` set R \<longrightarrow> i \<noteq> [] \<longrightarrow> M' i = None) \<and> M' [] = M []"

lemma after_round_spec:
  assumes "sync_ok M R cached1 cached2"
  shows "round_spec R M (after_round (\<lambda>_. True) Some R cached1 cached2 M)"
  using after_round_cache [OF assms] unfolding round_spec_def by (auto split: option.split)

definition owned_records :: "string \<Rightarrow> Record list \<Rightarrow> bool" where
  "owned_records pfx R \<longleftrightarrow> (\<forall>r\<in>set R. service_rec r = owned pfx (rid r))"

lemma round_spec_map_ok:
  assumes "round_spec R M M'" "map_ok pfx M" "records_ok R" "owned_records pfx R"
  shows "map_ok pfx M'"
  unfolding map_ok_def
proof (intro allI impI)
  fix i c assume c: "M' i = Some c"
  consider "i = []" | "i \<noteq> []" "i \<notin> rid ` set R" | r where "r \<in> set R" "i = rid r" by auto
  then show "c = zero_Record \<and> i = [] \<or> wf_rec c \<and> rid c = i \<and> i \<noteq> [] \<and> tags_ok c \<and> service_rec c = owned pfx i"
  proof cases
    case 1
    then have "M [] = Some c" using c assms(1) by (simp add: round_spec_def)
    then show ?thesis using 1 assms(2) unfolding map_ok_def by blast
  next
    case 2
    then show ?thesis using c assms(1) by (simp add: round_spec_def)
  next
    case (3 r)
    from assms(1) 3 c have "M i = None \<and> c = r\<lparr>Rec_Action := ''add''\<rparr> \<or> M i = Some c"
      by (auto simp: round_spec_def split: option.splits if_splits)
    then show ?thesis
      using assms(2,4) records_okD [OF assms(3) 3(1)] 3 by (auto simp: map_ok_def owned_records_def)
  qed
qed

text \<open>The kind of a record shows in its identifier, so cached and new records agree in kind.\<close>

lemma kinds_owned:
  assumes "map_ok pfx M" "records_ok R" "owned_records pfx R"
  shows "same_kinds M R"
  unfolding same_kinds_def
proof (intro ballI allI impI)
  fix r c assume r: "r \<in> set R" "M (rid r) = Some c"
  have "service_rec c = owned pfx (rid r)" using r assms(1) records_okD [OF assms(2) r(1)] unfolding map_ok_def by blast
  then show "service_rec c = service_rec r" using assms(3) r(1) by (simp add: owned_records_def)
qed

lemma removed_owned:
  assumes "sync_ok M R cached1 cached2" "map_ok pfx M" "d \<in> set (removals R cached2)" "service_rec d"
  shows "owned pfx (rid d)"
proof -
  obtain c where c: "d = c\<lparr>Rec_Action := ''remove''\<rparr>" "M (rid d) = Some c" using in_removals [OF assms(1,3)] by blast
  then have "service_rec c" "c \<noteq> zero_Record" using assms(4) by (auto simp: service_rec_def zero_Record_def)
  then show ?thesis using assms(2) c(2) unfolding map_ok_def by blast
qed

lemma agent_round_ok:
  assumes "api_ok api svcs" "in_step svcs pfx a w" "records_ok R" "owned_records pfx R"
    and "perm_fun ord1" "perm_fun ord2"
  shows "\<exists>a' w'. agent_round api ord1 ord2 R (a, w) = Some (a', w') \<and> in_step svcs pfx a' w' \<and>
    round_spec R (cmap a) (cmap a') \<and> A_count a' = A_count a + 1 \<and> (\<forall>i. \<not> owned pfx i \<longrightarrow> svcs w' i = svcs w i)"
proof -
  let ?c1 = "CachedRecords ord1 (A_cache a)" and ?c2 = "CachedRecords ord2 (A_cache a)"
  have a: "A_Healthy a" "cache_ok a" "map_ok pfx (cmap a)" "\<And>i. owned pfx i \<Longrightarrow> svcs w i = service_at (cmap a) i"
    using assms(2) by (auto simp: in_step_def)
  have sync: "sync_ok (cmap a) R ?c1 ?c2"
    using assms(3) a(3) cached_facts [OF a(2)] assms(5,6) unfolding sync_ok_def map_ok_def by blast
  have "\<forall>r\<in>set ?c1. one_kind r" "\<forall>r\<in>set ?c2. one_kind r"
    using sync sync_map [OF sync] one_kind_simps unfolding sync_ok_def ran_def by blast+
  moreover have "\<forall>r\<in>set R. one_kind r" using records_okD [OF assms(3)] one_kind_simps by blast
  ultimately have delta: "getDeltaRecords ?c1 R ''add'' = Some (additions R ?c1)"
    "getDeltaRecords R ?c2 ''remove'' = Some (removals R ?c2)"
    by (simp_all add: getDeltaRecords_eq additions_def removals_def)
  obtain a' w' where fold: "fold_opt (apply_record api) (additions R ?c1 @ removals R ?c2) (a\<lparr>A_count := A_count a + 1\<rparr>, w) = Some (a', w')"
    and a': "A_Healthy a'" "cache_ok a'" "A_count a' = A_count a + 1"
    and cm: "cmap a' = after_round (\<lambda>_. True) Some R ?c1 ?c2 (cmap a)"
    and sv: "svcs w' = after_round service_rec Rec_Service R ?c1 ?c2 (svcs w)"
    using apply_records_ok [OF assms(1) deltas_wf [OF sync], of "a\<lparr>A_count := A_count a + 1\<rparr>" w] a(1,2)
    by (auto simp: after_round_def cmap_def cache_ok_def)
  have spec: "round_spec R (cmap a) (cmap a')" unfolding cm by (rule after_round_spec [OF sync])
  have "svcs w' i = service_at (cmap a') i" if "owned pfx i" for i
    unfolding sv cm after_round_services [OF sync kinds_owned [OF a(3) assms(3,4)], symmetric] by (rule after_round_cong) (rule a(4) [OF that])
  moreover have "svcs w' i = svcs w i" if "\<not> owned pfx i" for i
  proof -
    have "i \<notin> rid ` set (filter service_rec (additions R ?c1))"
      using in_additions [OF sync] assms(4) that by (fastforce simp: owned_records_def)
    moreover have "i \<notin> rid ` set (filter service_rec (removals R ?c2))"
      using removed_owned [OF sync a(3)] that by auto
    ultimately show ?thesis unfolding sv using after_round_split(1) [OF sync] by metis
  qed
  ultimately show ?thesis
    using fold a' delta spec round_spec_map_ok [OF spec a(3) assms(3,4)]
    by (intro exI [of _ a'] exI [of _ w']) (simp add: agent_round_def in_step_def)
qed


section \<open>Convergence\<close>

text \<open>The own services registered with Consul are those of the records \<open>R\<close>, up to the order of tags.\<close>

definition registered :: "string \<Rightarrow> (string \<rightharpoonup> AgentServiceRegistration) \<Rightarrow> Record list \<Rightarrow> bool" where
  "registered pfx S R \<longleftrightarrow>
     (\<forall>r\<in>set R. service_rec r \<longrightarrow> (\<exists>s. S (rid r) = Some s \<and> compareService s (the (Rec_Service r)))) \<and>
     (\<forall>i. owned pfx i \<longrightarrow> i \<notin> rid ` {r \<in> set R. service_rec r} \<longrightarrow> S i = None)"

lemma same_rec_refl: "wf_rec r \<Longrightarrow> same_rec r r"
  by (auto simp: same_rec_def wf_rec_def service_rec_def check_rec_def compareService_def compareCheck_def
      list_all_iff list_ex_iff)

lemma round_spec_at:
  assumes "round_spec R M M'" "r \<in> set R"
  shows "M (rid r) = None \<Longrightarrow> M' (rid r) = Some (r\<lparr>Rec_Action := ''add''\<rparr>)"
    "M (rid r) = Some c \<Longrightarrow> M' (rid r) = (if same_rec c r then Some c else None)"
  using assms by (simp_all add: round_spec_def)

lemma round_spec_same:
  assumes "round_spec R M M'" "records_ok R" "r \<in> set R" "M' (rid r) = Some c"
  shows "same_rec c r"
  using round_spec_at [OF assms(1,3)] assms(4) same_rec_refl [of r] records_okD [OF assms(2,3)]
  by (cases "M (rid r)") (auto split: if_splits)

text \<open>A round that finds no service changed registers the services of \<open>R\<close>.\<close>

lemma round_registered:
  assumes "round_spec R M (cmap a)" "in_step svcs pfx a w" "records_ok R" "owned_records pfx R" "pfx \<noteq> []"
    and "\<forall>r\<in>set R. \<forall>c. service_rec r \<longrightarrow> M (rid r) = Some c \<longrightarrow> same_rec c r"
  shows "registered pfx (svcs w) R"
  unfolding registered_def
proof (intro conjI ballI allI impI)
  have S: "\<And>i. owned pfx i \<Longrightarrow> svcs w i = service_at (cmap a) i" using assms(2) by (simp add: in_step_def)
  fix r assume r: "r \<in> set R" "service_rec r"
  have "\<exists>c. cmap a (rid r) = Some c \<and> same_rec c r"
    using round_spec_at [OF assms(1) r(1)] assms(6) r same_rec_refl [of r] records_okD [OF assms(3) r(1)]
    by (cases "M (rid r)") auto
  then obtain c where "cmap a (rid r) = Some c" "same_rec c r" by blast
  then show "\<exists>s. svcs w (rid r) = Some s \<and> compareService s (the (Rec_Service r))"
    using S [of "rid r"] assms(4) r
    by (auto simp: owned_records_def service_at_def same_rec_def service_rec_def split: option.splits)
next
  fix i assume i: "owned pfx i" "i \<notin> rid ` {r \<in> set R. service_rec r}"
  have "i \<notin> rid ` set R" using i assms(4) by (auto simp: owned_records_def)
  moreover have "i \<noteq> []" using i(1) assms(5) by (auto simp: owned_def)
  ultimately have "cmap a i = None" using assms(1) by (simp add: round_spec_def)
  then show "svcs w i = None" using assms(2) i(1) by (simp add: in_step_def service_at_def)
qed

end
