(* ===== verification/Consul_Sync.thy ===== *)
theory Consul_Sync
  imports Consul_Props
begin

text \<open>
  An agent that starts with Consul in any state: the refresh at the head of its loop brings it in
  step, and the rounds keep it so until the registered services are the records it is sent.
\<close>

section \<open>Refreshing the cache\<close>

definition registration :: "AgentService \<Rightarrow> AgentServiceRegistration" where
  "registration s = \<lparr>ASR_ID = AS_ID s, ASR_Name = AS_Service s, ASR_Tags = AS_Tags s, ASR_Port = AS_Port s, ASR_Address = AS_Address s\<rparr>"

text \<open>What the API documents of connecting and listing: the registrations stay, and all are listed.\<close>

definition list_ok :: "'w consul_api \<Rightarrow> ('w \<Rightarrow> string \<rightharpoonup> AgentServiceRegistration) \<Rightarrow> bool" where
  "list_ok api svcs \<longleftrightarrow>
     (\<forall>cfg w. fst (api_connect api cfg w) \<and> svcs (snd (api_connect api cfg w)) = svcs w) \<and>
     (\<forall>w. \<exists>ss. fst (api_Services api w) = Some ss \<and> svcs (snd (api_Services api w)) = svcs w \<and>
        distinct (map AS_ID ss) \<and> svcs w = map_of (map (\<lambda>s. (AS_ID s, registration s)) ss))"

text \<open>The program's own registrations have an identifier in two parts and no tag twice.\<close>

definition own_ok :: "string \<Rightarrow> (string \<rightharpoonup> AgentServiceRegistration) \<Rightarrow> bool" where
  "own_ok pfx S \<longleftrightarrow> pfx \<noteq> [] \<and>
     (\<forall>i s. S i = Some s \<longrightarrow> owned pfx i \<longrightarrow> 1 < length (Split i '':'') \<and> distinct (ASR_Tags s))"

definition service_record_of :: "AgentService \<Rightarrow> Record" where
  "service_record_of s = \<lparr>Rec_Action = [], Rec_Address = AS_Address s, Rec_SlaveID = Split (AS_ID s) '':'' ! 1,
     Rec_Type = ''service'', Rec_Service = Some (registration s), Rec_Check = None\<rparr>"

lemma service_records_eq:
  "\<forall>s\<in>set ss. owned pfx (AS_ID s) \<longrightarrow> 1 < length (Split (AS_ID s) '':'') \<Longrightarrow>
   service_records pfx ss = Some (map service_record_of (filter (\<lambda>s. owned pfx (AS_ID s)) ss))"
  by (induction ss) (auto simp: Let_def owned_def slice_at_def service_record_of_def registration_def)

lemma service_record_of_simps [simp]:
  "rid (service_record_of s) = AS_ID s" "wf_rec (service_record_of s)" "service_rec (service_record_of s)"
  "Rec_Service (service_record_of s) = Some (registration s)"
  by (simp_all add: service_record_of_def rid_def registration_def wf_rec_def service_rec_def)

lemma cache_records_fold:
  assumes "\<forall>r\<in>set rs. wf_rec r \<or> r = zero_Record" "cache_ok a"
  shows "\<exists>a'. fold_opt (cache_record api ''add'') rs (a, w) = Some (a', w) \<and> cache_ok a' \<and>
    A_Healthy a' = A_Healthy a \<and> A_count a' = A_count a \<and> cmap a' = fold (\<lambda>r M. M(rid r \<mapsto> r)) rs (cmap a)"
  using assms
proof (induction rs arbitrary: a)
  case Nil
  then show ?case by simp
next
  case (Cons r rs)
  have "wf_rec r \<or> r = zero_Record" using Cons.prems(1) by simp
  from UpdateCache_cmap [OF this Cons.prems(2), of "''add''" "api_Now api w"] obtain c where
    c: "UpdateCache (api_Now api w) r ''add'' (A_cache a) = Some c" "cmap (a\<lparr>A_cache := c\<rparr>) = (cmap a)(rid r \<mapsto> r)"
      "cache_ok (a\<lparr>A_cache := c\<rparr>)" by auto
  have "\<forall>r\<in>set rs. wf_rec r \<or> r = zero_Record" using Cons.prems(1) by simp
  from Cons.IH [OF this c(3)] show ?case using c(1,2) by (auto simp: cache_record_def)
qed

lemma fold_upd_out: "i \<notin> rid ` set rs \<Longrightarrow> fold (\<lambda>r M. M(rid r \<mapsto> r)) rs M i = M i"
  by (induction rs arbitrary: M) auto

lemma fold_upd_in: "distinct (map rid rs) \<Longrightarrow> r \<in> set rs \<Longrightarrow> fold (\<lambda>r M. M(rid r \<mapsto> r)) rs M (rid r) = Some r"
  by (induction rs arbitrary: M) (auto simp: fold_upd_out)

lemma fold_upd_zero: "fold (\<lambda>r M. M(rid r \<mapsto> r)) (replicate n zero_Record) M = (if n = 0 then M else M([] \<mapsto> zero_Record))"
  by (induction n arbitrary: M) auto

lemma owned_not_Nil: "pfx \<noteq> [] \<Longrightarrow> \<not> owned pfx []"
  by (simp add: owned_def)


text \<open>The cache after the listed services \<open>ss\<close> are added to it.\<close>

definition loaded :: "string \<Rightarrow> AgentService list \<Rightarrow> Record list" where
  "loaded pfx ss = replicate (length ss) zero_Record @ map service_record_of (filter (\<lambda>s. owned pfx (AS_ID s)) ss)"

lemma loaded_at:
  assumes "distinct (map AS_ID ss)" "S = map_of (map (\<lambda>s. (AS_ID s, registration s)) ss)" "pfx \<noteq> []"
  shows "owned pfx i \<Longrightarrow> S i = Some s \<Longrightarrow>
      \<exists>t. fold (\<lambda>r M. M(rid r \<mapsto> r)) (loaded pfx ss) M i = Some (service_record_of t) \<and> AS_ID t = i \<and> registration t = s"
    and "i \<noteq> [] \<Longrightarrow> \<not> owned pfx i \<or> S i = None \<Longrightarrow> fold (\<lambda>r M. M(rid r \<mapsto> r)) (loaded pfx ss) M i = M i"
    and "fold (\<lambda>r M. M(rid r \<mapsto> r)) (loaded pfx ss) M [] \<in> {Some zero_Record, M []}"
proof -
  let ?own = "filter (\<lambda>s. owned pfx (AS_ID s)) ss"
  let ?recs = "map service_record_of ?own" and ?M = "if length ss = 0 then M else M([] \<mapsto> zero_Record)"
  have fold: "fold (\<lambda>r M. M(rid r \<mapsto> r)) (loaded pfx ss) M = fold (\<lambda>r M. M(rid r \<mapsto> r)) ?recs ?M"
    by (simp only: loaded_def fold_append comp_apply fold_upd_zero)
  have ids: "map rid ?recs = map AS_ID ?own" by simp
  then have dist: "distinct (map rid ?recs)" using distinct_map_filter [OF assms(1)] by (simp only:)
  show "\<exists>t. fold (\<lambda>r M. M(rid r \<mapsto> r)) (loaded pfx ss) M i = Some (service_record_of t) \<and> AS_ID t = i \<and> registration t = s"
    if i: "owned pfx i" "S i = Some s"
  proof -
    from i(2) have "(i, s) \<in> set (map (\<lambda>s. (AS_ID s, registration s)) ss)" unfolding assms(2) by (rule map_of_SomeD)
    then obtain t where t: "t \<in> set ss" "AS_ID t = i" "registration t = s" by auto
    then have "service_record_of t \<in> set ?recs" using i(1) by simp
    from fold_upd_in [OF dist this, of ?M] show ?thesis unfolding fold using t by auto
  qed
  show "fold (\<lambda>r M. M(rid r \<mapsto> r)) (loaded pfx ss) M i = M i" if i: "i \<noteq> []" "\<not> owned pfx i \<or> S i = None"
  proof -
    have "i \<notin> AS_ID ` set ss \<or> \<not> owned pfx i" using i(2) unfolding assms(2) by (auto simp: map_of_eq_None_iff image_image)
    then have "i \<notin> set (map AS_ID ?own)" by auto
    then have "i \<notin> rid ` set ?recs" unfolding ids [symmetric] by (simp only: set_map not_False_eq_True)
    from fold_upd_out [OF this, of ?M] show ?thesis unfolding fold using i(1) by simp
  qed
  have "[] \<notin> set (map AS_ID ?own)" using owned_not_Nil [OF assms(3)] by auto
  then have "[] \<notin> rid ` set ?recs" unfolding ids [symmetric] by (simp only: set_map not_False_eq_True)
  from fold_upd_out [OF this, of ?M]
  show "fold (\<lambda>r M. M(rid r \<mapsto> r)) (loaded pfx ss) M [] \<in> {Some zero_Record, M []}" unfolding fold by simp
qed

lemma loaded_in_step:
  assumes "distinct (map AS_ID ss)" "S = map_of (map (\<lambda>s. (AS_ID s, registration s)) ss)" "own_ok pfx S" "map_ok pfx M"
    and M': "M' = fold (\<lambda>r M. M(rid r \<mapsto> r)) (loaded pfx ss) M"
    and absent: "\<And>i. owned pfx i \<Longrightarrow> S i = None \<Longrightarrow> service_at M i = None"
  shows "map_ok pfx M'" "owned pfx i \<Longrightarrow> S i = service_at M' i"
proof -
  have pfx: "pfx \<noteq> []" using assms(3) by (simp add: own_ok_def)
  note at = loaded_at [OF assms(1,2) pfx, where M = M, folded M']
  show "map_ok pfx M'"
    unfolding map_ok_def
  proof (intro allI impI)
    fix i c assume c: "M' i = Some c"
    consider "i = []" | "i \<noteq> []" "\<not> owned pfx i \<or> S i = None" | s where "owned pfx i" "S i = Some s"
      by (cases "S i") auto
    then show "c = zero_Record \<and> i = [] \<or> wf_rec c \<and> rid c = i \<and> i \<noteq> [] \<and> tags_ok c \<and> service_rec c = owned pfx i"
    proof cases
      case 1
      then have "c = zero_Record \<or> M [] = Some c" using at(3) c by auto
      then show ?thesis using 1 assms(4) unfolding map_ok_def by blast
    next
      case 2
      then have "M i = Some c" using at(2) c by simp
      then show ?thesis using assms(4) unfolding map_ok_def by blast
    next
      case (3 s)
      then obtain t where t: "c = service_record_of t" "AS_ID t = i" "registration t = s" using at(1) c by fastforce
      have "distinct (ASR_Tags s)" using assms(3) 3 by (auto simp: own_ok_def)
      then have "tags_ok c" using t by (simp add: tags_ok_def)
      then show ?thesis using t 3(1) owned_not_Nil [OF pfx] by auto
    qed
  qed
  show "S i = service_at M' i" if "owned pfx i"
  proof (cases "S i")
    case None
    then have "M' i = M i" using at(2) that owned_not_Nil [OF pfx] by metis
    then show ?thesis using None absent [OF that None] by (simp add: service_at_def)
  next
    case (Some s)
    then show ?thesis using at(1) [OF that Some] by (auto simp: service_at_def)
  qed
qed


text \<open>
  An agent that may start a pass: it is in step, or it has lost its connection and is due to
  reconnect.
\<close>

definition ready_agent :: "('w \<Rightarrow> string \<rightharpoonup> AgentServiceRegistration) \<Rightarrow> ConsulConfig \<Rightarrow> agent \<Rightarrow> 'w \<Rightarrow> bool" where
  "ready_agent svcs config a w \<longleftrightarrow>
     in_step svcs (CC_ServicePrefix config) a w \<or> \<not> A_Healthy a \<and> CC_CacheRefresh config dvd A_count a"

lemma drop_cache_facts [simp]:
  "cmap (drop_cache a) = Map.empty" "cache_ok (drop_cache a)" "A_Healthy (drop_cache a) = A_Healthy a"
  "A_count (drop_cache a) = A_count a"
  by (simp_all add: drop_cache_def cmap_def cache_ok_def)

lemma agent_refresh_ok:
  assumes "list_ok api svcs" "own_ok pfx (svcs w)" "ready_agent svcs config a w"
    and "CC_ServicePrefix config = pfx" "CC_CacheRefresh config \<noteq> 0" "\<not> CC_CacheOnly config"
  shows "\<exists>a' w'. agent_refresh api config port (a, w) = Some (True, a', w') \<and> in_step svcs pfx a' w' \<and>
    svcs w' = svcs w \<and> A_count a' = A_count a"
proof (cases "CC_CacheRefresh config dvd A_count a")
  case False
  then have "in_step svcs pfx a w" using assms(3,4) by (auto simp: ready_agent_def)
  then show ?thesis using False assms(5) by (auto simp: agent_refresh_def)
next
  case True
  define a1 where "a1 = (if A_Healthy a then a else drop_cache (a\<lparr>A_Healthy := True\<rparr>))"
  define cw where "cw = (if A_Healthy a then (True, w) else consulInit api config (A_Address a) port 5 w)"
  obtain w1 where w1: "cw = (True, w1)" "svcs w1 = svcs w"
  proof -
    have "fst cw \<and> svcs (snd cw) = svcs w" using assms(1) by (simp add: cw_def consulInit_def list_ok_def)
    then show ?thesis using that by (cases cw) auto
  qed
  obtain ss w2 where ss: "api_Services api w1 = (Some ss, w2)" "svcs w2 = svcs w" "distinct (map AS_ID ss)"
    "svcs w = map_of (map (\<lambda>s. (AS_ID s, registration s)) ss)"
    using assms(1) w1(2) unfolding list_ok_def by (metis prod.collapse)
  have start: "A_Healthy a1" "cache_ok a1" "map_ok pfx (cmap a1)" "A_count a1 = A_count a"
    "\<And>i. owned pfx i \<Longrightarrow> svcs w i = None \<Longrightarrow> service_at (cmap a1) i = None"
    using assms(3,4) by (auto simp: a1_def ready_agent_def in_step_def map_ok_def service_at_def)
  have "1 < length (Split (AS_ID s) '':'')" if "s \<in> set ss" "owned pfx (AS_ID s)" for s
  proof -
    have "svcs w (AS_ID s) = Some (registration s)"
      unfolding ss(4) using that(1) ss(3) by (intro map_of_is_SomeI) (auto simp: comp_def)
    then show ?thesis using assms(2) that(2) by (auto simp: own_ok_def)
  qed
  then have recs: "agentServiceRecords api pfx w1 = (Some (loaded pfx ss), w2)"
    by (simp add: agentServiceRecords_def ss(1) service_records_eq loaded_def)
  have "\<forall>r\<in>set (loaded pfx ss). wf_rec r \<or> r = zero_Record" by (auto simp: loaded_def)
  from cache_records_fold [OF this start(2), of api w2] obtain a2 where
    a2: "fold_opt (cache_record api ''add'') (loaded pfx ss) (a1, w2) = Some (a2, w2)" "cache_ok a2"
      "A_Healthy a2 = A_Healthy a1" "A_count a2 = A_count a1" "cmap a2 = fold (\<lambda>r M. M(rid r \<mapsto> r)) (loaded pfx ss) (cmap a1)"
    by blast
  have "agent_refresh api config port (a, w) = Some (True, a2, w2)"
    using True assms(4-6) w1(1) recs a2(1)
    by (simp add: agent_refresh_def Let_def cw_def [symmetric] a1_def [symmetric])
  moreover have "in_step svcs pfx a2 w2"
    using loaded_in_step [OF ss(3,4) assms(2) start(3) a2(5) start(5)] a2 start ss(2) by (simp add: in_step_def)
  ultimately show ?thesis using ss(2) a2(4) start(4) by auto
qed

lemma agent_pass_ok:
  assumes "api_ok api svcs" "list_ok api svcs" "own_ok pfx (svcs w)" "ready_agent svcs config a w"
    and "CC_ServicePrefix config = pfx" "CC_CacheRefresh config \<noteq> 0" "\<not> CC_CacheOnly config"
    and "records_ok R" "owned_records pfx R" "perm_fun ord1" "perm_fun ord2"
  shows "\<exists>a0 w0 a' w'. agent_pass api config port ord1 ord2 R (a, w) = Some (a', w') \<and> in_step svcs pfx a0 w0 \<and>
    svcs w0 = svcs w \<and> in_step svcs pfx a' w' \<and> round_spec R (cmap a0) (cmap a') \<and> (\<forall>i. \<not> owned pfx i \<longrightarrow> svcs w' i = svcs w i)"
proof -
  obtain a0 w0 where 0: "agent_refresh api config port (a, w) = Some (True, a0, w0)" "in_step svcs pfx a0 w0" "svcs w0 = svcs w"
    using agent_refresh_ok [OF assms(2-7)] by blast
  obtain a' w' where 1: "agent_round api ord1 ord2 R (a0, w0) = Some (a', w')" "in_step svcs pfx a' w'"
    "round_spec R (cmap a0) (cmap a')" "\<forall>i. \<not> owned pfx i \<longrightarrow> svcs w' i = svcs w0 i"
    using agent_round_ok [OF assms(1) 0(2) assms(8-11)] by blast
  show ?thesis using 0 1 by (intro exI [of _ a0] exI [of _ w0] exI [of _ a'] exI [of _ w']) (simp add: agent_pass_def)
qed


definition two_parts :: "Record list \<Rightarrow> bool" where
  "two_parts R \<longleftrightarrow> (\<forall>r\<in>set R. service_rec r \<longrightarrow> 1 < length (Split (rid r) '':''))"

lemma own_ok_after:
  assumes "in_step svcs pfx a w" "round_spec R M (cmap a)" "owned_records pfx R" "two_parts R" "pfx \<noteq> []"
  shows "own_ok pfx (svcs w)"
  unfolding own_ok_def
proof (intro conjI allI impI)
  fix i s assume i: "svcs w i = Some s" "owned pfx i"
  then have "service_at (cmap a) i = Some s" using assms(1) by (simp add: in_step_def)
  then obtain c where c: "cmap a i = Some c" "Rec_Service c = Some s" by (auto simp: service_at_def split: option.splits)
  have "i \<noteq> []" using i(2) owned_not_Nil [OF assms(5)] by auto
  then have "i \<in> rid ` set R" using c(1) assms(2) by (auto simp: round_spec_def)
  then show "1 < length (Split i '':'')" using assms(3,4) i(2) by (auto simp: two_parts_def owned_records_def)
  have "map_ok pfx (cmap a)" using assms(1) by (simp add: in_step_def)
  then have "tags_ok c" using c(1) \<open>i \<noteq> []\<close> unfolding map_ok_def by blast
  then show "distinct (ASR_Tags s)" using c(2) by (simp add: tags_ok_def)
qed (rule assms(5))

text \<open>For a cached record of \<open>R\<close>, Consul tells whether it changed.\<close>

lemma cached_service:
  assumes "in_step svcs pfx a w" "owned_records pfx R" "pfx \<noteq> []" "r \<in> set R" "service_rec r" "cmap a (rid r) = Some c"
  shows "\<exists>s. svcs w (rid r) = Some s \<and> (same_rec c r \<longleftrightarrow> compareService s (the (Rec_Service r)))"
proof -
  have o: "owned pfx (rid r)" using assms(2,4,5) by (simp add: owned_records_def)
  then have "service_rec c"
    using assms(1,6) owned_not_Nil [OF assms(3)] unfolding in_step_def map_ok_def by metis
  then obtain s where s: "Rec_Service c = Some s" by (auto simp: service_rec_def)
  then have "svcs w (rid r) = Some s" using assms(1,6) o by (simp add: in_step_def service_at_def)
  moreover have "same_rec c r \<longleftrightarrow> compareService s (the (Rec_Service r))"
    using s assms(5) by (auto simp: same_rec_def service_rec_def split: option.splits)
  ultimately show ?thesis by blast
qed

text \<open>No service of \<open>R\<close> is registered with other data.\<close>

definition unchanged :: "(string \<rightharpoonup> AgentServiceRegistration) \<Rightarrow> Record list \<Rightarrow> bool" where
  "unchanged S R \<longleftrightarrow> (\<forall>r\<in>set R. \<forall>s. service_rec r \<longrightarrow> S (rid r) = Some s \<longrightarrow> compareService s (the (Rec_Service r)))"

text \<open>
  One pass of an agent that is ready: it is in step afterwards, nothing of \<open>R\<close> is registered with
  other data any more, and everything of \<open>R\<close> is registered if that was so before.
\<close>

lemma agent_pass_step:
  assumes "api_ok api svcs" "list_ok api svcs" "own_ok pfx (svcs w)" "ready_agent svcs config a w"
    and "CC_ServicePrefix config = pfx" "CC_CacheRefresh config \<noteq> 0" "\<not> CC_CacheOnly config"
    and "records_ok R" "owned_records pfx R" "two_parts R" "perm_fun ord1" "perm_fun ord2"
  shows "\<exists>a' w'. agent_pass api config port ord1 ord2 R (a, w) = Some (a', w') \<and> in_step svcs pfx a' w' \<and> own_ok pfx (svcs w') \<and>
    unchanged (svcs w') R \<and> (unchanged (svcs w) R \<longrightarrow> registered pfx (svcs w') R) \<and>
    (\<forall>i. \<not> owned pfx i \<longrightarrow> svcs w' i = svcs w i)"
proof -
  have pfx: "pfx \<noteq> []" using assms(3) by (simp add: own_ok_def)
  obtain a0 w0 a' w' where 1: "agent_pass api config port ord1 ord2 R (a, w) = Some (a', w')" "in_step svcs pfx a0 w0"
    "svcs w0 = svcs w" "in_step svcs pfx a' w'" "round_spec R (cmap a0) (cmap a')" "\<forall>i. \<not> owned pfx i \<longrightarrow> svcs w' i = svcs w i"
    using agent_pass_ok [OF assms(1-9,11,12)] by blast
  have own: "own_ok pfx (svcs w')" by (rule own_ok_after [OF 1(4,5) assms(9,10) pfx])
  have "compareService s (the (Rec_Service r))" if r: "r \<in> set R" "service_rec r" "svcs w' (rid r) = Some s" for r s
  proof -
    have "owned pfx (rid r)" using r assms(9) by (simp add: owned_records_def)
    then have "service_at (cmap a') (rid r) = Some s" using r(3) 1(4) by (simp add: in_step_def)
    then obtain c where c: "cmap a' (rid r) = Some c" by (auto simp: service_at_def split: option.splits)
    have "same_rec c r" by (rule round_spec_same [OF 1(5) assms(8) r(1) c])
    then show ?thesis using cached_service [OF 1(4) assms(9) pfx r(1,2) c] r(3) by auto
  qed
  then have "unchanged (svcs w') R" by (simp add: unchanged_def)
  moreover have "registered pfx (svcs w') R" if "unchanged (svcs w) R"
    using that cached_service [OF 1(2) assms(9) pfx] 1(3) unfolding unchanged_def
    by (intro round_registered [OF 1(5,4) assms(8,9) pfx]) metis
  ultimately show ?thesis using 1(1,4,6) own by blast
qed

section \<open>An agent in memory\<close>

text \<open>A Consul agent that keeps its services in a list, the latest registration of an identifier first.\<close>

fun dedupe :: "AgentService list \<Rightarrow> AgentService list" where
  "dedupe [] = []"
| "dedupe (s # ss) = s # filter (\<lambda>t. AS_ID t \<noteq> AS_ID s) (dedupe ss)"

definition unregistration :: "AgentServiceRegistration \<Rightarrow> AgentService" where
  "unregistration s = \<lparr>AS_ID = ASR_ID s, AS_Service = ASR_Name s, AS_Tags = ASR_Tags s, AS_Port = ASR_Port s, AS_Address = ASR_Address s\<rparr>"

definition memory_services :: "AgentService list \<Rightarrow> string \<rightharpoonup> AgentServiceRegistration" where
  "memory_services w = map_of (map (\<lambda>s. (AS_ID s, registration s)) w)"

definition memory_api :: "AgentService list consul_api" where
  "memory_api = \<lparr>api_connect = (\<lambda>_ w. (True, w)), api_Members = (\<lambda>w. (Some [], w)), api_Services = (\<lambda>w. (Some (dedupe w), w)),
     api_ServiceRegister = (\<lambda>s w. (True, unregistration s # w)), api_CheckRegister = (\<lambda>_ w. (True, w)),
     api_ServiceDeregister = (\<lambda>i w. (True, filter (\<lambda>s. AS_ID s \<noteq> i) w)), api_CheckDeregister = (\<lambda>_ w. (True, w)),
     api_Now = (\<lambda>_. 0)\<rparr>"

lemma memory_filter: "memory_services (filter (\<lambda>s. AS_ID s \<noteq> i) w) = (memory_services w)(i := None)"
  by (induction w) (auto simp: memory_services_def fun_eq_iff)

lemma memory_dedupe: "memory_services (dedupe w) = memory_services w" "distinct (map AS_ID (dedupe w))"
proof (induction w)
  case (Cons s ss)
  have "memory_services (dedupe (s # ss)) = (memory_services (filter (\<lambda>t. AS_ID t \<noteq> AS_ID s) (dedupe ss)))(AS_ID s \<mapsto> registration s)"
    by (simp add: memory_services_def)
  then show "memory_services (dedupe (s # ss)) = memory_services (s # ss)"
    using Cons by (simp add: memory_filter) (simp add: memory_services_def)
  show "distinct (map AS_ID (dedupe (s # ss)))" using distinct_map_filter [OF Cons.IH(2)] by auto
qed (simp_all add: memory_services_def)

lemma memory_api_ok: "api_ok memory_api memory_services" "list_ok memory_api memory_services"
proof -
  have "registration (unregistration s) = s" for s by (simp add: registration_def unregistration_def)
  then show "api_ok memory_api memory_services"
    by (simp add: api_ok_def memory_api_def memory_filter) (simp add: memory_services_def unregistration_def)
  show "list_ok memory_api memory_services"
    using memory_dedupe by (simp add: list_ok_def memory_api_def memory_services_def)
qed

definition demo_id :: string where
  "demo_id = ''mesos-dns:s1:t1:80''"

definition demo_prefix :: string where
  "demo_prefix = CC_ServicePrefix consul_NewConfig"

definition demo_service :: "int \<Rightarrow> AgentServiceRegistration" where
  "demo_service port = CreateService demo_id ''web'' ''10.0.0.1'' (Itoa port) [''host'']"

definition demo_records :: "int \<Rightarrow> Record list" where
  "demo_records port = [\<lparr>Rec_Action = ''add'', Rec_Address = ''10.0.0.1'', Rec_SlaveID = ''s1'', Rec_Type = ''service'',
     Rec_Service = Some (demo_service port), Rec_Check = None\<rparr>]"

lemma demo_service_facts: "ASR_ID (demo_service k) = demo_id" "ASR_Tags (demo_service k) = [''host'']"
  by (simp_all add: demo_service_def CreateService_def split: prod.split)

lemma demo_id_facts:
  "hd (Split demo_id '':'') = demo_prefix" "demo_id \<noteq> []" "demo_prefix \<noteq> []" "1 < length (Split demo_id '':'')"
  by code_simp+

lemma demo_records_facts:
  "records_ok (demo_records k)" "owned_records demo_prefix (demo_records k)" "two_parts (demo_records k)"
  "service_rec (hd (demo_records k))" "rid (hd (demo_records k)) = demo_id"
proof -
  have rid: "rid (hd (demo_records k)) = demo_id" by (simp add: rid_def demo_records_def demo_service_facts)
  have rec: "service_rec (hd (demo_records k))" by (simp add: service_rec_def demo_records_def)
  show "records_ok (demo_records k)" "owned_records demo_prefix (demo_records k)" "two_parts (demo_records k)"
    using rid rec demo_id_facts
    by (simp_all add: records_ok_def wf_rec_def tags_ok_def owned_records_def two_parts_def owned_def demo_records_def demo_service_facts)
qed (simp_all add: rid_def service_rec_def demo_records_def demo_service_facts)

lemma demo_consul_config:
  "CC_ServicePrefix consul_NewConfig = demo_prefix" "CC_CacheRefresh consul_NewConfig \<noteq> 0" "\<not> CC_CacheOnly consul_NewConfig"
  by (simp_all add: demo_prefix_def) (simp_all add: consul_NewConfig_def)

text \<open>
  A registered service whose port changes is registered anew and then deregistered: after the pass
  it is gone, until the next pass.
\<close>

lemma changed_service_vanishes:
  "map_option (map AS_ID \<circ> snd) (agent_pass memory_api consul_NewConfig ''8500'' id id (demo_records 81)
     (new_agent ''10.0.0.1'', [unregistration (demo_service 80)])) = Some []"
  by code_simp

section \<open>Properties\<close>



end
