(* ===== verification/Main_Loop.thy ===== *)
theory Main_Loop
  imports Serving Parse_State Detect Consul_Dispatch Consul_Sync
begin

text \<open>
  \<open>main.go\<close> and \<open>resolvers/resolvers.go\<close>: starting the resolvers and the event loop that
  reloads them, as a transition system. The error channel is unbuffered: a send and a receive of two
  goroutines complete together, and only the loop receives. Parameters are the environment of the
  components: clients, the Consul API, the HTTP loader of master states, name resolution, time.
\<close>

section \<open>Starting the resolvers\<close>

definition consul_struct :: "ConsulConfig \<Rightarrow> struct" where
  "consul_struct c =
     [(''Address'', GString (CC_Address c)), (''CacheOnly'', GBool (CC_CacheOnly c)), (''CacheRefresh'', GInt (CC_CacheRefresh c)),
      (''Datacenter'', GString (CC_Datacenter c)), (''Scheme'', GString (CC_Scheme c)),
      (''ServicePrefix'', GString (CC_ServicePrefix c)), (''SkipInactiveFrameworks'', GBool (CC_SkipInactiveFrameworks c)),
      (''Token'', GString (CC_Token c))]"

definition consul_of_struct :: "struct \<Rightarrow> ConsulConfig" where
  "consul_of_struct s = \<lparr>CC_Address = get_string s ''Address'', CC_CacheOnly = get_bool s ''CacheOnly'',
     CC_CacheRefresh = get_int s ''CacheRefresh'', CC_Datacenter = get_string s ''Datacenter'', CC_Scheme = get_string s ''Scheme'',
     CC_ServicePrefix = get_string s ''ServicePrefix'', CC_SkipInactiveFrameworks = get_bool s ''SkipInactiveFrameworks'',
     CC_Token = get_string s ''Token''\<rparr>"

text \<open>A nil backend is a resolver too: the interface that holds it is not nil.\<close>

datatype ('g, 'e) resolver = BuiltinR "('g, 'e) Resolver" | ConsulR Backend | NilConsulR

text \<open>How a step of the program ends: normally, blocked for ever, or with the process.\<close>

datatype 'a outcome = Normal 'a | Stuck | Crash

text \<open>The environment of the program.\<close>

record ('g, 'e, 'w) environment =
  env_conversion :: conversion
  env_client :: "string \<Rightarrow> int \<Rightarrow> 'e Exchanger"
  env_seed :: 'g
  env_api :: "'w consul_api"
  env_version :: string

definition new_resolver ::
  "('g, 'e, 'w) environment \<Rightarrow> RecordGenerator \<Rightarrow> string \<times> iface \<Rightarrow> ('g, 'e) resolver list \<times> 'w \<Rightarrow> (('g, 'e) resolver list \<times> 'w) outcome" where
  "new_resolver env rg = (\<lambda>(k, v) (rs, w).
     if ToLower k = ''builtin'' then
       (case Merge (env_conversion env) v (builtin_struct builtin_NewConfig) of
          None \<Rightarrow> Crash
        | Some s \<Rightarrow>
            Normal (rs @ [BuiltinR (fst (builtin_New (env_client env) (env_seed env) (builtin_of_struct s) rg (env_version env)))], w))
     else if ToLower k = ''consul'' then
       (case Merge (env_conversion env) v (consul_struct consul_NewConfig) of
          None \<Rightarrow> Crash
        | Some s \<Rightarrow>
            (case consul_New (env_api env) (consul_of_struct s) rg w of
               (NilBackend, w') \<Rightarrow> Normal (rs @ [NilConsulR], w')
             | (Blocked, w') \<Rightarrow> Stuck
             | (Started b, w') \<Rightarrow> Normal (rs @ [ConsulR b], w')))
     else Normal (rs, w))"

text \<open>The loop over the configured resolvers, in the order Go visits the map.\<close>

fun new_resolvers ::
  "('g, 'e, 'w) environment \<Rightarrow> RecordGenerator \<Rightarrow> (string \<times> iface) list \<Rightarrow> ('g, 'e) resolver list \<times> 'w \<Rightarrow> (('g, 'e) resolver list \<times> 'w) outcome" where
  "new_resolvers env rg [] s = Normal s"
| "new_resolvers env rg (x # xs) s =
     (case new_resolver env rg x s of Normal s' \<Rightarrow> new_resolvers env rg xs s' | Stuck \<Rightarrow> Stuck | Crash \<Rightarrow> Crash)"

definition resolvers_New ::
  "('g, 'e, 'w) environment \<Rightarrow> ((string \<times> iface) list \<Rightarrow> (string \<times> iface) list) \<Rightarrow> RecordGenerator \<Rightarrow> 'w \<Rightarrow> (('g, 'e) resolver list \<times> 'w) outcome" where
  "resolvers_New env ord rg w =
     new_resolvers env rg (ord (case Config_Resolvers (RG_Config rg) of None \<Rightarrow> [] | Some m \<Rightarrow> m)) ([], w)"

section \<open>The event loop\<close>

text \<open>
  Where the goroutine of the loop is: at its \<open>select\<close>, in the send of an error on the error channel
  (in \<open>reloadResolvers\<close>), or ended with the process.
\<close>

datatype phase = Running | Sending gen_error | Exited

text \<open>
  Of the other goroutines that hold the error channel the state has their numbers:
  \<open>main_reporters\<close> run a server of a builtin resolver and send once, when it has stopped;
  \<open>main_senders\<close> wait in a send. (The agents of a Consul backend hold the channel too but never
  use it, see \<open>started_agent_sends_nothing\<close> in \<open>Consul_Loop\<close>.)
\<close>

record ('g, 'e) main_state =
  main_config :: Config
  main_rs :: "('g, 'e) resolver list"
  main_timer :: bool
  main_reporters :: nat
  main_senders :: nat
  main_phase :: phase

text \<open>The goroutines \<open>New\<close> starts for the servers that the configuration of a builtin resolver asks for.\<close>

definition launches :: "(BuiltinConfig \<Rightarrow> bool) \<Rightarrow> ('g, 'e) resolver list \<Rightarrow> nat" where
  "launches on rs = length (filter (\<lambda>r. case r of BuiltinR b \<Rightarrow> on (Res_config b) | _ \<Rightarrow> False) rs)"

text \<open>
  One round of the outside world: name resolution, the loader of master states, the time, and
  what the Consul backend receives from its poller.
\<close>

record round_env =
  renv_resolve :: "string \<Rightarrow> IP option"
  renv_load :: loader
  renv_now :: int
  renv_unmarshal :: json_check
  renv_kvs :: "KVPair list"

fun reload_one :: "round_env \<Rightarrow> RecordGenerator \<Rightarrow> ('g, 'e) resolver \<Rightarrow> ('g, 'e) resolver option" where
  "reload_one re rg (BuiltinR r) = Some (BuiltinR (Reload rg r))"
| "reload_one re rg (ConsulR b) =
     (case consul_Reload (renv_unmarshal re) (renv_kvs re) rg b of (b', out) \<Rightarrow> do { _ \<leftarrow> out; Some (ConsulR b') })"
| "reload_one re rg NilConsulR = None"

text \<open>
  \<open>reloadResolvers\<close>: the configuration is shared with the generator by pointer, so its serial
  number changes with it. A panic ends the process; an error takes the loop to the send on the error
  channel.
\<close>

definition reloadResolvers :: "round_env \<Rightarrow> ('g, 'e) main_state \<Rightarrow> ('g, 'e) main_state" where
  "reloadResolvers re s =
     (case ParseState (renv_resolve re) (renv_load re) (renv_now re) (NewRecordGenerator (main_config s)) of
        None \<Rightarrow> s\<lparr>main_phase := Exited\<rparr>
      | Some (Some err, rg) \<Rightarrow> s\<lparr>main_phase := Sending err\<rparr>
      | Some (None, rg) \<Rightarrow>
          (case map_opt (reload_one re rg) (main_rs s) of
             None \<Rightarrow> s\<lparr>main_config := RG_Config rg, main_phase := Exited\<rparr>
           | Some rs \<Rightarrow> s\<lparr>main_config := RG_Config rg, main_rs := rs\<rparr>))"

definition no_leader :: "string list \<Rightarrow> bool" where
  "no_leader ms \<longleftrightarrow> length ms = 0 \<or> hd ms = []"

definition masters_changed :: "round_env \<Rightarrow> string list \<Rightarrow> ('g, 'e) main_state \<Rightarrow> ('g, 'e) main_state" where
  "masters_changed re ms s =
     reloadResolvers re (s\<lparr>main_timer := no_leader ms, main_config := (main_config s)\<lparr>Config_Masters := ms\<rparr>\<rparr>)"

text \<open>A number of seconds as a duration: 64-bit nanoseconds, which wrap around.\<close>

definition seconds :: "int \<Rightarrow> int" where
  "seconds n = sint (of_int (n * 1000000000) :: 64 word)"

text \<open>Who waits to send on the error channel and who waits to receive from it.\<close>

datatype goroutine = Loop | Other

fun sending :: "goroutine \<Rightarrow> ('g, 'e) main_state \<Rightarrow> bool" where
  "sending Loop s \<longleftrightarrow> (case main_phase s of Sending _ \<Rightarrow> True | _ \<Rightarrow> False)"
| "sending Other s \<longleftrightarrow> main_senders s > 0"

fun receiving :: "goroutine \<Rightarrow> ('g, 'e) main_state \<Rightarrow> bool" where
  "receiving Loop s \<longleftrightarrow> main_phase s = Running"
| "receiving Other s \<longleftrightarrow> False"

text \<open>
  The steps: the reload ticker and a new list of masters, which the loop receives at its \<open>select\<close>;
  the detection timer, whose goroutine sends an error unless the duration is not positive; a server
  that has stopped, whose goroutine sends its error; and a send that meets a receive on the error
  channel, which ends the program, as the loop is the only receiver and treats every error as fatal.
\<close>

inductive main_step :: "('g, 'e) main_state \<Rightarrow> ('g, 'e) main_state \<Rightarrow> bool" where
  tick: "main_phase s = Running \<Longrightarrow> main_step s (reloadResolvers re s)"
| changed: "main_phase s = Running \<Longrightarrow> main_step s (masters_changed re ms s)"
| timeout: "main_phase s \<noteq> Exited \<Longrightarrow> main_timer s \<Longrightarrow>
    main_step s (s\<lparr>main_timer := False,
      main_senders := main_senders s + (if seconds (Config_ZkDetectionTimeout (main_config s)) > 0 then 1 else 0)\<rparr>)"
| failure: "main_phase s \<noteq> Exited \<Longrightarrow> main_reporters s > 0 \<Longrightarrow>
    main_step s (s\<lparr>main_reporters := main_reporters s - 1, main_senders := main_senders s + 1\<rparr>)"
| fatal: "sending g s \<Longrightarrow> receiving h s \<Longrightarrow>
    main_step s (s\<lparr>main_senders := (if g = Other then main_senders s - 1 else main_senders s), main_phase := Exited\<rparr>)"

inductive_cases main_stepE: "main_step s s'"

text \<open>\<open>detectMasters\<close>: the detector, or the configured masters as the only message; none is a fatal error.\<close>

definition detectMasters :: "bool \<Rightarrow> string \<Rightarrow> string list \<Rightarrow> (Masters \<times> string list list) option" where
  "detectMasters detector_ok zk ms =
     (if zk \<noteq> [] then (if detector_ok then Some (NewMasters ms, []) else None)
      else Some (NewMasters ms, [ms]))"

text \<open>
  The start of \<open>main\<close> after the configuration is read: a ticker with a duration that is not
  positive panics.
\<close>

definition main_start ::
  "('g, 'e, 'w) environment \<Rightarrow> ((string \<times> iface) list \<Rightarrow> (string \<times> iface) list) \<Rightarrow> bool \<Rightarrow> Config \<Rightarrow> 'w \<Rightarrow>
   (('g, 'e) main_state \<times> string list list \<times> 'w) outcome" where
  "main_start env ord detector_ok config w =
     (if seconds (Config_RefreshSeconds config) \<le> 0 then Crash
      else case detectMasters detector_ok (Config_Zk config) (Config_Masters config) of
        None \<Rightarrow> Crash
      | Some (_, pending) \<Rightarrow>
          (case resolvers_New env ord (NewRecordGenerator config) w of
             Stuck \<Rightarrow> Stuck
           | Crash \<Rightarrow> Crash
           | Normal (rs, w') \<Rightarrow>
               Normal (\<lparr>main_config = config, main_rs = rs, main_timer = True,
                 main_reporters = launches BC_DNSOn rs + launches BC_HTTPOn rs, main_senders = 0, main_phase = Running\<rparr>, pending, w')))"


section \<open>Invariants\<close>

text \<open>Records published by a successful round with the given masters.\<close>

definition published :: "string list \<Rightarrow> RecordGenerator \<Rightarrow> bool" where
  "published ms rg \<longleftrightarrow> (\<exists>(re :: round_env) c. Config_Masters c = ms \<and>
     ParseState (renv_resolve re) (renv_load re) (renv_now re) (NewRecordGenerator c) = Some (None, rg))"

text \<open>
  All builtin resolvers serve the same records: the empty ones of the start, or those of the last
  round, made with the current configuration.
\<close>

definition serves :: "RecordGenerator \<Rightarrow> ('g, 'e) resolver list \<Rightarrow> bool" where
  "serves rg rs \<longleftrightarrow> (\<forall>r. BuiltinR r \<in> set rs \<longrightarrow> Res_rg r = rg)"

definition up_to_date :: "RecordGenerator \<Rightarrow> ('g, 'e) main_state \<Rightarrow> bool" where
  "up_to_date rg0 s \<longleftrightarrow>
     serves rg0 (main_rs s) \<and> main_config s = RG_Config rg0 \<or>
     (\<exists>rg. serves rg (main_rs s) \<and> published (Config_Masters (main_config s)) rg \<and> RG_Config rg = main_config s)"

definition watched :: "('g, 'e) main_state \<Rightarrow> bool" where
  "watched s \<longleftrightarrow> main_timer s \<or> main_senders s > 0 \<or> seconds (Config_ZkDetectionTimeout (main_config s)) \<le> 0 \<or>
     \<not> no_leader (Config_Masters (main_config s))"

lemma ParseState_config:
  assumes "ParseState resolve load now rg = Some (None, rg')"
  shows "RG_Config rg' = (RG_Config rg)\<lparr>Config_SOASerial := of_int now\<rparr>"
proof -
  obtain sj d n m i h where "InsertState resolve now sj d n m i h rg = Some rg'"
    using assms by (auto simp: ParseState_def bind_eq_Some_conv Let_def split: if_splits prod.splits)
  then show ?thesis by (rule InsertState_facts(8))
qed

lemma reload_one_serves: "reload_one re rg r = Some (BuiltinR r') \<Longrightarrow> Res_rg r' = rg"
  by (cases r) (auto simp: Reload_def bind_eq_Some_conv split: prod.splits)

lemma reload_all_serves:
  assumes "map_opt (reload_one re rg) rs = Some rs'"
  shows "serves rg rs'"
  unfolding serves_def
proof (intro allI impI)
  fix r assume "BuiltinR r \<in> set rs'"
  then obtain x where "reload_one re rg x = Some (BuiltinR r)"
    using assms unfolding map_opt_Some_conv by (auto dest: list_all2_rightD)
  then show "Res_rg r = rg" by (rule reload_one_serves)
qed

text \<open>The outcomes of a round.\<close>

lemma reloadResolvers_cases:
  obtains (crash) c where "reloadResolvers re s = s\<lparr>main_config := c, main_phase := Exited\<rparr>"
  | (stuck) err rg where "reloadResolvers re s = s\<lparr>main_phase := Sending err\<rparr>"
      "ParseState (renv_resolve re) (renv_load re) (renv_now re) (NewRecordGenerator (main_config s)) = Some (Some err, rg)"
  | (reloaded) rg rs where "reloadResolvers re s = s\<lparr>main_config := RG_Config rg, main_rs := rs\<rparr>" "serves rg rs"
      "ParseState (renv_resolve re) (renv_load re) (renv_now re) (NewRecordGenerator (main_config s)) = Some (None, rg)"
proof (cases "ParseState (renv_resolve re) (renv_load re) (renv_now re) (NewRecordGenerator (main_config s))")
  case None
  then show ?thesis using crash [of "main_config s"] by (simp add: reloadResolvers_def)
next
  case (Some p)
  obtain err rg where p: "p = (err, rg)" by (cases p)
  show ?thesis
  proof (cases err)
    case None
    show ?thesis
    proof (cases "map_opt (reload_one re rg) (main_rs s)")
      case bad: None
      then show ?thesis using crash [of "RG_Config rg"] Some p None by (simp add: reloadResolvers_def)
    next
      case ok: (Some rs)
      then show ?thesis
        using reloaded [of rs rg] reload_all_serves [OF ok] Some p None by (simp add: reloadResolvers_def)
    qed
  qed (use stuck Some p in \<open>simp add: reloadResolvers_def\<close>)
qed

lemma reloadResolvers_up_to_date:
  assumes "main_phase (reloadResolvers re s) = Running"
  shows "\<exists>rg. serves rg (main_rs (reloadResolvers re s)) \<and> published (Config_Masters (main_config s)) rg \<and>
    RG_Config rg = main_config (reloadResolvers re s) \<and> Config_Masters (RG_Config rg) = Config_Masters (main_config s)"
proof (cases rule: reloadResolvers_cases [of re s])
  case (reloaded rg rs)
  have "published (Config_Masters (main_config s)) rg" using reloaded(3) unfolding published_def by blast
  moreover have "Config_Masters (RG_Config rg) = Config_Masters (main_config s)"
    using ParseState_config [OF reloaded(3)] by (simp add: NewRecordGenerator_def)
  ultimately show ?thesis using reloaded(1,2) by (intro exI [of _ rg]) simp
qed (use assms in simp_all)

lemma reloadResolvers_frame:
  "main_timer (reloadResolvers re s) = main_timer s" "main_senders (reloadResolvers re s) = main_senders s"
  "main_reporters (reloadResolvers re s) = main_reporters s"
  by (cases rule: reloadResolvers_cases [of re s]; simp)+

lemma reloadResolvers_running:
  "main_phase (reloadResolvers re s) = Running \<Longrightarrow> main_phase s = Running \<and>
   Config_Masters (main_config (reloadResolvers re s)) = Config_Masters (main_config s) \<and>
   Config_ZkDetectionTimeout (main_config (reloadResolvers re s)) = Config_ZkDetectionTimeout (main_config s)"
  by (cases rule: reloadResolvers_cases [of re s]) (auto dest!: ParseState_config simp: NewRecordGenerator_def)

lemma main_step_up_to_date:
  assumes "main_step s s'" "main_phase s' = Running" "up_to_date rg0 s"
  shows "up_to_date rg0 s'"
  using assms
proof (cases rule: main_step.cases)
  case (tick re)
  then show ?thesis using reloadResolvers_up_to_date [of re s] assms(2) unfolding up_to_date_def by metis
next
  case (changed re ms)
  let ?s = "s\<lparr>main_timer := no_leader ms, main_config := (main_config s)\<lparr>Config_Masters := ms\<rparr>\<rparr>"
  show ?thesis using changed reloadResolvers_up_to_date [of re ?s] assms(2) unfolding up_to_date_def masters_changed_def by metis
qed (auto simp: up_to_date_def)

lemma main_step_watched:
  assumes "main_step s s'" "main_phase s' = Running" "watched s"
  shows "watched s'"
  using assms
proof (cases rule: main_step.cases)
  case (tick re)
  then show ?thesis using reloadResolvers_frame [of re s] reloadResolvers_running [of re s] assms(2,3) by (simp add: watched_def)
next
  case (changed re ms)
  let ?s = "s\<lparr>main_timer := no_leader ms, main_config := (main_config s)\<lparr>Config_Masters := ms\<rparr>\<rparr>"
  show ?thesis using changed reloadResolvers_frame [of re ?s] reloadResolvers_running [of re ?s] assms(2)
    by (auto simp: watched_def masters_changed_def)
qed (auto simp: watched_def)

text \<open>The loop only takes steps that lead to a running state from running states.\<close>

lemma main_step_running: "main_step s s' \<Longrightarrow> main_phase s' = Running \<Longrightarrow> main_phase s = Running"
  by (cases rule: main_step.cases) (auto simp: masters_changed_def dest: reloadResolvers_running)

lemma main_run_inv:
  assumes "main_step\<^sup>*\<^sup>* s s'" "main_phase s' = Running" "up_to_date rg0 s" "watched s"
  shows "main_phase s = Running \<and> up_to_date rg0 s' \<and> watched s'"
  using assms
proof (induction rule: rtranclp_induct)
  case (step t u)
  have "main_phase t = Running" using main_step_running [OF step.hyps(2) step.prems(1)] .
  then show ?case
    using step.IH [OF _ step.prems(2,3)] main_step_up_to_date [OF step.hyps(2) step.prems(1)]
      main_step_watched [OF step.hyps(2) step.prems(1)] by blast
qed simp


lemma new_resolver_serves:
  assumes "new_resolver env rg x (rs, w) = Normal (rs', w')" "serves rg rs"
  shows "serves rg rs'"
  using assms by (auto simp: new_resolver_def serves_def builtin_New_def Let_def split: prod.splits if_splits option.splits new_result.splits)

lemma new_resolvers_serves:
  "new_resolvers env rg xs (rs, w) = Normal (rs', w') \<Longrightarrow> serves rg rs \<Longrightarrow> serves rg rs'"
proof (induction xs arbitrary: rs w)
  case (Cons x xs)
  then obtain rs1 w1 where 1: "new_resolver env rg x (rs, w) = Normal (rs1, w1)" "new_resolvers env rg xs (rs1, w1) = Normal (rs', w')"
    by (auto split: outcome.splits)
  then show ?case using Cons.IH new_resolver_serves [OF 1(1) Cons.prems(2)] by blast
qed simp

lemma main_start_facts:
  assumes "main_start env ord det config w = Normal (s, pending, w')"
  shows "main_phase s = Running" "main_config s = config" "serves (NewRecordGenerator config) (main_rs s)" "main_timer s"
    "main_reporters s = launches BC_DNSOn (main_rs s) + launches BC_HTTPOn (main_rs s)"
proof -
  obtain rs where new: "resolvers_New env ord (NewRecordGenerator config) w = Normal (rs, w')"
    and s: "s = \<lparr>main_config = config, main_rs = rs, main_timer = True,
      main_reporters = launches BC_DNSOn rs + launches BC_HTTPOn rs, main_senders = 0, main_phase = Running\<rparr>"
    using assms by (auto simp: main_start_def split: if_splits option.splits outcome.splits)
  have "serves (NewRecordGenerator config) []" by (simp add: serves_def)
  from new_resolvers_serves [OF new [unfolded resolvers_New_def] this] have "serves (NewRecordGenerator config) rs" .
  then show "main_phase s = Running" "main_config s = config" "serves (NewRecordGenerator config) (main_rs s)" "main_timer s"
    "main_reporters s = launches BC_DNSOn (main_rs s) + launches BC_HTTPOn (main_rs s)" by (simp_all add: s)
qed

text \<open>
  A loop that sends an error waits for ever: the send needs another goroutine that receives, and
  there is none.
\<close>

lemma sending_not_receiving: "main_phase s = Sending err \<Longrightarrow> \<not> receiving g s"
  by (cases g) simp_all

lemma sending_step:
  assumes "main_step s s'" "main_phase s = Sending err"
  shows "main_phase s' = Sending err \<and> main_rs s' = main_rs s \<and> main_config s' = main_config s \<and> main_senders s \<le> main_senders s'"
  using assms
proof (cases rule: main_step.cases)
  case (fatal g h)
  then show ?thesis using sending_not_receiving [OF assms(2), of h] by simp
qed (use assms(2) in simp_all)

text \<open>Only an error of a round takes the loop there.\<close>

lemma reloadResolvers_sending:
  assumes "main_phase (reloadResolvers re s) = Sending err" "main_phase s = Running"
  shows "\<exists>rg. ParseState (renv_resolve re) (renv_load re) (renv_now re) (NewRecordGenerator (main_config s)) = Some (Some err, rg)"
  by (cases rule: reloadResolvers_cases [of re s]) (use assms in auto)

lemma sending_from_error:
  assumes "main_step s s'" "main_phase s = Running" "main_phase s' = Sending err"
  shows "\<exists>(re :: round_env) c rg. (c = main_config s \<or> (\<exists>ms. c = (main_config s)\<lparr>Config_Masters := ms\<rparr>)) \<and>
    ParseState (renv_resolve re) (renv_load re) (renv_now re) (NewRecordGenerator c) = Some (Some err, rg)"
  using assms(1)
proof (cases rule: main_step.cases)
  case (tick re)
  from reloadResolvers_sending [OF assms(3) [unfolded tick(1)] assms(2)] obtain rg where
    "ParseState (renv_resolve re) (renv_load re) (renv_now re) (NewRecordGenerator (main_config s)) = Some (Some err, rg)" by (elim exE)
  then show ?thesis by (intro exI [of _ re] exI [of _ "main_config s"] exI [of _ rg] conjI disjI1 refl)
next
  case (changed re ms)
  let ?c = "(main_config s)\<lparr>Config_Masters := ms\<rparr>"
  let ?s = "s\<lparr>main_timer := no_leader ms, main_config := ?c\<rparr>"
  have "main_phase (reloadResolvers re ?s) = Sending err" "main_phase ?s = Running" "main_config ?s = ?c"
    using assms(3) unfolding changed(1) by (simp_all add: masters_changed_def changed(2))
  from reloadResolvers_sending [OF this(1,2), unfolded this(3)] obtain rg where
    "ParseState (renv_resolve re) (renv_load re) (renv_now re) (NewRecordGenerator ?c) = Some (Some err, rg)" by (elim exE)
  then show ?thesis by (intro exI [of _ re] exI [of _ ?c] exI [of _ rg] conjI disjI2 exI [of _ ms] refl)
qed (use assms(2,3) in simp_all)

section \<open>Properties\<close>

text \<open>C4: while the program runs, all its builtin resolvers serve the same records: the empty ones it
  starts with, or those of a successful round with the masters received last. And as long as
  the last list of masters has no leader, the detection timer is armed or has fired (unless it
  is switched off), so that the program may end.\<close>

theorem main_loop_serves:
  assumes "main_start env ord detector_ok config w = Normal (s0, pending, w')"
    and "main_step\<^sup>*\<^sup>* s0 s" and "main_phase s = Running"
  shows "(serves (NewRecordGenerator config) (main_rs s) \<and> main_config s = config \<or>
      (\<exists>rg. serves rg (main_rs s) \<and> published (Config_Masters (main_config s)) rg \<and> RG_Config rg = main_config s)) \<and>
    (no_leader (Config_Masters (main_config s)) \<longrightarrow>
      main_timer s \<or> main_senders s > 0 \<or> seconds (Config_ZkDetectionTimeout (main_config s)) \<le> 0)"
proof -
  note start = main_start_facts [OF assms(1)]
  have "up_to_date (NewRecordGenerator config) s0" "watched s0"
    using start by (simp_all add: up_to_date_def watched_def NewRecordGenerator_def)
  from main_run_inv [OF assms(2,3) this] show ?thesis
    unfolding up_to_date_def watched_def by (auto simp: NewRecordGenerator_def)
qed

definition demo_env :: "(nat, unit, AgentService list) environment" where
  "demo_env = \<lparr>env_conversion = \<lparr>conv_int = (\<lambda>_ _. 0), conv_float32 = id\<rparr>, env_client = (\<lambda>_ _ m _ e. ((Some m, 0, None), e)),
     env_seed = 0, env_api = memory_api, env_version = ''dev''\<rparr>"

definition demo_main_config :: Config where
  "demo_main_config = demo_config\<lparr>Config_Resolvers := Some [(''Builtin'', INil)]\<rparr>"

definition demo_round :: round_env where
  "demo_round = \<lparr>renv_resolve = (\<lambda>_. None), renv_load = demo_load, renv_now = 7, renv_unmarshal = (\<lambda>_ c. (c, True)), renv_kvs = []\<rparr>"

lemma demo_seconds: "seconds 60 = 60000000000" "seconds 30 = 30000000000"
  by (code_simp)+

lemma demo_start:
  assumes "c = demo_main_config\<lparr>Config_Masters := ms\<rparr>"
  shows "\<exists>s0 pending w'. main_start demo_env id True c [] = Normal (s0, pending, w') \<and> (\<exists>r. main_rs s0 = [BuiltinR r])"
proof -
  have k: "ToLower ''Builtin'' = ''builtin''" by code_simp
  have "resolvers_New demo_env id (NewRecordGenerator c) [] =
      Normal ([BuiltinR (fst (builtin_New (env_client demo_env) (env_seed demo_env)
        (builtin_of_struct (builtin_struct builtin_NewConfig)) (NewRecordGenerator c) (env_version demo_env)))], [])"
    by (simp add: resolvers_New_def NewRecordGenerator_def assms demo_main_config_def new_resolver_def k Merge_def)
  then show ?thesis
    by (simp add: main_start_def assms demo_main_config_def detectMasters_def demo_config_def NewConfig_def demo_seconds)
qed

theorem main_loop_serves_witness:
  "\<exists>s0 pending w' s rg. main_start demo_env id True demo_main_config [] = Normal (s0, pending, w') \<and> main_step\<^sup>*\<^sup>* s0 s \<and>
     main_phase s = Running \<and> serves rg (main_rs s) \<and> RG_Config rg = main_config s"
proof -
  obtain s0 pending w' r where s0: "main_start demo_env id True demo_main_config [] = Normal (s0, pending, w')"
    "main_rs s0 = [BuiltinR r]" using demo_start [of demo_main_config "Config_Masters demo_main_config"] by auto
  note start = main_start_facts [OF s0(1)]
  let ?s = "reloadResolvers demo_round s0"
  obtain rg where "ParseState (\<lambda>_. None) demo_load 7 (NewRecordGenerator demo_main_config) = Some (None, rg)"
    using demo_ParseState unfolding demo_main_config_def by blast
  then have run: "main_phase ?s = Running"
    using start s0(2) by (simp add: reloadResolvers_def demo_round_def)
  have steps: "main_step\<^sup>*\<^sup>* s0 ?s" using main_step.tick [OF start(1)] by (rule r_into_rtranclp)
  from main_loop_serves [OF s0(1) steps run] show ?thesis using s0(1) steps run by (metis NewRecordGenerator_def RecordGenerator.select_convs(2))
qed

end
