(* ===== verification/Servers.thy ===== *)
theory Servers
  imports Main_Loop
begin

text \<open>
  The goroutines of the DNS and HTTP servers of \<open>resolvers/builtin/resolver.go\<close> and the
  channels that carry the error of a server that stopped to the event loop of \<open>main.go\<close>:
  \<open>Serve\<close> and \<open>LaunchHTTP\<close> report on a buffered channel, \<open>LaunchDNS\<close> relays the reports of its
  two servers, and \<open>New\<close> passes the first one on to the loop. Any goroutine that can move may
  move next. What the library's servers do (serve, and some day return) comes from outside.
\<close>

section \<open>Channels\<close>

record 'a chan =
  ch_cap :: nat
  ch_buf :: "'a list"
  ch_closed :: bool

text \<open>A communication succeeds with the new state, has to wait, or panics.\<close>

datatype 'a comm = Comm 'a | Blocks | Panics

definition make_chan :: "nat \<Rightarrow> 'a chan" where
  "make_chan n = \<lparr>ch_cap = n, ch_buf = [], ch_closed = False\<rparr>"

definition chan_send :: "'a \<Rightarrow> 'a chan \<Rightarrow> 'a chan comm" where
  "chan_send v c =
     (if ch_closed c then Panics
      else if length (ch_buf c) < ch_cap c then Comm (c\<lparr>ch_buf := ch_buf c @ [v]\<rparr>)
      else Blocks)"

text \<open>Receiving from a channel that is closed and drained gives the zero value.\<close>

definition chan_recv :: "'a \<Rightarrow> 'a chan \<Rightarrow> ('a \<times> 'a chan) comm" where
  "chan_recv zero c =
     (case ch_buf c of
        v # vs \<Rightarrow> Comm (v, c\<lparr>ch_buf := vs\<rparr>)
      | [] \<Rightarrow> if ch_closed c then Comm (zero, c) else Blocks)"

definition chan_close :: "'a chan \<Rightarrow> 'a chan comm" where
  "chan_close c = (if ch_closed c then Panics else Comm (c\<lparr>ch_closed := True\<rparr>))"

section \<open>Goroutines\<close>

type_synonym err = "string option"

text \<open>
  The goroutine of a server: the library call runs, it has returned, its error (if any) is sent,
  the channel is closed. The goroutines \<open>out <- <-in\<close>: waiting for a value, holding one, done.
\<close>

datatype server_pc = Listening | Returned err | Closing err | Done err

datatype relay_pc = Waiting | Holding err | Finished

text \<open>One DNS server: its goroutine, its error channel and the relay \<open>LaunchDNS\<close> starts for it.\<close>

record dns_server =
  srv_pc :: server_pc
  srv_errCh :: "err chan"
  srv_relay :: relay_pc

record dns_servers =
  dns_srv :: "string \<Rightarrow> dns_server"
  dns_errCh :: "err chan"
  dns_new :: relay_pc

record http_server =
  http_pc :: server_pc
  http_errCh :: "err chan"
  http_new :: relay_pc

definition Serve_start :: dns_server where
  "Serve_start = \<lparr>srv_pc = Listening, srv_errCh = make_chan 1, srv_relay = Waiting\<rparr>"

definition LaunchDNS_start :: dns_servers where
  "LaunchDNS_start = \<lparr>dns_srv = (\<lambda>_. Serve_start), dns_errCh = make_chan 2, dns_new = Waiting\<rparr>"

definition LaunchHTTP_start :: http_server where
  "LaunchHTTP_start = \<lparr>http_pc = Listening, http_errCh = make_chan 1, http_new = Waiting\<rparr>"

definition serve_error :: "string \<Rightarrow> err \<Rightarrow> err" where
  "serve_error proto = map_option (\<lambda>e. ''Failed to setup \"'' @ proto @ ''\" server: '' @ e)"

definition http_error :: "err \<Rightarrow> err" where
  "http_error = map_option (\<lambda>e. ''Failed to setup http server: '' @ e)"

text \<open>\<open>Serve\<close>: the error is sent if there is one; the deferred call closes the channel.\<close>

definition Serve_go :: "string \<Rightarrow> dns_server \<Rightarrow> dns_server comm" where
  "Serve_go proto d =
     (case srv_pc d of
        Returned e \<Rightarrow>
          (case serve_error proto e of
             None \<Rightarrow> Comm (d\<lparr>srv_pc := Closing e\<rparr>)
           | Some m \<Rightarrow> map_comm (\<lambda>c. d\<lparr>srv_errCh := c, srv_pc := Closing e\<rparr>) (chan_send (Some m) (srv_errCh d)))
      | Closing e \<Rightarrow> map_comm (\<lambda>c. d\<lparr>srv_errCh := c, srv_pc := Done e\<rparr>) (chan_close (srv_errCh d))
      | _ \<Rightarrow> Blocks)"

text \<open>The relays of \<open>LaunchDNS\<close> and the goroutine of \<open>New\<close>, up to its send on the loop's channel.\<close>

definition relay_go :: "string \<Rightarrow> dns_servers \<Rightarrow> dns_servers comm" where
  "relay_go proto s =
     (let d = dns_srv s proto in
      case srv_relay d of
        Waiting \<Rightarrow> map_comm (\<lambda>(v, c). s\<lparr>dns_srv := (dns_srv s)(proto := d\<lparr>srv_errCh := c, srv_relay := Holding v\<rparr>)\<rparr>)
                     (chan_recv None (srv_errCh d))
      | Holding v \<Rightarrow> map_comm (\<lambda>c. s\<lparr>dns_errCh := c, dns_srv := (dns_srv s)(proto := d\<lparr>srv_relay := Finished\<rparr>)\<rparr>)
                       (chan_send v (dns_errCh s))
      | Finished \<Rightarrow> Blocks)"

definition New_dns_go :: "dns_servers \<Rightarrow> dns_servers comm" where
  "New_dns_go s =
     (if dns_new s = Waiting
      then map_comm (\<lambda>(v, c). s\<lparr>dns_errCh := c, dns_new := Holding v\<rparr>) (chan_recv None (dns_errCh s))
      else Blocks)"

definition LaunchHTTP_go :: "http_server \<Rightarrow> http_server comm" where
  "LaunchHTTP_go h =
     (case http_pc h of
        Returned e \<Rightarrow> map_comm (\<lambda>c. h\<lparr>http_errCh := c, http_pc := Done e\<rparr>) (chan_send (http_error e) (http_errCh h))
      | _ \<Rightarrow> Blocks)"

definition New_http_go :: "http_server \<Rightarrow> http_server comm" where
  "New_http_go h =
     (if http_new h = Waiting
      then map_comm (\<lambda>(v, c). h\<lparr>http_errCh := c, http_new := Holding v\<rparr>) (chan_recv None (http_errCh h))
      else Blocks)"

text \<open>The moves of the goroutines of one group of servers, in any order.\<close>

definition protos :: "string set" where
  "protos = {''tcp'', ''udp''}"

definition dns_moves :: "dns_servers \<Rightarrow> dns_servers comm set" where
  "dns_moves s =
     (\<lambda>p. map_comm (\<lambda>d. s\<lparr>dns_srv := (dns_srv s)(p := d)\<rparr>) (Serve_go p (dns_srv s p))) ` protos \<union>
     (\<lambda>p. relay_go p s) ` protos \<union> {New_dns_go s}"

definition http_moves :: "http_server \<Rightarrow> http_server comm set" where
  "http_moves h = {LaunchHTTP_go h, New_http_go h}"

section \<open>Sources of errors\<close>

text \<open>Whether the goroutine of \<open>New\<close> waits for the loop.\<close>

definition holds :: "relay_pc \<Rightarrow> nat" where
  "holds r = (case r of Holding _ \<Rightarrow> 1 | _ \<Rightarrow> 0)"


text \<open>
  What the loop relies on: a group of goroutines in which servers stop (\<open>down\<close> holds the errors
  they stopped with) and which in the end offers one of those errors to the loop.
\<close>

locale error_source =
  fixes moves :: "'s \<Rightarrow> 's comm set"
    and inv :: "'s \<Rightarrow> bool" and down :: "'s \<Rightarrow> err set" and offer :: "'s \<Rightarrow> relay_pc" and work :: "'s \<Rightarrow> nat"
  assumes no_panic: "inv s \<Longrightarrow> Panics \<notin> moves s"
    and inv_move: "inv s \<Longrightarrow> Comm s' \<in> moves s \<Longrightarrow> inv s'"
    and down_move: "inv s \<Longrightarrow> Comm s' \<in> moves s \<Longrightarrow> down s' = down s"
    and work_move: "inv s \<Longrightarrow> Comm s' \<in> moves s \<Longrightarrow> work s' < work s"
    and offer_move: "inv s \<Longrightarrow> Comm s' \<in> moves s \<Longrightarrow> offer s \<noteq> Waiting \<Longrightarrow> offer s' = offer s"
    and offer_new: "inv s \<Longrightarrow> Comm s' \<in> moves s \<Longrightarrow> offer s' \<noteq> Finished \<or> offer s = Finished"
    and progress: "inv s \<Longrightarrow> down s \<noteq> {} \<Longrightarrow> offer s = Waiting \<Longrightarrow> \<exists>s'. Comm s' \<in> moves s"
    and offered: "inv s \<Longrightarrow> offer s = Holding e \<Longrightarrow> e \<in> down s"
begin

text \<open>However the goroutines are scheduled, when none can move any more the error is offered.\<close>

lemma run_inv:
  assumes "(\<lambda>s s'. Comm s' \<in> moves s)\<^sup>*\<^sup>* s s'" "inv s"
  shows "inv s' \<and> down s' = down s"
  using assms by (induction rule: rtranclp_induct) (auto dest: inv_move down_move)

lemma offer_change:
  assumes "inv s" "Comm s' \<in> moves s"
  shows "offer s' = offer s \<or> offer s = Waiting \<and> (\<exists>e \<in> down s. offer s' = Holding e)"
  using offer_move [OF assms] offer_new [OF assms] offered [OF inv_move [OF assms]] down_move [OF assms]
  by (cases "offer s"; cases "offer s'") auto

lemma idle_offers:
  assumes "inv s" "down s \<noteq> {}" "\<nexists>s'. Comm s' \<in> moves s"
  shows "offer s \<noteq> Waiting"
  using progress assms by blast

lemma reports:
  assumes "inv s" "down s \<noteq> {}" "offer s \<noteq> Finished"
  shows "\<exists>s' e. (\<lambda>s s'. Comm s' \<in> moves s)\<^sup>*\<^sup>* s s' \<and> offer s' = Holding e \<and> e \<in> down s"
  using assms
proof (induction "work s" arbitrary: s rule: less_induct)
  case less
  show ?case
  proof (cases "offer s")
    case Waiting
    then obtain s1 where s1: "Comm s1 \<in> moves s" using progress less.prems by blast
    from less.hyps [OF work_move [OF less.prems(1) s1] inv_move [OF less.prems(1) s1]] less.prems
    obtain s' e where "(\<lambda>s s'. Comm s' \<in> moves s)\<^sup>*\<^sup>* s1 s'" "offer s' = Holding e" "e \<in> down s"
      using down_move [OF less.prems(1) s1] offer_new [OF less.prems(1) s1] Waiting by auto
    then show ?thesis using s1 by (meson converse_rtranclp_into_rtranclp)
  next
    case (Holding e)
    then show ?thesis using offered less.prems by blast
  qed (use less.prems in simp)
qed

end

section \<open>The DNS servers\<close>

definition stopped :: "server_pc \<Rightarrow> err option" where
  "stopped pc = (case pc of Listening \<Rightarrow> None | Returned e \<Rightarrow> Some e | Closing e \<Rightarrow> Some e | Done e \<Rightarrow> Some e)"

definition dns_down :: "dns_servers \<Rightarrow> err set" where
  "dns_down s = {serve_error p e | p e. p \<in> protos \<and> stopped (srv_pc (dns_srv s p)) = Some e}"

text \<open>
  What is in the error channel of a server and in the hands of its relay follows the
  server's goroutine.
\<close>

definition reported :: "err \<Rightarrow> err list" where
  "reported m = (case m of None \<Rightarrow> [] | Some _ \<Rightarrow> [m])"

definition server_inv :: "string \<Rightarrow> dns_server \<Rightarrow> bool" where
  "server_inv p d \<longleftrightarrow> ch_cap (srv_errCh d) = 1 \<and>
     (case srv_pc d of
        Closing e \<Rightarrow> \<not> ch_closed (srv_errCh d) \<and>
          (srv_relay d = Waiting \<and> ch_buf (srv_errCh d) = reported (serve_error p e) \<or>
           serve_error p e \<noteq> None \<and> srv_relay d \<in> {Holding (serve_error p e), Finished} \<and> ch_buf (srv_errCh d) = [])
      | Done e \<Rightarrow> ch_closed (srv_errCh d) \<and>
          (srv_relay d = Waiting \<and> ch_buf (srv_errCh d) = reported (serve_error p e) \<or>
           srv_relay d \<in> {Holding (serve_error p e), Finished} \<and> ch_buf (srv_errCh d) = [])
      | _ \<Rightarrow> \<not> ch_closed (srv_errCh d) \<and> srv_relay d = Waiting \<and> ch_buf (srv_errCh d) = [])"

definition relayed :: "dns_server \<Rightarrow> nat" where
  "relayed d = (if srv_relay d = Finished then 1 else 0)"

definition dns_inv :: "dns_servers \<Rightarrow> bool" where
  "dns_inv s \<longleftrightarrow> (\<forall>p \<in> protos. server_inv p (dns_srv s p)) \<and>
     ch_cap (dns_errCh s) = 2 \<and> \<not> ch_closed (dns_errCh s) \<and>
     length (ch_buf (dns_errCh s)) + (if dns_new s = Waiting then 0 else 1) = (\<Sum>p \<in> protos. relayed (dns_srv s p)) \<and>
     set (ch_buf (dns_errCh s)) \<subseteq> dns_down s \<and> (\<forall>v. dns_new s = Holding v \<longrightarrow> v \<in> dns_down s)"

definition pc_work :: "server_pc \<Rightarrow> nat" where
  "pc_work pc = (case pc of Returned _ \<Rightarrow> 2 | Closing _ \<Rightarrow> 1 | _ \<Rightarrow> 0)"

definition relay_work :: "relay_pc \<Rightarrow> nat" where
  "relay_work r = (case r of Waiting \<Rightarrow> 2 | Holding _ \<Rightarrow> 1 | Finished \<Rightarrow> 0)"

definition dns_work :: "dns_servers \<Rightarrow> nat" where
  "dns_work s = (\<Sum>p \<in> protos. pc_work (srv_pc (dns_srv s p)) + relay_work (srv_relay (dns_srv s p))) + relay_work (dns_new s)"

lemma map_comm_eq [simp]:
  "map_comm f x = Comm y \<longleftrightarrow> (\<exists>z. x = Comm z \<and> y = f z)" "Comm y = map_comm f x \<longleftrightarrow> (\<exists>z. x = Comm z \<and> y = f z)"
  "map_comm f x = Panics \<longleftrightarrow> x = Panics" "Panics = map_comm f x \<longleftrightarrow> x = Panics"
  by (cases x; auto)+

lemmas chan_simps = chan_send_def chan_recv_def chan_close_def

text \<open>What one move of a server's goroutine does.\<close>

lemma serve_error_simps [simp]:
  "serve_error p None = None" "serve_error p e = None \<longleftrightarrow> e = None" "None = serve_error p e \<longleftrightarrow> e = None"
  "Some x = serve_error p e \<longleftrightarrow> serve_error p e = Some x" "\<exists>x. serve_error p (Some y) = Some x"
  by (cases e; auto simp: serve_error_def)+

lemma serve_error_Some: "serve_error p e = Some x \<Longrightarrow> \<exists>y. e = Some y"
  by (auto simp: serve_error_def)

lemma Serve_go_step:
  assumes "server_inv p d" "Serve_go p d = Comm d'"
  shows "server_inv p d'" "stopped (srv_pc d') = stopped (srv_pc d)" "srv_relay d' = srv_relay d"
    "pc_work (srv_pc d') < pc_work (srv_pc d)"
  using assms
  by (auto simp: server_inv_def Serve_go_def stopped_def pc_work_def reported_def chan_simps split: server_pc.splits option.splits if_splits)

lemma Serve_go_safe: "server_inv p d \<Longrightarrow> Serve_go p d \<noteq> Panics"
  by (auto simp: server_inv_def Serve_go_def chan_simps split: server_pc.splits option.splits)

lemma Serve_go_moves:
  assumes "server_inv p d" "stopped (srv_pc d) = Some e" "srv_pc d \<noteq> Done e"
  obtains d' where "Serve_go p d = Comm d'"
  using assms
  by (cases "srv_pc d"; cases "serve_error p e") (auto simp: server_inv_def Serve_go_def stopped_def chan_simps)

text \<open>What one move of a relay does.\<close>

lemma relay_recv_step:
  assumes "server_inv p d" "srv_relay d = Waiting" "chan_recv None (srv_errCh d) = Comm (v, c)"
  shows "server_inv p (d\<lparr>srv_errCh := c, srv_relay := Holding v\<rparr>)"
  using assms by (auto simp: server_inv_def chan_simps reported_def split: server_pc.splits option.splits list.splits if_splits dest: serve_error_Some)

lemma relay_send_step:
  assumes "server_inv p d" "srv_relay d = Holding v"
  shows "server_inv p (d\<lparr>srv_relay := Finished\<rparr>)" "\<exists>e. stopped (srv_pc d) = Some e \<and> v = serve_error p e"
  using assms by (auto simp: server_inv_def stopped_def split: server_pc.splits)

lemma relay_recv_Done:
  assumes "server_inv p d" "srv_pc d = Done e" "srv_relay d = Waiting"
  obtains v c where "chan_recv None (srv_errCh d) = Comm (v, c)"
  using assms by (auto simp: server_inv_def chan_simps reported_def split: list.splits option.splits)

text \<open>
  A move of the DNS group: a server's goroutine, the relay of a server taking its report or
  passing it on, or the goroutine of \<open>New\<close> taking the first report.
\<close>

lemma dns_moves_cases:
  assumes "Comm s' \<in> dns_moves s"
  obtains (serve) p d where "p \<in> protos" "Serve_go p (dns_srv s p) = Comm d" "s' = s\<lparr>dns_srv := (dns_srv s)(p := d)\<rparr>"
  | (take) p v c where "p \<in> protos" "srv_relay (dns_srv s p) = Waiting" "chan_recv None (srv_errCh (dns_srv s p)) = Comm (v, c)"
      "s' = s\<lparr>dns_srv := (dns_srv s)(p := (dns_srv s p)\<lparr>srv_errCh := c, srv_relay := Holding v\<rparr>)\<rparr>"
  | (pass) p v where "p \<in> protos" "srv_relay (dns_srv s p) = Holding v" "\<not> ch_closed (dns_errCh s)"
      "s' = s\<lparr>dns_errCh := (dns_errCh s)\<lparr>ch_buf := ch_buf (dns_errCh s) @ [v]\<rparr>,
              dns_srv := (dns_srv s)(p := (dns_srv s p)\<lparr>srv_relay := Finished\<rparr>)\<rparr>"
  | (new) v c where "dns_new s = Waiting" "chan_recv None (dns_errCh s) = Comm (v, c)" "s' = s\<lparr>dns_errCh := c, dns_new := Holding v\<rparr>"
  using assms unfolding dns_moves_def
  by (auto simp: relay_go_def New_dns_go_def Let_def chan_send_def split: relay_pc.splits if_splits)

lemma protos_sum:
  assumes "p \<in> protos"
  shows "(\<Sum>x \<in> protos. (f :: string \<Rightarrow> nat) x) = f p + (\<Sum>x \<in> protos - {p}. f x)"
  using assms by (simp add: sum.remove protos_def)

lemma sum_upd:
  assumes "p \<in> protos"
  shows "(\<Sum>x \<in> protos. (f :: dns_server \<Rightarrow> nat) ((g(p := d)) x)) + f (g p) = (\<Sum>x \<in> protos. f (g x)) + f d"
  unfolding protos_sum [OF assms] by simp

lemma dns_down_cong:
  "(\<And>p. stopped (srv_pc (dns_srv s' p)) = stopped (srv_pc (dns_srv s p))) \<Longrightarrow> dns_down s' = dns_down s"
  by (simp add: dns_down_def)

lemma dns_down_upd:
  assumes "stopped (srv_pc d) = stopped (srv_pc (dns_srv s p))"
  shows "dns_down (s\<lparr>dns_srv := (dns_srv s)(p := d)\<rparr>) = dns_down s"
  using assms by (intro dns_down_cong) simp

lemma dns_down_frame [simp]: "dns_down (s\<lparr>dns_errCh := c\<rparr>) = dns_down s" "dns_down (s\<lparr>dns_new := r\<rparr>) = dns_down s"
  by (simp_all add: dns_down_def)

lemma dns_inv_upd:
  assumes "dns_inv s" "p \<in> protos" "server_inv p d" "stopped (srv_pc d) = stopped (srv_pc (dns_srv s p))"
    and "relayed d = relayed (dns_srv s p)"
  shows "dns_inv (s\<lparr>dns_srv := (dns_srv s)(p := d)\<rparr>)"
  using assms(1,3) sum_upd [OF assms(2), of relayed "dns_srv s" d] assms(5)
  by (auto simp: dns_inv_def dns_down_upd [OF assms(4)])

lemma dns_work_upd:
  assumes "p \<in> protos"
    and "pc_work (srv_pc d) + relay_work (srv_relay d) < pc_work (srv_pc (dns_srv s p)) + relay_work (srv_relay (dns_srv s p))"
  shows "dns_work (s\<lparr>dns_srv := (dns_srv s)(p := d)\<rparr>) < dns_work s"
  using sum_upd [OF assms(1), of "\<lambda>d. pc_work (srv_pc d) + relay_work (srv_relay d)" "dns_srv s" d] assms(2)
  by (simp add: dns_work_def)

lemma dns_work_frame [simp]: "dns_work (s\<lparr>dns_errCh := c\<rparr>) = dns_work s"
  by (simp add: dns_work_def)

lemma server_inv_at: "dns_inv s \<Longrightarrow> p \<in> protos \<Longrightarrow> server_inv p (dns_srv s p)"
  by (simp add: dns_inv_def)

lemma dns_pass_inv:
  assumes "dns_inv s" "p \<in> protos" "srv_relay (dns_srv s p) = Holding v"
  shows "dns_inv (s\<lparr>dns_errCh := (dns_errCh s)\<lparr>ch_buf := ch_buf (dns_errCh s) @ [v]\<rparr>,
    dns_srv := (dns_srv s)(p := (dns_srv s p)\<lparr>srv_relay := Finished\<rparr>)\<rparr>)" (is "dns_inv ?s'")
proof -
  note step = relay_send_step [OF server_inv_at [OF assms(1,2)] assms(3)]
  have down: "dns_down ?s' = dns_down s" by (rule dns_down_cong) simp
  have "v \<in> dns_down s" using step(2) assms(2) by (auto simp: dns_down_def)
  moreover have "(\<Sum>x\<in>protos. relayed (dns_srv ?s' x)) = Suc (\<Sum>x\<in>protos. relayed (dns_srv s x))"
    using sum_upd [OF assms(2), of relayed "dns_srv s" "(dns_srv s p)\<lparr>srv_relay := Finished\<rparr>"] assms(3) by (simp add: relayed_def)
  ultimately show ?thesis using assms(1) step(1) unfolding dns_inv_def down by auto
qed

lemma dns_new_inv:
  assumes "dns_inv s" "dns_new s = Waiting" "chan_recv None (dns_errCh s) = Comm (v, c)"
  shows "dns_inv (s\<lparr>dns_errCh := c, dns_new := Holding v\<rparr>)"
  using assms by (auto simp: dns_inv_def chan_recv_def split: list.splits)

lemma dns_move:
  assumes "dns_inv s" "Comm s' \<in> dns_moves s"
  shows "dns_inv s' \<and> dns_down s' = dns_down s \<and> dns_work s' < dns_work s \<and>
    (dns_new s' = dns_new s \<or> dns_new s = Waiting \<and> (\<exists>v. dns_new s' = Holding v))"
  using assms(2)
proof (cases rule: dns_moves_cases)
  case (serve p d)
  note step = Serve_go_step [OF server_inv_at [OF assms(1) serve(1)] serve(2)]
  then show ?thesis
    using dns_inv_upd [OF assms(1) serve(1) step(1,2)] by (simp add: serve(3) dns_down_upd dns_work_upd [OF serve(1)] relayed_def)
next
  case (take p v c)
  let ?d = "(dns_srv s p)\<lparr>srv_errCh := c, srv_relay := Holding v\<rparr>"
  have "dns_inv s'" using dns_inv_upd [OF assms(1) take(1) relay_recv_step [OF server_inv_at [OF assms(1) take(1)] take(2,3)]] take(2)
    by (simp add: take(4) relayed_def)
  moreover have "dns_work s' < dns_work s"
    unfolding take(4) by (rule dns_work_upd [OF take(1)]) (simp add: take(2) relay_work_def)
  moreover have "dns_down s' = dns_down s" unfolding take(4) by (rule dns_down_upd) simp
  ultimately show ?thesis by (simp add: take(4))
next
  case (pass p v)
  have "dns_inv s'" unfolding pass(4) by (rule dns_pass_inv [OF assms(1) pass(1,2)])
  moreover have "dns_work s' < dns_work (s\<lparr>dns_errCh := dns_errCh s'\<rparr>)"
    using dns_work_upd [OF pass(1), where s = "s\<lparr>dns_errCh := dns_errCh s'\<rparr>" and d = "(dns_srv s p)\<lparr>srv_relay := Finished\<rparr>"] pass(2)
    by (simp add: pass(4) relay_work_def)
  moreover have "dns_down s' = dns_down s" by (rule dns_down_cong) (simp add: pass(4))
  ultimately show ?thesis by (simp add: pass(4))
next
  case (new v c)
  have "dns_inv s'" unfolding new(3) by (rule dns_new_inv [OF assms(1) new(1,2)])
  then show ?thesis using new(1) by (simp add: new(3) dns_work_def relay_work_def)
qed

lemma dns_safe: "dns_inv s \<Longrightarrow> Panics \<notin> dns_moves s"
  by (auto simp: dns_moves_def relay_go_def New_dns_go_def Let_def chan_simps dns_inv_def protos_def dest: Serve_go_safe
      split: relay_pc.splits list.splits if_splits)

text \<open>A relay never has to wait for room: each of the two sends once, into a channel of two.\<close>

lemma relay_room:
  assumes "dns_inv s" "p \<in> protos" "srv_relay (dns_srv s p) \<noteq> Finished"
  shows "length (ch_buf (dns_errCh s)) < 2"
proof -
  have "(\<Sum>x \<in> protos - {p}. relayed (dns_srv s x)) \<le> of_nat (card (protos - {p})) * 1"
    by (rule sum_bounded_above) (simp add: relayed_def)
  moreover have "card (protos - {p}) = 1" using assms(2) by (auto simp: protos_def)
  ultimately have "(\<Sum>x \<in> protos. relayed (dns_srv s x)) \<le> 1"
    unfolding protos_sum [OF assms(2)] using assms(3) by (simp add: relayed_def)
  then show ?thesis using assms(1) by (simp add: dns_inv_def split: if_splits)
qed

lemma dns_moves_intro:
  "p \<in> protos \<Longrightarrow> Serve_go p (dns_srv s p) = Comm d \<Longrightarrow> Comm (s\<lparr>dns_srv := (dns_srv s)(p := d)\<rparr>) \<in> dns_moves s"
  "p \<in> protos \<Longrightarrow> relay_go p s = Comm s' \<Longrightarrow> Comm s' \<in> dns_moves s"
  "New_dns_go s = Comm s' \<Longrightarrow> Comm s' \<in> dns_moves s"
  unfolding dns_moves_def by (auto simp only: Un_iff image_iff singleton_iff comm.map intro!: bexI [of _ p])

lemma dns_progress:
  assumes "dns_inv s" "dns_down s \<noteq> {}" "dns_new s = Waiting"
  shows "\<exists>s'. Comm s' \<in> dns_moves s"
proof -
  obtain p e where p: "p \<in> protos" "stopped (srv_pc (dns_srv s p)) = Some e" using assms(2) by (auto simp: dns_down_def)
  note inv = server_inv_at [OF assms(1) p(1)]
  show ?thesis
  proof (cases "srv_pc (dns_srv s p) = Done e")
    case closed: True
    show ?thesis
    proof (cases "srv_relay (dns_srv s p)")
      case Waiting
      then obtain v c where "chan_recv None (srv_errCh (dns_srv s p)) = Comm (v, c)" by (rule relay_recv_Done [OF inv closed])
      then have "\<exists>s'. relay_go p s = Comm s'" using Waiting by (auto simp: relay_go_def Let_def)
      then show ?thesis using dns_moves_intro(2) [OF p(1)] by blast
    next
      case (Holding v)
      then have "\<exists>s'. relay_go p s = Comm s'" using relay_room [OF assms(1) p(1)] assms(1)
        by (simp add: relay_go_def Let_def chan_simps dns_inv_def)
      then show ?thesis using dns_moves_intro(2) [OF p(1)] by blast
    next
      case Finished
      then have "ch_buf (dns_errCh s) \<noteq> []" using assms(1,3) unfolding dns_inv_def protos_sum [OF p(1)] by (auto simp: relayed_def)
      then have "\<exists>s'. New_dns_go s = Comm s'" using assms(3) by (auto simp: New_dns_go_def chan_simps split: list.splits)
      then show ?thesis using dns_moves_intro(3) by blast
    qed
  next
    case False
    then obtain d where "Serve_go p (dns_srv s p) = Comm d" by (rule Serve_go_moves [OF inv p(2)])
    then show ?thesis using dns_moves_intro(1) [OF p(1)] by blast
  qed
qed

interpretation dns: error_source dns_moves dns_inv dns_down dns_new dns_work
proof (rule error_source.intro)
  fix s s' e assume inv: "dns_inv s"
  show "Panics \<notin> dns_moves s" by (rule dns_safe [OF inv])
  show "e \<in> dns_down s" if "dns_new s = Holding e" using inv that by (simp add: dns_inv_def)
  show "\<exists>s'. Comm s' \<in> dns_moves s" if "dns_down s \<noteq> {}" "dns_new s = Waiting" by (rule dns_progress [OF inv that])
  assume "Comm s' \<in> dns_moves s"
  note move = dns_move [OF inv this]
  show "dns_inv s'" "dns_down s' = dns_down s" "dns_work s' < dns_work s" using move by simp_all
  show "dns_new s' = dns_new s" if "dns_new s \<noteq> Waiting" using move that by blast
  show "dns_new s' \<noteq> Finished \<or> dns_new s = Finished" using move by auto
qed

section \<open>The HTTP server\<close>

definition http_down :: "http_server \<Rightarrow> err set" where
  "http_down h = (case stopped (http_pc h) of None \<Rightarrow> {} | Some e \<Rightarrow> {http_error e})"

definition http_inv :: "http_server \<Rightarrow> bool" where
  "http_inv h \<longleftrightarrow> ch_cap (http_errCh h) = 1 \<and> \<not> ch_closed (http_errCh h) \<and>
     (case http_pc h of
        Done e \<Rightarrow> http_new h = Waiting \<and> ch_buf (http_errCh h) = [http_error e] \<or>
          http_new h \<in> {Holding (http_error e), Finished} \<and> ch_buf (http_errCh h) = []
      | Closing e \<Rightarrow> False
      | _ \<Rightarrow> http_new h = Waiting \<and> ch_buf (http_errCh h) = [])"

definition http_work :: "http_server \<Rightarrow> nat" where
  "http_work h = pc_work (http_pc h) + relay_work (http_new h)"

interpretation http: error_source http_moves http_inv http_down http_new http_work
proof (rule error_source.intro)
  fix h h' e assume inv: "http_inv h"
  note defs = http_moves_def LaunchHTTP_go_def New_http_go_def http_inv_def http_down_def http_work_def stopped_def chan_simps
    pc_work_def relay_work_def
  show "Panics \<notin> http_moves h" using inv by (auto simp: defs split: server_pc.splits if_splits list.splits)
  show "e \<in> http_down h" if "http_new h = Holding e" using inv that by (auto simp: defs split: server_pc.splits)
  show "\<exists>h'. Comm h' \<in> http_moves h" if "http_down h \<noteq> {}" "http_new h = Waiting"
    using inv that by (auto simp: defs split: server_pc.splits list.splits)
  assume move: "Comm h' \<in> http_moves h"
  show "http_inv h'" "http_down h' = http_down h" "http_work h' < http_work h" "http_new h' \<noteq> Finished \<or> http_new h = Finished"
    using inv move by (auto simp: defs split: server_pc.splits if_splits list.splits)
  show "http_new h' = http_new h" if "http_new h \<noteq> Waiting"
    using inv move that by (auto simp: defs split: server_pc.splits if_splits list.splits)
qed

section \<open>The servers beside the event loop\<close>

type_synonym ('g, 'e) system = "('g, 'e) main_state \<times> dns_servers list \<times> http_server list"

text \<open>
  Every builtin resolver launches the servers its configuration asks for; they take the place of
  the reporters that the loop alone counts.
\<close>

definition sys_start :: "('g, 'e) main_state \<Rightarrow> ('g, 'e) system" where
  "sys_start s = (s\<lparr>main_reporters := 0\<rparr>, replicate (launches BC_DNSOn (main_rs s)) LaunchDNS_start,
     replicate (launches BC_HTTPOn (main_rs s)) LaunchHTTP_start)"

text \<open>A move of a goroutine of some group of servers.\<close>

inductive server_step :: "dns_servers list \<times> http_server list \<Rightarrow> dns_servers list \<times> http_server list \<Rightarrow> bool" where
  dns: "i < length ds \<Longrightarrow> Comm d' \<in> dns_moves (ds ! i) \<Longrightarrow> server_step (ds, hs) (ds[i := d'], hs)"
| http: "i < length hs \<Longrightarrow> Comm h' \<in> http_moves (hs ! i) \<Longrightarrow> server_step (ds, hs) (ds, hs[i := h'])"

text \<open>
  A step of the loop (whose own count of senders is of those that are not servers), the return
  of a server, a move of a server's goroutines, or the receipt of a server's error, which is fatal.
\<close>

inductive sys_step :: "('g, 'e) system \<Rightarrow> ('g, 'e) system \<Rightarrow> bool" where
  loop: "main_step s s' \<Longrightarrow> sys_step (s, ds, hs) (s', ds, hs)"
| dns_returns: "main_phase s \<noteq> Exited \<Longrightarrow> i < length ds \<Longrightarrow> p \<in> protos \<Longrightarrow> srv_pc (dns_srv (ds ! i) p) = Listening \<Longrightarrow>
    sys_step (s, ds, hs) (s, ds[i := (ds ! i)\<lparr>dns_srv := (dns_srv (ds ! i))(p := (dns_srv (ds ! i) p)\<lparr>srv_pc := Returned e\<rparr>)\<rparr>], hs)"
| http_returns: "main_phase s \<noteq> Exited \<Longrightarrow> i < length hs \<Longrightarrow> http_pc (hs ! i) = Listening \<Longrightarrow>
    sys_step (s, ds, hs) (s, ds, hs[i := (hs ! i)\<lparr>http_pc := Returned e\<rparr>])"
| moves: "main_phase s \<noteq> Exited \<Longrightarrow> server_step (ds, hs) (ds', hs') \<Longrightarrow> sys_step (s, ds, hs) (s, ds', hs')"
| dns_fatal: "receiving Loop s \<Longrightarrow> i < length ds \<Longrightarrow> dns_new (ds ! i) = Holding e \<Longrightarrow>
    sys_step (s, ds, hs) (s\<lparr>main_phase := Exited\<rparr>, ds[i := (ds ! i)\<lparr>dns_new := Finished\<rparr>], hs)"
| http_fatal: "receiving Loop s \<Longrightarrow> i < length hs \<Longrightarrow> http_new (hs ! i) = Holding e \<Longrightarrow>
    sys_step (s, ds, hs) (s\<lparr>main_phase := Exited\<rparr>, ds, hs[i := (hs ! i)\<lparr>http_new := Finished\<rparr>])"

section \<open>What the servers promise\<close>

text \<open>
  The servers without their channels and goroutines: a group of servers is the errors its servers
  have stopped with and the state of its report to the loop. A group in which a server has stopped
  may report one of its errors, once; the report is fatal for a loop that is at its \<open>select\<close>.
\<close>

record group =
  grp_down :: "err set"
  grp_offer :: relay_pc

inductive spec_step :: "('g, 'e) main_state \<times> group list \<Rightarrow> ('g, 'e) main_state \<times> group list \<Rightarrow> bool" where
  loop: "main_step s s' \<Longrightarrow> spec_step (s, gs) (s', gs)"
| stops: "main_phase s \<noteq> Exited \<Longrightarrow> i < length gs \<Longrightarrow>
    spec_step (s, gs) (s, gs[i := (gs ! i)\<lparr>grp_down := insert e (grp_down (gs ! i))\<rparr>])"
| reports: "main_phase s \<noteq> Exited \<Longrightarrow> i < length gs \<Longrightarrow> grp_offer (gs ! i) = Waiting \<Longrightarrow> e \<in> grp_down (gs ! i) \<Longrightarrow>
    spec_step (s, gs) (s, gs[i := (gs ! i)\<lparr>grp_offer := Holding e\<rparr>])"
| fatal: "receiving Loop s \<Longrightarrow> i < length gs \<Longrightarrow> grp_offer (gs ! i) = Holding e \<Longrightarrow>
    spec_step (s, gs) (s\<lparr>main_phase := Exited\<rparr>, gs[i := (gs ! i)\<lparr>grp_offer := Finished\<rparr>])"

definition dns_group :: "dns_servers \<Rightarrow> group" where
  "dns_group d = \<lparr>grp_down = dns_down d, grp_offer = dns_new d\<rparr>"

definition http_group :: "http_server \<Rightarrow> group" where
  "http_group h = \<lparr>grp_down = http_down h, grp_offer = http_new h\<rparr>"

definition groups :: "dns_servers list \<times> http_server list \<Rightarrow> group list" where
  "groups = (\<lambda>(ds, hs). map dns_group ds @ map http_group hs)"

definition abs_sys :: "('g, 'e) system \<Rightarrow> ('g, 'e) main_state \<times> group list" where
  "abs_sys = (\<lambda>(s, ds, hs). (s, groups (ds, hs)))"

text \<open>
  The loop's view of the system: how many goroutines of the servers have not sent yet, and how
  many wait to send to it.
\<close>

definition idles :: "relay_pc \<Rightarrow> nat" where
  "idles r = (case r of Waiting \<Rightarrow> 1 | _ \<Rightarrow> 0)"

definition beside :: "nat \<Rightarrow> nat \<Rightarrow> ('g, 'e) main_state \<Rightarrow> ('g, 'e) main_state" where
  "beside m n s = s\<lparr>main_reporters := main_reporters s + m, main_senders := main_senders s + n\<rparr>"

definition loop_view :: "('g, 'e) main_state \<times> group list \<Rightarrow> ('g, 'e) main_state" where
  "loop_view = (\<lambda>(s, gs). beside (sum_list (map (\<lambda>g. idles (grp_offer g)) gs)) (sum_list (map (\<lambda>g. holds (grp_offer g)) gs)) s)"

definition main_view :: "('g, 'e) system \<Rightarrow> ('g, 'e) main_state" where
  "main_view x = loop_view (abs_sys x)"

definition servers_work :: "dns_servers list \<times> http_server list \<Rightarrow> nat" where
  "servers_work = (\<lambda>(ds, hs). sum_list (map dns_work ds) + sum_list (map http_work hs))"

section \<open>The loop beside other goroutines\<close>

lemma beside_simps [simp]:
  "main_phase (beside m n s) = main_phase s" "main_rs (beside m n s) = main_rs s" "main_config (beside m n s) = main_config s"
  "main_timer (beside m n s) = main_timer s" "main_reporters (beside m n s) = main_reporters s + m"
  "main_senders (beside m n s) = main_senders s + n"
  by (simp_all add: beside_def)

lemma reloadResolvers_beside: "reloadResolvers re (beside m n s) = beside m n (reloadResolvers re s)"
  by (simp add: reloadResolvers_def beside_def split: option.splits prod.splits)

lemma masters_changed_beside: "masters_changed re ms (beside m n s) = beside m n (masters_changed re ms s)"
proof -
  let ?upd = "\<lambda>s. s\<lparr>main_timer := no_leader ms, main_config := (main_config s)\<lparr>Config_Masters := ms\<rparr>\<rparr>"
  have "?upd (beside m n s) = beside m n (?upd s)" by (simp add: beside_def)
  then show ?thesis by (simp only: masters_changed_def reloadResolvers_beside)
qed

lemma main_step_beside:
  assumes "main_step s s'"
  shows "main_step (beside m n s) (beside m n s')"
  using assms
proof cases
  case (tick re)
  then show ?thesis using main_step.tick [of "beside m n s" re] by (simp add: reloadResolvers_beside)
next
  case (changed re ms)
  then show ?thesis using main_step.changed [of "beside m n s" re ms] by (simp add: masters_changed_beside)
next
  case timeout
  then show ?thesis using main_step.timeout [of "beside m n s"] by (cases s) (simp add: beside_def ac_simps)
next
  case failure
  then show ?thesis using main_step.failure [of "beside m n s"] by (simp add: beside_def)
next
  case (fatal g h)
  then have "sending g (beside m n s)" "receiving h (beside m n s)" by (cases g; cases h; simp)+
  from main_step.fatal [OF this] fatal show ?thesis by (cases g; cases s) (simp_all add: beside_def)
qed

lemma sum_list_pos: "x \<in> set xs \<Longrightarrow> f x = (1::nat) \<Longrightarrow> 0 < sum_list (map f xs)"
  by (induction xs) auto

lemma sum_list_upd:
  "i < length xs \<Longrightarrow> sum_list (map (f :: 'a \<Rightarrow> nat) (xs[i := x])) + f (xs ! i) = sum_list (map f xs) + f x"
proof (induction xs arbitrary: i)
  case (Cons a xs)
  then show ?case using Cons.IH [of "i - 1"] by (cases i) auto
qed simp

text \<open>A report is a failure for the loop, and its receipt is fatal.\<close>

lemma spec_step_view:
  assumes "spec_step x y"
  shows "main_step\<^sup>=\<^sup>= (loop_view x) (loop_view y)"
  using assms
proof (induction rule: spec_step.induct)
  case (loop s s' gs)
  then show ?case using main_step_beside by (auto simp: loop_view_def)
next
  case (stops s i gs e)
  let ?g = "(gs ! i)\<lparr>grp_down := insert e (grp_down (gs ! i))\<rparr>"
  have "map (\<lambda>g. f (grp_offer g)) (gs[i := ?g]) = map (\<lambda>g. f (grp_offer g)) gs" for f :: "relay_pc \<Rightarrow> nat"
    using stops.hyps(2) by (intro nth_equalityI) (auto simp: nth_list_update)
  then show ?case by (simp add: loop_view_def)
next
  case (reports s i gs e)
  let ?g = "(gs ! i)\<lparr>grp_offer := Holding e\<rparr>"
  note upd = sum_list_upd [OF reports.hyps(2), where x = ?g]
  have "main_reporters (loop_view (s, gs)) = main_reporters (loop_view (s, gs[i := ?g])) + 1"
    "main_senders (loop_view (s, gs[i := ?g])) = main_senders (loop_view (s, gs)) + 1"
    using upd [of "\<lambda>g. idles (grp_offer g)"] upd [of "\<lambda>g. holds (grp_offer g)"] reports.hyps(3)
    by (simp_all add: loop_view_def idles_def holds_def)
  then have "loop_view (s, gs[i := ?g]) = (loop_view (s, gs))\<lparr>main_reporters := main_reporters (loop_view (s, gs)) - 1,
      main_senders := main_senders (loop_view (s, gs)) + 1\<rparr>" "main_reporters (loop_view (s, gs)) > 0"
    by (simp_all add: loop_view_def beside_def)
  then show ?case using main_step.failure [of "loop_view (s, gs)"] reports.hyps(1) by (simp add: loop_view_def)
next
  case (fatal s i gs e)
  let ?g = "(gs ! i)\<lparr>grp_offer := Finished\<rparr>" and ?s = "s\<lparr>main_phase := Exited\<rparr>"
  note upd = sum_list_upd [OF fatal.hyps(2), where x = ?g]
  have "main_reporters (loop_view (?s, gs[i := ?g])) = main_reporters (loop_view (s, gs))"
    "main_senders (loop_view (s, gs)) = main_senders (loop_view (?s, gs[i := ?g])) + 1"
    using upd [of "\<lambda>g. idles (grp_offer g)"] upd [of "\<lambda>g. holds (grp_offer g)"] fatal.hyps(3)
    by (simp_all add: loop_view_def idles_def holds_def)
  then have "loop_view (?s, gs[i := ?g]) = (loop_view (s, gs))\<lparr>main_senders := main_senders (loop_view (s, gs)) - 1, main_phase := Exited\<rparr>"
    "sending Other (loop_view (s, gs))" by (simp_all add: loop_view_def beside_def)
  then show ?case using main_step.fatal [of Other "loop_view (s, gs)" Loop] fatal.hyps(1) by (simp add: loop_view_def)
qed

section \<open>The system implements the specification\<close>

text \<open>What the goroutines promise at every moment; the loop ends with the first error it receives.\<close>

definition sys_inv :: "('g, 'e) system \<Rightarrow> bool" where
  "sys_inv = (\<lambda>(s, ds, hs).
     (\<forall>d \<in> set ds. dns_inv d \<and> (dns_new d = Finished \<longrightarrow> main_phase s = Exited)) \<and>
     (\<forall>h \<in> set hs. http_inv h \<and> (http_new h = Finished \<longrightarrow> main_phase s = Exited)))"

lemma start_inv: "dns_inv LaunchDNS_start" "http_inv LaunchHTTP_start"
  by (simp_all add: dns_inv_def http_inv_def server_inv_def LaunchDNS_start_def LaunchHTTP_start_def Serve_start_def make_chan_def
      relayed_def)

lemma start_new: "dns_new LaunchDNS_start = Waiting" "http_new LaunchHTTP_start = Waiting"
  by (simp_all add: LaunchDNS_start_def LaunchHTTP_start_def)

lemma sys_start_inv: "sys_inv (sys_start s)"
  by (auto simp: sys_inv_def sys_start_def start_inv start_new)

lemma dns_returns_down:
  assumes "p \<in> protos" "srv_pc (dns_srv d p) = Listening"
  shows "dns_down (d\<lparr>dns_srv := (dns_srv d)(p := (dns_srv d p)\<lparr>srv_pc := Returned e\<rparr>)\<rparr>) = insert (serve_error p e) (dns_down d)"
    (is "dns_down ?d' = _")
proof (intro set_eqI)
  fix v
  have other: "stopped (srv_pc (dns_srv d q)) = Some e' \<Longrightarrow> q \<noteq> p" for q e' using assms(2) by (auto simp: stopped_def)
  have "v \<in> dns_down ?d' \<longleftrightarrow> (\<exists>q \<in> protos. \<exists>e'. v = serve_error q e' \<and> stopped (srv_pc (dns_srv ?d' q)) = Some e')"
    by (auto simp: dns_down_def)
  also have "\<dots> \<longleftrightarrow> v = serve_error p e \<or> (\<exists>q \<in> protos. \<exists>e'. v = serve_error q e' \<and> stopped (srv_pc (dns_srv d q)) = Some e')"
    using assms(1) other by (auto simp: stopped_def)
  finally show "v \<in> dns_down ?d' \<longleftrightarrow> v \<in> insert (serve_error p e) (dns_down d)" by (auto simp: dns_down_def)
qed

lemma dns_returns_inv:
  assumes "dns_inv d" "p \<in> protos" "srv_pc (dns_srv d p) = Listening"
  shows "dns_inv (d\<lparr>dns_srv := (dns_srv d)(p := (dns_srv d p)\<lparr>srv_pc := Returned e\<rparr>)\<rparr>)" (is "dns_inv ?d'")
proof -
  have "dns_down d \<subseteq> dns_down ?d'" unfolding dns_returns_down [OF assms(2,3)] by blast
  moreover have "(\<Sum>x\<in>protos. relayed (dns_srv ?d' x)) = (\<Sum>x\<in>protos. relayed (dns_srv d x))"
    by (rule sum.cong) (simp_all add: relayed_def)
  ultimately show ?thesis using assms by (auto simp: dns_inv_def server_inv_def)
qed

lemma main_step_exited: "main_step s s' \<Longrightarrow> main_phase s \<noteq> Exited"
  by (cases rule: main_step.cases) (auto elim!: receiving.elims)

lemma sys_inv_at:
  assumes "sys_inv (s, ds, hs)"
  shows "i < length ds \<Longrightarrow> dns_inv (ds ! i)" "i < length ds \<Longrightarrow> main_phase s \<noteq> Exited \<Longrightarrow> dns_new (ds ! i) \<noteq> Finished"
    and "i < length hs \<Longrightarrow> http_inv (hs ! i)" "i < length hs \<Longrightarrow> main_phase s \<noteq> Exited \<Longrightarrow> http_new (hs ! i) \<noteq> Finished"
  using assms by (auto simp: sys_inv_def)

lemma sys_inv_upd:
  assumes "sys_inv (s, ds, hs)"
  shows "dns_inv d \<Longrightarrow> (dns_new d = Finished \<Longrightarrow> main_phase s = Exited) \<Longrightarrow> sys_inv (s, ds[i := d], hs)"
    and "http_inv h \<Longrightarrow> (http_new h = Finished \<Longrightarrow> main_phase s = Exited) \<Longrightarrow> sys_inv (s, ds, hs[i := h])"
    and "sys_inv (s\<lparr>main_phase := Exited\<rparr>, ds, hs)"
  using assms set_update_subset_insert [of ds i d] set_update_subset_insert [of hs i h] unfolding sys_inv_def by auto

lemma sys_step_inv:
  assumes "sys_step x y" "sys_inv x"
  shows "sys_inv y"
  using assms
proof (induction rule: sys_step.induct)
  case (loop s s' ds hs)
  then show ?case using main_step_exited [of s s'] by (auto simp: sys_inv_def)
next
  case (dns_returns s i ds p hs e)
  note at = sys_inv_at [OF dns_returns.prems, of i]
  show ?case by (rule sys_inv_upd(1) [OF dns_returns.prems])
      (use dns_returns dns_returns_inv [OF at(1)] at(2) in auto)
next
  case (http_returns s i hs ds e)
  note at = sys_inv_at [OF http_returns.prems, of i]
  show ?case by (rule sys_inv_upd(2) [OF http_returns.prems])
      (use http_returns at(3,4) in \<open>auto simp: http_inv_def\<close>)
next
  case (moves s ds hs ds' hs')
  from moves.hyps(2) show ?case
  proof cases
    case (dns i d')
    note at = sys_inv_at [OF moves.prems, of i]
    show ?thesis unfolding dns by (rule sys_inv_upd(1) [OF moves.prems])
        (use moves.hyps(1) dns(3,4) at(1,2) dns.inv_move dns.offer_new in blast)+
  next
    case (http i h')
    note at = sys_inv_at [OF moves.prems, of i]
    show ?thesis unfolding http by (rule sys_inv_upd(2) [OF moves.prems])
        (use moves.hyps(1) http(3,4) at(3,4) http.inv_move http.offer_new in blast)+
  qed
next
  case (dns_fatal s i ds e hs)
  have "dns_inv ((ds ! i)\<lparr>dns_new := Finished\<rparr>)"
    using sys_inv_at(1) [OF dns_fatal.prems dns_fatal.hyps(2)] dns_fatal.hyps(3) by (simp add: dns_inv_def)
  then show ?case by (rule sys_inv_upd(1) [OF sys_inv_upd(3) [OF dns_fatal.prems]]) simp
next
  case (http_fatal s i hs e ds)
  have "http_inv ((hs ! i)\<lparr>http_new := Finished\<rparr>)"
    using sys_inv_at(3) [OF http_fatal.prems http_fatal.hyps(2)] http_fatal.hyps(3) by (auto simp: http_inv_def split: server_pc.splits)
  then show ?case by (rule sys_inv_upd(2) [OF sys_inv_upd(3) [OF http_fatal.prems]]) simp
qed

lemma sys_run_inv: "sys_step\<^sup>*\<^sup>* (sys_start s0) x \<Longrightarrow> sys_inv x"
  by (induction rule: rtranclp_induct) (auto simp: sys_start_inv dest: sys_step_inv)

text \<open>The groups of a system after a step of one of them.\<close>

lemma groups_nth:
  "i < length ds \<Longrightarrow> groups (ds, hs) ! i = dns_group (ds ! i)" "i < length hs \<Longrightarrow> groups (ds, hs) ! (length ds + i) = http_group (hs ! i)"
  "length (groups (ds, hs)) = length ds + length hs"
  by (simp_all add: groups_def nth_append)

lemma groups_upd:
  "i < length ds \<Longrightarrow> groups (ds[i := d], hs) = (groups (ds, hs))[i := dns_group d]"
  "i < length hs \<Longrightarrow> groups (ds, hs[i := h]) = (groups (ds, hs))[length ds + i := http_group h]"
  by (simp_all add: groups_def list_update_append map_update)

text \<open>Where the report of a group changes, it is the report of an error of the group.\<close>

lemma group_step:
  assumes "main_phase s \<noteq> Exited" "i < length gs" "grp_down g = grp_down (gs ! i)"
    and "grp_offer g = grp_offer (gs ! i) \<or> grp_offer (gs ! i) = Waiting \<and> (\<exists>e \<in> grp_down (gs ! i). grp_offer g = Holding e)"
  shows "spec_step\<^sup>=\<^sup>= (s, gs) (s, gs[i := g])"
  using assms(4)
proof
  assume "grp_offer g = grp_offer (gs ! i)"
  then have "g = gs ! i" using assms(3) by simp
  then show ?thesis by simp
next
  assume "grp_offer (gs ! i) = Waiting \<and> (\<exists>e \<in> grp_down (gs ! i). grp_offer g = Holding e)"
  then obtain e where e: "grp_offer (gs ! i) = Waiting" "e \<in> grp_down (gs ! i)" "grp_offer g = Holding e" by blast
  have "g = (gs ! i)\<lparr>grp_offer := Holding e\<rparr>" using assms(3) e(3) by (cases g; cases "gs ! i") simp
  then show ?thesis using spec_step.reports [OF assms(1,2) e(1,2)] by simp
qed

lemma sys_step_spec:
  assumes "sys_step x y" "sys_inv x"
  shows "spec_step\<^sup>=\<^sup>= (abs_sys x) (abs_sys y)"
  using assms
proof (induction rule: sys_step.induct)
  case (loop s s' ds hs)
  then show ?case using spec_step.loop by (auto simp: abs_sys_def)
next
  case (dns_returns s i ds p hs e)
  then show ?case using spec_step.stops [OF dns_returns.hyps(1), of i "groups (ds, hs)" "serve_error p e"]
    by (simp add: abs_sys_def groups_upd groups_nth dns_group_def dns_returns_down)
next
  case (http_returns s i hs ds e)
  then show ?case using spec_step.stops [OF http_returns.hyps(1), of "length ds + i" "groups (ds, hs)" "http_error e"]
    by (simp add: abs_sys_def groups_upd groups_nth http_group_def http_down_def stopped_def)
next
  case (moves s ds hs ds' hs')
  from moves.hyps(2) show ?case
  proof cases
    case (dns i d')
    note inv = sys_inv_at(1) [OF moves.prems dns(3)]
    show ?thesis unfolding dns abs_sys_def case_prod_conv groups_upd(1) [OF dns(3)]
      using moves.hyps(1) dns.offer_change [OF inv dns(4)] dns.down_move [OF inv dns(4)] dns(3)
      by (intro group_step) (simp_all add: groups_nth dns_group_def)
  next
    case (http i h')
    note inv = sys_inv_at(3) [OF moves.prems http(3)]
    show ?thesis unfolding http abs_sys_def case_prod_conv groups_upd(2) [OF http(3)]
      using moves.hyps(1) http.offer_change [OF inv http(4)] http.down_move [OF inv http(4)] http(3)
      by (intro group_step) (simp_all add: groups_nth http_group_def)
  qed
next
  case (dns_fatal s i ds e hs)
  then show ?case using spec_step.fatal [OF dns_fatal.hyps(1), of i "groups (ds, hs)" e]
    by (simp add: abs_sys_def groups_upd groups_nth dns_group_def)
next
  case (http_fatal s i hs e ds)
  then show ?case using spec_step.fatal [OF http_fatal.hyps(1), of "length ds + i" "groups (ds, hs)" e]
    by (simp add: abs_sys_def groups_upd groups_nth http_group_def http_down_def)
qed

text \<open>Runs of the system are runs of the specification, and those are runs of the loop.\<close>

lemma step_map_run:
  assumes "r\<^sup>*\<^sup>* x y" "P x" "\<And>x y. r x y \<Longrightarrow> P x \<Longrightarrow> P y \<and> q\<^sup>=\<^sup>= (f x) (f y)"
  shows "P y \<and> q\<^sup>*\<^sup>* (f x) (f y)"
  using assms(1,2)
proof (induction rule: rtranclp_induct)
  case (step y z)
  then have "P z" "q\<^sup>=\<^sup>= (f y) (f z)" using assms(3) by blast+
  then show ?case using step.IH [OF step.prems] by (auto intro: rtranclp.rtrancl_into_rtrancl)
qed simp

lemma sys_run_spec: "sys_step\<^sup>*\<^sup>* x y \<Longrightarrow> sys_inv x \<Longrightarrow> spec_step\<^sup>*\<^sup>* (abs_sys x) (abs_sys y)"
  using step_map_run [of sys_step x y sys_inv spec_step abs_sys] sys_step_inv sys_step_spec by blast

lemma sys_run_view: "sys_step\<^sup>*\<^sup>* x y \<Longrightarrow> sys_inv x \<Longrightarrow> main_step\<^sup>*\<^sup>* (main_view x) (main_view y)"
  using step_map_run [of spec_step "abs_sys x" "abs_sys y" "\<lambda>_. True" main_step loop_view] spec_step_view sys_run_spec
  unfolding main_view_def by blast

lemma main_view_start:
  assumes "main_reporters s = launches BC_DNSOn (main_rs s) + launches BC_HTTPOn (main_rs s)"
  shows "main_view (sys_start s) = s"
  using assms by (simp add: main_view_def loop_view_def abs_sys_def groups_def sys_start_def beside_def dns_group_def http_group_def
      start_new holds_def idles_def map_replicate_const sum_list_replicate)

lemma main_view_simps [simp]:
  "main_phase (main_view (s, ds, hs)) = main_phase s" "main_rs (main_view (s, ds, hs)) = main_rs s"
  "main_config (main_view (s, ds, hs)) = main_config s"
  by (simp_all add: main_view_def loop_view_def abs_sys_def)

text \<open>The moves of one group, and the moves of the servers as a whole: they come to an end.\<close>

lemma server_run:
  assumes "(\<lambda>d d'. Comm d' \<in> dns_moves d)\<^sup>*\<^sup>* (ds ! i) d'" "i < length ds"
  shows "server_step\<^sup>*\<^sup>* (ds, hs) (ds[i := d'], hs)"
  using assms(1)
proof (induction rule: rtranclp_induct)
  case (step d1 d2)
  have "server_step (ds[i := d1], hs) (ds[i := d1, i := d2], hs)"
    by (rule server_step.dns) (use assms(2) step.hyps(2) in simp_all)
  then show ?case using step.IH by simp
qed simp

lemma server_run_http:
  assumes "(\<lambda>h h'. Comm h' \<in> http_moves h)\<^sup>*\<^sup>* (hs ! i) h'" "i < length hs"
  shows "server_step\<^sup>*\<^sup>* (ds, hs) (ds, hs[i := h'])"
  using assms(1)
proof (induction rule: rtranclp_induct)
  case (step h1 h2)
  have "server_step (ds, hs[i := h1]) (ds, hs[i := h1, i := h2])"
    by (rule server_step.http) (use assms(2) step.hyps(2) in simp_all)
  then show ?case using step.IH by simp
qed simp

lemma server_step_work:
  assumes "server_step (ds, hs) z" "sys_inv (s, ds, hs)"
  shows "servers_work z < servers_work (ds, hs)"
  using assms(1)
proof cases
  case (dns i d')
  show ?thesis using dns.work_move [OF sys_inv_at(1) [OF assms(2) dns(2)] dns(3)] sum_list_upd [OF dns(2), of dns_work d']
    by (simp add: dns(1) servers_work_def)
next
  case (http i h')
  show ?thesis using http.work_move [OF sys_inv_at(3) [OF assms(2) http(2)] http(3)] sum_list_upd [OF http(2), of http_work h']
    by (simp add: http(1) servers_work_def)
qed

text \<open>A group in which a server has stopped reports, by moves of its own goroutines.\<close>

lemma due_report:
  assumes "sys_inv (s, ds, hs)" "i < length (groups (ds, hs))"
    and "grp_offer (groups (ds, hs) ! i) \<noteq> Finished" "grp_down (groups (ds, hs) ! i) \<noteq> {}"
  shows "\<exists>z e. server_step\<^sup>*\<^sup>* (ds, hs) z \<and> e \<in> grp_down (groups (ds, hs) ! i) \<and>
    groups z = (groups (ds, hs))[i := (groups (ds, hs) ! i)\<lparr>grp_offer := Holding e\<rparr>]"
proof (cases "i < length ds")
  case True
  note inv = sys_inv_at(1) [OF assms(1) True]
  have "dns_down (ds ! i) \<noteq> {}" "dns_new (ds ! i) \<noteq> Finished" using assms(3,4) True by (simp_all add: groups_nth dns_group_def)
  from dns.reports [OF inv this] obtain d' e where d': "(\<lambda>d d'. Comm d' \<in> dns_moves d)\<^sup>*\<^sup>* (ds ! i) d'" "dns_new d' = Holding e" "e \<in> dns_down (ds ! i)"
    by blast
  have "dns_down d' = dns_down (ds ! i)" using dns.run_inv [OF d'(1) inv] by simp
  then show ?thesis using server_run [OF d'(1) True, of hs] d'(2,3) True
    by (intro exI [of _ "(ds[i := d'], hs)"] exI [of _ e]) (simp add: groups_upd groups_nth dns_group_def)
next
  case False
  then obtain k where k: "i = length ds + k" "k < length hs" using assms(2) unfolding groups_nth(3) by (metis add_less_cancel_left le_Suc_ex not_less)
  note inv = sys_inv_at(3) [OF assms(1) k(2)]
  have "http_down (hs ! k) \<noteq> {}" "http_new (hs ! k) \<noteq> Finished" using assms(3,4) k by (simp_all add: groups_nth http_group_def)
  from http.reports [OF inv this] obtain h' e where h': "(\<lambda>h h'. Comm h' \<in> http_moves h)\<^sup>*\<^sup>* (hs ! k) h'" "http_new h' = Holding e" "e \<in> http_down (hs ! k)"
    by blast
  have "http_down h' = http_down (hs ! k)" using http.run_inv [OF h'(1) inv] by simp
  then show ?thesis using server_run_http [OF h'(1) k(2), of ds] h'(2,3) k
    by (intro exI [of _ "(ds, hs[k := h'])"] exI [of _ e]) (simp add: groups_upd groups_nth http_group_def)
qed

lemma group_fatal:
  assumes "main_phase s = Running" "i < length (groups (ds, hs))" "grp_offer (groups (ds, hs) ! i) = Holding e"
  shows "\<exists>y. sys_step (s, ds, hs) y \<and> main_phase (fst y) = Exited"
proof (cases "i < length ds")
  case True
  then show ?thesis using sys_step.dns_fatal [of s i ds e hs] assms by (force simp: groups_nth dns_group_def)
next
  case False
  then obtain k where k: "i = length ds + k" "k < length hs" using assms(2) unfolding groups_nth(3) by (metis add_less_cancel_left le_Suc_ex not_less)
  then show ?thesis using sys_step.http_fatal [of s k hs e ds] assms by (force simp: groups_nth http_group_def)
qed

text \<open>A report that was made stays until the loop receives it, and a loop that sends does not receive.\<close>

lemma offer_stays:
  "Comm d' \<in> dns_moves d \<Longrightarrow> dns_new d = Holding e \<Longrightarrow> dns_new d' = Holding e"
  "Comm h' \<in> http_moves h \<Longrightarrow> http_new h = Holding e \<Longrightarrow> http_new h' = Holding e"
  by (auto elim: dns_moves_cases) (auto simp: http_moves_def LaunchHTTP_go_def New_http_go_def split: server_pc.splits if_splits)

lemma groups_offer_upd:
  "i < length ds \<Longrightarrow> (\<And>e. dns_new (ds ! i) = Holding e \<Longrightarrow> dns_new d = Holding e) \<Longrightarrow>
    k < length (groups (ds, hs)) \<Longrightarrow> grp_offer (groups (ds, hs) ! k) = Holding e \<Longrightarrow> grp_offer (groups (ds[i := d], hs) ! k) = Holding e"
  "i < length hs \<Longrightarrow> (\<And>e. http_new (hs ! i) = Holding e \<Longrightarrow> http_new h = Holding e) \<Longrightarrow>
    k < length (groups (ds, hs)) \<Longrightarrow> grp_offer (groups (ds, hs) ! k) = Holding e \<Longrightarrow> grp_offer (groups (ds, hs[i := h]) ! k) = Holding e"
  by (auto simp: groups_upd nth_list_update groups_nth dns_group_def http_group_def)

lemma sending_sys_step:
  assumes "sys_step (s, ds, hs) (s', ds', hs')" "main_phase s = Sending err"
  shows "main_phase s' = Sending err \<and> main_rs s' = main_rs s \<and> main_config s' = main_config s \<and> main_senders s \<le> main_senders s' \<and>
    (\<forall>i e. i < length (groups (ds, hs)) \<and> grp_offer (groups (ds, hs) ! i) = Holding e \<longrightarrow> grp_offer (groups (ds', hs') ! i) = Holding e)"
  using assms(1)
proof cases
  case loop
  then show ?thesis using sending_step [OF _ assms(2)] by simp
next
  case moves
  from moves(3) show ?thesis by cases (use assms(2) moves(1) offer_stays groups_offer_upd in auto)
qed (use assms(2) groups_offer_upd in auto)

lemma sending_sys_run:
  assumes "sys_step\<^sup>*\<^sup>* x y" "main_phase (fst x) = Sending err"
  shows "main_phase (fst y) = Sending err \<and> main_rs (fst y) = main_rs (fst x) \<and> main_config (fst y) = main_config (fst x)"
  using assms
proof (induction rule: rtranclp_induct)
  case (step y z)
  then show ?case using sending_sys_step [of "fst y" "fst (snd y)" "snd (snd y)" "fst z" "fst (snd z)" "snd (snd z)" err] by simp
qed simp

lemma groups_finished:
  assumes "sys_inv (s, ds, hs)" "main_phase s \<noteq> Exited" "g \<in> set (groups (ds, hs))"
  shows "grp_offer g \<noteq> Finished"
  using assms by (auto simp: groups_def sys_inv_def dns_group_def http_group_def)

section \<open>Properties\<close>

text \<open>C17: the servers with their goroutines and channels implement their specification: a server of a
  group stops, and the group then reports one of the errors its servers stopped with, once, to the
  loop. Every run of the system is a run of the specification; whenever a report is due in the
  specification, the goroutines of the servers alone can bring it about, leaving all other groups
  as they are; and their moves come to an end, since each lowers a measure.\<close>

theorem system_refines_groups:
  assumes "sys_step\<^sup>*\<^sup>* (sys_start s0) (s, ds, hs)"
  shows "spec_step\<^sup>*\<^sup>* (abs_sys (sys_start s0)) (s, groups (ds, hs)) \<and>
    (\<forall>i < length (groups (ds, hs)). main_phase s \<noteq> Exited \<and> grp_down (groups (ds, hs) ! i) \<noteq> {} \<longrightarrow>
      (\<exists>z e. server_step\<^sup>*\<^sup>* (ds, hs) z \<and> e \<in> grp_down (groups (ds, hs) ! i) \<and>
        groups z = (groups (ds, hs))[i := (groups (ds, hs) ! i)\<lparr>grp_offer := Holding e\<rparr>])) \<and>
    (\<forall>z. server_step (ds, hs) z \<longrightarrow> servers_work z < servers_work (ds, hs))"
proof (intro conjI allI impI)
  note inv = sys_run_inv [OF assms]
  show "spec_step\<^sup>*\<^sup>* (abs_sys (sys_start s0)) (s, groups (ds, hs))"
    using sys_run_spec [OF assms sys_start_inv] by (simp add: abs_sys_def)
  show "servers_work z < servers_work (ds, hs)" if "server_step (ds, hs) z" for z using server_step_work [OF that inv] .
  fix i assume i: "i < length (groups (ds, hs))" "main_phase s \<noteq> Exited \<and> grp_down (groups (ds, hs) ! i) \<noteq> {}"
  then show "\<exists>z e. server_step\<^sup>*\<^sup>* (ds, hs) z \<and> e \<in> grp_down (groups (ds, hs) ! i) \<and>
      groups z = (groups (ds, hs))[i := (groups (ds, hs) ! i)\<lparr>grp_offer := Holding e\<rparr>]"
    using due_report [OF inv i(1)] groups_finished [OF inv _ nth_mem [OF i(1)]] by blast
qed

definition demo_main_state :: "(nat, nat) main_state" where
  "demo_main_state = \<lparr>main_config = demo_main_config, main_rs = [BuiltinR demo_resolver], main_timer = True, main_reporters = 2,
     main_senders = 0, main_phase = Running\<rparr>"

text \<open>The TCP server finds its port taken.\<close>

definition demo_stopped :: dns_servers where
  "demo_stopped = LaunchDNS_start\<lparr>dns_srv := (dns_srv LaunchDNS_start)(''tcp'' := Serve_start\<lparr>srv_pc := Returned (Some ''in use'')\<rparr>)\<rparr>"

definition demo_served :: "(nat, nat) main_state" where
  "demo_served = demo_main_state\<lparr>main_reporters := 0\<rparr>"

lemma demo_sys_start: "sys_start demo_main_state = (demo_served, [LaunchDNS_start], [LaunchHTTP_start])"
  by (simp add: sys_start_def launches_def demo_main_state_def demo_resolver_def builtin_NewConfig_def demo_served_def)

lemma demo_stops: "sys_step\<^sup>*\<^sup>* (sys_start demo_main_state) (demo_served, [demo_stopped], [LaunchHTTP_start])"
proof -
  have srv: "dns_srv LaunchDNS_start = (\<lambda>_. Serve_start)" "srv_pc Serve_start = Listening"
    by (simp_all add: LaunchDNS_start_def Serve_start_def)
  have "sys_step (demo_served, [LaunchDNS_start], [LaunchHTTP_start]) (demo_served, [demo_stopped], [LaunchHTTP_start])"
    using sys_step.dns_returns [of demo_served 0 "[LaunchDNS_start]" "''tcp''" "[LaunchHTTP_start]" "Some ''in use''"]
    by (simp add: demo_served_def demo_main_state_def protos_def demo_stopped_def srv)
  then show ?thesis unfolding demo_sys_start by (rule r_into_rtranclp)
qed

lemma demo_down: "dns_down demo_stopped = {serve_error ''tcp'' (Some ''in use'')}"
proof -
  have "dns_down LaunchDNS_start = {}" by (simp add: dns_down_def LaunchDNS_start_def Serve_start_def stopped_def)
  moreover have "''tcp'' \<in> protos" "srv_pc (dns_srv LaunchDNS_start ''tcp'') = Listening" "dns_srv LaunchDNS_start ''tcp'' = Serve_start"
    by (simp_all add: protos_def LaunchDNS_start_def Serve_start_def)
  ultimately show ?thesis using dns_returns_down [of "''tcp''" LaunchDNS_start "Some ''in use''"] by (simp add: demo_stopped_def)
qed

theorem system_refines_groups_witness:
  "\<exists>z. server_step\<^sup>*\<^sup>* ([demo_stopped], [LaunchHTTP_start]) z \<and>
     groups z = [\<lparr>grp_down = {serve_error ''tcp'' (Some ''in use'')}, grp_offer = Holding (serve_error ''tcp'' (Some ''in use''))\<rparr>,
       http_group LaunchHTTP_start]"
proof -
  let ?gs = "groups ([demo_stopped], [LaunchHTTP_start])"
  have g: "?gs = [\<lparr>grp_down = {serve_error ''tcp'' (Some ''in use'')}, grp_offer = dns_new demo_stopped\<rparr>, http_group LaunchHTTP_start]"
    by (simp add: groups_def dns_group_def demo_down)
  have "main_phase demo_served \<noteq> Exited" by (simp add: demo_served_def demo_main_state_def)
  then have "\<exists>z e. server_step\<^sup>*\<^sup>* ([demo_stopped], [LaunchHTTP_start]) z \<and> e \<in> grp_down (?gs ! 0) \<and>
      groups z = ?gs[0 := (?gs ! 0)\<lparr>grp_offer := Holding e\<rparr>]"
    using system_refines_groups [OF demo_stops, THEN conjunct2, THEN conjunct1, rule_format, of 0] by (simp add: g)
  then show ?thesis by (auto simp: g)
qed

text \<open>C16: a server that stops ends the program. As long as the loop is at its \<open>select\<close>, no goroutine
  of the servers panics on its channels; once a server has returned (with or without an error) moves
  of the servers' goroutines alone lead to a state in which a group offers an error of one of its
  stopped servers to the loop, and its receipt ends the program; and whatever the order in which
  the goroutines move, when none of them can move any more one waits to send to the loop.\<close>

theorem stopped_server_is_fatal:
  assumes "sys_step\<^sup>*\<^sup>* (sys_start s0) (s, ds, hs)" "main_phase s = Running"
    and "(\<exists>d \<in> set ds. dns_down d \<noteq> {}) \<or> (\<exists>h \<in> set hs. http_down h \<noteq> {})"
  shows "(\<forall>d \<in> set ds. Panics \<notin> dns_moves d) \<and> (\<forall>h \<in> set hs. Panics \<notin> http_moves h) \<and>
    (\<exists>ds' hs' g e. server_step\<^sup>*\<^sup>* (ds, hs) (ds', hs') \<and> g \<in> set (groups (ds', hs')) \<and>
      e \<in> grp_down g \<and> grp_offer g = Holding e \<and> (\<exists>y. sys_step (s, ds', hs') y \<and> main_phase (fst y) = Exited)) \<and>
    ((\<forall>d \<in> set ds. \<forall>d'. Comm d' \<notin> dns_moves d) \<and> (\<forall>h \<in> set hs. \<forall>h'. Comm h' \<notin> http_moves h) \<longrightarrow>
      main_senders (main_view (s, ds, hs)) > 0)"
proof (intro conjI impI)
  note inv = sys_run_inv [OF assms(1)]
  show "\<forall>d \<in> set ds. Panics \<notin> dns_moves d" "\<forall>h \<in> set hs. Panics \<notin> http_moves h"
    using inv dns.no_panic http.no_panic by (auto simp: sys_inv_def)
  have "\<exists>g \<in> set (groups (ds, hs)). grp_down g \<noteq> {}"
    using assms(3) by (simp add: groups_def dns_group_def http_group_def bex_Un)
  then obtain i where i: "i < length (groups (ds, hs))" "grp_down (groups (ds, hs) ! i) \<noteq> {}" by (metis in_set_conv_nth)
  have fin: "grp_offer (groups (ds, hs) ! i) \<noteq> Finished" using groups_finished [OF inv _ nth_mem [OF i(1)]] assms(2) by simp
  from due_report [OF inv i(1) fin i(2)] obtain ds' hs' e where z: "server_step\<^sup>*\<^sup>* (ds, hs) (ds', hs')" "e \<in> grp_down (groups (ds, hs) ! i)"
    "groups (ds', hs') = (groups (ds, hs))[i := (groups (ds, hs) ! i)\<lparr>grp_offer := Holding e\<rparr>]" by (metis surj_pair)
  let ?g = "(groups (ds, hs) ! i)\<lparr>grp_offer := Holding e\<rparr>"
  have g: "groups (ds', hs') ! i = ?g" "i < length (groups (ds', hs'))" using i(1) by (simp_all add: z(3))
  have "\<exists>y. sys_step (s, ds', hs') y \<and> main_phase (fst y) = Exited" by (rule group_fatal [OF assms(2) g(2)]) (simp add: g(1))
  moreover have "?g \<in> set (groups (ds', hs'))" using nth_mem [OF g(2)] by (simp add: g(1))
  ultimately show "\<exists>ds' hs' g e. server_step\<^sup>*\<^sup>* (ds, hs) (ds', hs') \<and> g \<in> set (groups (ds', hs')) \<and>
      e \<in> grp_down g \<and> grp_offer g = Holding e \<and> (\<exists>y. sys_step (s, ds', hs') y \<and> main_phase (fst y) = Exited)"
    using z(1,2) by (intro exI [of _ ds'] exI [of _ hs'] exI [of _ ?g] exI [of _ e]) simp
  assume idle: "(\<forall>d \<in> set ds. \<forall>d'. Comm d' \<notin> dns_moves d) \<and> (\<forall>h \<in> set hs. \<forall>h'. Comm h' \<notin> http_moves h)"
  then have "(\<nexists>z. server_step (ds, hs) z)" by (auto elim!: server_step.cases simp: all_set_conv_all_nth)
  then have "groups (ds', hs') = groups (ds, hs)" using z(1) by (metis converse_rtranclpE)
  then have "grp_offer (groups (ds, hs) ! i) = grp_offer ?g" using g(1) by simp
  then have "holds (grp_offer (groups (ds, hs) ! i)) = 1" by (simp only: holds_def) simp
  then show "main_senders (main_view (s, ds, hs)) > 0"
    using sum_list_pos [OF nth_mem [OF i(1)], of "\<lambda>g. holds (grp_offer g)"] by (simp add: main_view_def loop_view_def abs_sys_def)
qed

theorem stopped_server_is_fatal_witness:
  "\<exists>ds hs y. server_step\<^sup>*\<^sup>* ([demo_stopped], [LaunchHTTP_start]) (ds, hs) \<and> sys_step (demo_served, ds, hs) y \<and> main_phase (fst y) = Exited"
proof -
  have "main_phase demo_served = Running" by (simp add: demo_served_def demo_main_state_def)
  moreover have "(\<exists>d \<in> set [demo_stopped]. dns_down d \<noteq> {}) \<or> (\<exists>h \<in> set [LaunchHTTP_start]. http_down h \<noteq> {})" by (simp add: demo_down)
  ultimately show ?thesis using stopped_server_is_fatal [OF demo_stops] by blast
qed

text \<open>C27: an error while generating records blocks the event loop for good. The loop comes to the send
  of the error on the error channel, from which only the loop itself receives; whatever the timer,
  the servers and their goroutines do afterwards, it stays there: the program does not end, no
  masters and no tick are received any more, configuration and records stay as they were, and every
  goroutine that waits to send an error, now or later, waits for ever.\<close>

theorem generation_error_deadlocks:
  assumes "main_phase s = Running"
    and "ParseState (renv_resolve re) (renv_load re) (renv_now re) (NewRecordGenerator (main_config s)) = Some (Some err, rg)"
  shows "sys_step (s, ds, hs) (reloadResolvers re s, ds, hs) \<and>
    (\<forall>s1 ds1 hs1. sys_step\<^sup>*\<^sup>* (reloadResolvers re s, ds, hs) (s1, ds1, hs1) \<longrightarrow>
      main_phase s1 = Sending err \<and> main_rs s1 = main_rs s \<and> main_config s1 = main_config s \<and>
      (\<forall>s2 ds2 hs2. sys_step (s1, ds1, hs1) (s2, ds2, hs2) \<longrightarrow> main_senders s1 \<le> main_senders s2 \<and>
        (\<forall>i e. i < length (groups (ds1, hs1)) \<and> grp_offer (groups (ds1, hs1) ! i) = Holding e \<longrightarrow>
          grp_offer (groups (ds2, hs2) ! i) = Holding e)))"
proof (intro conjI allI impI)
  have "reloadResolvers re s = s\<lparr>main_phase := Sending err\<rparr>" using assms(2) by (simp add: reloadResolvers_def)
  then have r: "main_phase (reloadResolvers re s) = Sending err" "main_rs (reloadResolvers re s) = main_rs s"
    "main_config (reloadResolvers re s) = main_config s" by simp_all
  show "sys_step (s, ds, hs) (reloadResolvers re s, ds, hs)" by (rule sys_step.loop [OF main_step.tick [OF assms(1)]])
  fix s1 ds1 hs1 assume "sys_step\<^sup>*\<^sup>* (reloadResolvers re s, ds, hs) (s1, ds1, hs1)"
  from sending_sys_run [OF this, of err] r
  show 1: "main_phase s1 = Sending err" and "main_rs s1 = main_rs s" "main_config s1 = main_config s" by simp_all
  fix s2 ds2 hs2 assume "sys_step (s1, ds1, hs1) (s2, ds2, hs2)"
  note step = sending_sys_step [OF this 1]
  show "main_senders s1 \<le> main_senders s2" using step by blast
  show "grp_offer (groups (ds2, hs2) ! i) = Holding e"
    if "i < length (groups (ds1, hs1)) \<and> grp_offer (groups (ds1, hs1) ! i) = Holding e" for i e using step that by blast
qed

text \<open>A program without masters: its first round is its last one.\<close>

theorem generation_error_deadlocks_witness:
  "\<exists>s0 pending w'. main_start demo_env id True (demo_main_config\<lparr>Config_Masters := []\<rparr>) [] = Normal (s0, pending, w') \<and>
     (\<forall>s ds hs. sys_step\<^sup>*\<^sup>* (reloadResolvers demo_round s0, [demo_stopped], []) (s, ds, hs) \<longrightarrow> main_phase s = Sending NoMaster)"
proof -
  let ?c = "demo_main_config\<lparr>Config_Masters := []\<rparr>"
  obtain s0 pending w' where s0: "main_start demo_env id True ?c [] = Normal (s0, pending, w')"
    using demo_start by blast
  note start = main_start_facts [OF s0]
  have "findMaster demo_load [] = Some (emptyState, Some NoMaster)" by (simp add: findMaster_def)
  then have "ParseState (renv_resolve demo_round) (renv_load demo_round) (renv_now demo_round) (NewRecordGenerator (main_config s0))
      = Some (Some NoMaster, NewRecordGenerator ?c)"
    using start(2) by (simp add: ParseState_def demo_round_def NewRecordGenerator_def)
  from generation_error_deadlocks [OF start(1) this, of "[demo_stopped]" "[]"] show ?thesis using s0 by blast
qed

end
