(* ===== verification/Process.thy ===== *)
theory Process
  imports Servers
begin

text \<open>
  The process: panics and their handlers (\<open>utils/util.go\<close>), the loggers and the printed counters
  (\<open>logging/logging.go\<close>), the start of \<open>main\<close> from the command line to the event loop and the
  way the program ends. Log lines are without their date and place. The frames of the caller tree, the printing of arbitrary values, the flag
  parser and the level of \<open>glog\<close> are parameters.
\<close>

section \<open>Panics\<close>

text \<open>
  How a function unwinds: normally or with a panic, whose value is nil for \<open>panic(nil)\<close>; the
  handlers may end the process with a status. The log is the list of the lines printed.
\<close>

datatype 'p unwinding = Normally | Panicking "'p option" | ExitedWith int

type_synonym 'p handler = "'p \<Rightarrow> string list \<Rightarrow> string list \<times> int option"

record 'p crash_env =
  ReallyCrash :: bool
  PanicHandlers :: "'p handler list"

text \<open>The loop over the handlers stops when one ends the process.\<close>

fun run_handlers :: "'p handler list \<Rightarrow> 'p \<Rightarrow> string list \<Rightarrow> string list \<times> 'p unwinding" where
  "run_handlers [] r lg = (lg, Normally)"
| "run_handlers (fn # fns) r lg =
     (case fn r lg of
        (lg', None) \<Rightarrow> run_handlers fns r lg'
      | (lg', Some status) \<Rightarrow> (lg', ExitedWith status))"

text \<open>\<open>HandleCrash\<close> as a deferred call: \<open>recover\<close> stops a panic and returns its value.\<close>

definition HandleCrash :: "'p crash_env \<Rightarrow> 'p unwinding \<Rightarrow> string list \<Rightarrow> string list \<times> 'p unwinding" where
  "HandleCrash env u lg =
     (if ReallyCrash env then (lg, u)
      else case u of
        Panicking (Some r) \<Rightarrow> run_handlers (PanicHandlers env) r lg
      | Panicking None \<Rightarrow> (lg, Normally)
      | _ \<Rightarrow> (lg, u))"

text \<open>
  \<open>logPanic\<close>: \<open>runtime.Caller i\<close> is the frame of that depth, if there is one; \<open>shown\<close> is the
  value as \<open>%#v\<close> and as \<open>%v\<close>.
\<close>

definition Caller :: "(string \<times> int) list \<Rightarrow> nat \<Rightarrow> (string \<times> int) option" where
  "Caller frames i = (if i < length frames then Some (frames ! i) else None)"

function callers_loop :: "(string \<times> int) list \<Rightarrow> nat \<Rightarrow> string \<Rightarrow> string" where
  "callers_loop frames i callers =
     (case Caller frames i of
        None \<Rightarrow> callers
      | Some (file, line) \<Rightarrow> callers_loop frames (i + 1) (callers @ file @ '':'' @ Itoa line @ ''\<newline>''))"
  by pat_completeness auto
termination
  by (relation "measure (\<lambda>(frames, i, callers). length frames - i)") (auto simp: Caller_def split: if_splits)

declare callers_loop.simps [simp del]

definition logPanic :: "(string \<times> int) list \<Rightarrow> ('p \<Rightarrow> string \<times> string) \<Rightarrow> 'p handler" where
  "logPanic frames shown r lg =
     (lg @ [''Recovered from panic: '' @ fst (shown r) @ '' ('' @ snd (shown r) @ '')\<newline>'' @ callers_loop frames 0 []], None)"

text \<open>The package's handlers, and those of \<open>main\<close>: a panic ends the process with status 1.\<close>

definition default_handlers :: "(string \<times> int) list \<Rightarrow> ('p \<Rightarrow> string \<times> string) \<Rightarrow> 'p crash_env" where
  "default_handlers frames shown = \<lparr>ReallyCrash = False, PanicHandlers = [logPanic frames shown]\<rparr>"

definition main_handlers :: "'p crash_env \<Rightarrow> 'p crash_env" where
  "main_handlers env = env\<lparr>PanicHandlers := PanicHandlers env @ [\<lambda>_ lg. (lg, Some 1)]\<rparr>"

section \<open>Loggers\<close>

datatype writer = Stdout | Stderr | Discard

record Logger =
  log_out :: writer
  log_prefix :: string

record loggers =
  VerboseFlag :: bool
  VeryVerboseFlag :: bool
  Verbose :: "Logger option"
  VeryVerbose :: "Logger option"
  Error_log :: "Logger option"

definition no_loggers :: loggers where
  "no_loggers = \<lparr>VerboseFlag = False, VeryVerboseFlag = False, Verbose = None, VeryVerbose = None, Error_log = None\<rparr>"

text \<open>\<open>SetupLogs\<close>; \<open>V\<close> tells whether logging at a level is enabled.\<close>

definition SetupLogs :: "(nat \<Rightarrow> bool) \<Rightarrow> loggers \<Rightarrow> loggers" where
  "SetupLogs V l =
     (let l1 = (if V 2 then l\<lparr>VeryVerboseFlag := True\<rparr> else if V 1 then l\<lparr>VerboseFlag := True\<rparr> else l);
          new = (\<lambda>w p. Some \<lparr>log_out = w, log_prefix = p\<rparr>);
          l2 = (if VerboseFlag l1 then
                  l1\<lparr>Verbose := new Stdout ''VERBOSE: '', VeryVerbose := new Discard ''VERY VERBOSE: ''\<rparr>
                else if VeryVerboseFlag l1 then
                  let v = new Stdout ''VERY VERBOSE: '' in l1\<lparr>Verbose := v, VeryVerbose := v\<rparr>
                else
                  l1\<lparr>Verbose := new Discard ''VERBOSE: '', VeryVerbose := new Discard ''VERY VERBOSE: ''\<rparr>)
      in l2\<lparr>Error_log := new Stderr ''ERROR: ''\<rparr>)"

text \<open>Printing on a logger: what reaches the writer; a nil logger panics.\<close>

definition Log_print :: "Logger option \<Rightarrow> string \<Rightarrow> (writer \<times> string) list option" where
  "Log_print l m =
     (case l of None \<Rightarrow> None
      | Some l \<Rightarrow> Some (if log_out l = Discard then [] else [(log_out l, log_prefix l @ m)]))"

text \<open>\<open>%+v\<close> of the counters: every field with the decimal of its register.\<close>

definition counters :: "LogOut \<Rightarrow> (string \<times> 64 word) list" where
  "counters lg = [(''MesosRequests'', MesosRequests lg), (''MesosSuccess'', MesosSuccess lg), (''MesosNXDomain'', MesosNXDomain lg),
     (''MesosFailed'', MesosFailed lg), (''NonMesosRequests'', NonMesosRequests lg), (''NonMesosSuccess'', NonMesosSuccess lg),
     (''NonMesosNXDomain'', NonMesosNXDomain lg), (''NonMesosFailed'', NonMesosFailed lg), (''NonMesosForwarded'', NonMesosForwarded lg)]"

definition PrintCurLog :: "loggers \<Rightarrow> LogOut \<Rightarrow> (writer \<times> string) list option \<times> LogOut" where
  "PrintCurLog l lg =
     (Log_print (VeryVerbose l) (''{'' @ Join (map (\<lambda>(name, v). name @ '':'' @ LogCounter_String v) (counters lg)) '' '' @ ''}\<newline>''), lg)"

section \<open>The start of the program\<close>

text \<open>What \<open>main\<close> reads: the parsed flags (none: the flag parser rejects the command line), the files, the time.\<close>

record host_env =
  host_flags :: "(string \<times> bool) option"
  host_V :: "nat \<Rightarrow> bool"
  host_getenv :: "string \<Rightarrow> string"
  host_abs :: "string \<Rightarrow> string option"
  host_read :: "string \<Rightarrow> string option"
  host_unmarshal :: "string \<Rightarrow> Config \<Rightarrow> Config option option"
  host_now :: int
  host_detector :: bool

text \<open>The program ends with a status, waits for ever in the start of a resolver, or enters its loop.\<close>

datatype ('g, 'e, 'w) start = Ends int | Waits | Enters loggers "('g, 'e) main_state" "string list list" 'w

text \<open>
  \<open>main\<close> up to its loop. The deferred \<open>HandleCrash\<close> comes after the resolvers: a panic before
  ends the process with status 2, as does a command line that cannot be parsed; fatal errors end
  it with status 1.
\<close>

definition main :: "('g, 'e, 'w) environment \<Rightarrow> ((string \<times> iface) list \<Rightarrow> (string \<times> iface) list) \<Rightarrow> host_env \<Rightarrow> 'w \<Rightarrow> ('g, 'e, 'w) start" where
  "main env ord host w =
     (case host_flags host of
        None \<Rightarrow> Ends 2
      | Some (cjson, versionFlag) \<Rightarrow>
          if versionFlag then Ends 0
          else
            let l = SetupLogs (host_V host) no_loggers
            in case SetConfig (host_getenv host) (host_abs host) (host_read host) (host_unmarshal host) (host_now host) cjson of
                 None \<Rightarrow> Ends 2
               | Some (Inl _) \<Rightarrow> Ends 1
               | Some (Inr config) \<Rightarrow>
                   if seconds (Config_RefreshSeconds config) \<le> 0 then Ends 2
                   else
                     (case detectMasters (host_detector host) (Config_Zk config) (Config_Masters config) of
                        None \<Rightarrow> Ends 1
                      | Some (_, pending) \<Rightarrow>
                          (case resolvers_New env ord (NewRecordGenerator config) w of
                             Stuck \<Rightarrow> Waits
                           | Crash \<Rightarrow> Ends 2
                           | Normal (rs, w') \<Rightarrow>
                               Enters l \<lparr>main_config = config, main_rs = rs, main_timer = True,
                                 main_reporters = launches BC_DNSOn rs + launches BC_HTTPOn rs, main_senders = 0, main_phase = Running\<rparr>
                                 pending w')))"

section \<open>Lemmas\<close>

lemma callers_loop_eq:
  "callers_loop frames i callers = callers @ concat (map (\<lambda>(file, line). file @ '':'' @ Itoa line @ ''\<newline>'') (drop i frames))"
proof (induction frames i callers rule: callers_loop.induct)
  case (1 frames i callers)
  show ?case
  proof (cases "i < length frames")
    case True
    obtain fl ln where f: "frames ! i = (fl, ln)" by (cases "frames ! i")
    have "callers_loop frames i callers = callers_loop frames (i + 1) (callers @ fl @ '':'' @ Itoa ln @ ''\<newline>'')"
      using True f by (subst callers_loop.simps) (simp add: Caller_def)
    also have "\<dots> = (callers @ fl @ '':'' @ Itoa ln @ ''\<newline>'') @
        concat (map (\<lambda>(file, line). file @ '':'' @ Itoa line @ ''\<newline>'') (drop (i + 1) frames))"
      using 1 [of "(fl, ln)" fl ln] True f by (simp add: Caller_def)
    also have "\<dots> = callers @ concat (map (\<lambda>(file, line). file @ '':'' @ Itoa line @ ''\<newline>'') (drop i frames))"
      using True f by (simp add: Cons_nth_drop_Suc [symmetric])
    finally show ?thesis .
  next
    case False
    then show ?thesis by (subst callers_loop.simps) (simp add: Caller_def)
  qed
qed

definition panic_report :: "(string \<times> int) list \<Rightarrow> string \<times> string \<Rightarrow> string" where
  "panic_report frames v = ''Recovered from panic: '' @ fst v @ '' ('' @ snd v @ '')\<newline>'' @
     concat (map (\<lambda>(file, line). file @ '':'' @ Itoa line @ ''\<newline>'') frames)"

lemma SetConfig_checked:
  assumes "SetConfig getenv absp read unmarshal now cjson = Some (Inr c)"
  shows "validateMasters (Config_Masters c) = None" "validateIPSources (Config_IPSources c) = None"
  using assms by (auto simp: SetConfig_def complete_config_def split: sum.splits option.splits)

text \<open>All loggers are set, and the more verbose one never prints when the other does not.\<close>

lemma SetupLogs_set:
  "Verbose (SetupLogs V l) \<noteq> None" "VeryVerbose (SetupLogs V l) \<noteq> None" "Error_log (SetupLogs V l) \<noteq> None"
  "map_option log_out (Error_log (SetupLogs V l)) = Some Stderr"
  "map_option log_out (VeryVerbose (SetupLogs V l)) = Some Stdout \<Longrightarrow> map_option log_out (Verbose (SetupLogs V l)) = Some Stdout"
  by (auto simp: SetupLogs_def Let_def split: if_splits)

lemma main_enters:
  assumes "main env ord host w = Enters l s pending w'"
  obtains cjson where "host_flags host = Some (cjson, False)" "l = SetupLogs (host_V host) no_loggers"
    "SetConfig (host_getenv host) (host_abs host) (host_read host) (host_unmarshal host) (host_now host) cjson = Some (Inr (main_config s))"
    "main_start env ord (host_detector host) (main_config s) w = Normal (s, pending, w')"
  using assms
  by (auto simp: main_def main_start_def Let_def split: option.splits if_splits sum.splits outcome.splits prod.splits)

section \<open>Properties\<close>

text \<open>A panic of the event loop is reported once, with its value and the caller tree from the
  innermost frame on, one frame a line, and ends the process with status 1; without the handler
  that main adds, HandleCrash would log it and go on.\<close>

theorem panic_is_logged_and_ends:
  "HandleCrash (main_handlers (default_handlers frames shown)) (Panicking (Some r)) lg = (lg @ [panic_report frames (shown r)], ExitedWith 1) \<and>
   HandleCrash (default_handlers frames shown) (Panicking (Some r)) lg = (lg @ [panic_report frames (shown r)], Normally) \<and>
   HandleCrash (main_handlers (default_handlers frames shown)) Normally lg = (lg, Normally)"
  by (simp add: HandleCrash_def main_handlers_def default_handlers_def logPanic_def callers_loop_eq panic_report_def)

text \<open>C14: from the command line on. When main enters its event loop, its configuration has passed the
  checks of the configuration file and every logger is set, so that no log call panics; and at
  any later moment of the loop and its servers, all builtin resolvers serve the same records:
  the empty ones of the start or those published with the masters received last.\<close>

theorem program_serves:
  assumes "main env ord host w = Enters l s0 pending w'"
    and "sys_step\<^sup>*\<^sup>* (sys_start s0) (s, ds, hs)" "main_phase s = Running"
  shows "validateMasters (Config_Masters (main_config s0)) = None \<and> validateIPSources (Config_IPSources (main_config s0)) = None \<and>
    (\<forall>m. Log_print (Verbose l) m \<noteq> None \<and> Log_print (Error_log l) m \<noteq> None \<and> fst (PrintCurLog l lg) \<noteq> None) \<and>
    (\<exists>rg. serves rg (main_rs s) \<and> RG_Config rg = main_config s \<and>
      (rg = NewRecordGenerator (main_config s0) \<or> published (Config_Masters (main_config s)) rg))"
proof (intro conjI)
  obtain cjson where l: "l = SetupLogs (host_V host) no_loggers"
    and c: "SetConfig (host_getenv host) (host_abs host) (host_read host) (host_unmarshal host) (host_now host) cjson = Some (Inr (main_config s0))"
    and start: "main_start env ord (host_detector host) (main_config s0) w = Normal (s0, pending, w')"
    using assms(1) by (rule main_enters)
  show "validateMasters (Config_Masters (main_config s0)) = None" "validateIPSources (Config_IPSources (main_config s0)) = None"
    using SetConfig_checked [OF c] by simp_all
  show "\<forall>m. Log_print (Verbose l) m \<noteq> None \<and> Log_print (Error_log l) m \<noteq> None \<and> fst (PrintCurLog l lg) \<noteq> None"
    using SetupLogs_set(1-3) [of "host_V host" no_loggers] unfolding l by (auto simp: Log_print_def PrintCurLog_def)
  note facts = main_start_facts [OF start]
  have "up_to_date (NewRecordGenerator (main_config s0)) s0" "watched s0"
    using facts by (simp_all add: up_to_date_def watched_def NewRecordGenerator_def)
  moreover have "main_step\<^sup>*\<^sup>* s0 (main_view (s, ds, hs))" using sys_run_view [OF assms(2) sys_start_inv] by (simp add: main_view_start [OF facts(5)])
  ultimately have "up_to_date (NewRecordGenerator (main_config s0)) (main_view (s, ds, hs))" using main_run_inv assms(3) by fastforce
  then show "\<exists>rg. serves rg (main_rs s) \<and> RG_Config rg = main_config s \<and>
      (rg = NewRecordGenerator (main_config s0) \<or> published (Config_Masters (main_config s)) rg)"
    by (auto simp: up_to_date_def)
qed

text \<open>A configuration file that keeps all defaults.\<close>

definition demo_host :: host_env where
  "demo_host = \<lparr>host_flags = Some (''config.json'', False), host_V = (\<lambda>n. n \<le> 1), host_getenv = (\<lambda>_. []), host_abs = Some,
     host_read = Some, host_unmarshal = (\<lambda>_ c. Some (Some c)), host_now = 0, host_detector = True\<rparr>"

lemma demo_SetConfig:
  "SetConfig (\<lambda>_. []) Some Some (\<lambda>_ c. Some (Some c)) 0 ''config.json'' = Some (Inr (complete_config (NewConfig 0)))"
  by (simp add: SetConfig_def ReadConfig_def NewConfig_def validateMasters_def validateIPSources_def unique_def)

lemma demo_main: "\<exists>l s0 pending w'. main demo_env id demo_host [] = Enters l s0 pending w' \<and> main_phase s0 = Running"
proof -
  let ?c = "complete_config (NewConfig 0)"
  have k: "ToLower ''builtin'' = ''builtin''" by code_simp
  have "\<exists>rs w'. resolvers_New demo_env id (NewRecordGenerator ?c) [] = Normal (rs, w')"
    by (simp add: resolvers_New_def NewRecordGenerator_def complete_config_def NewConfig_def new_resolver_def k Merge_def)
  then show ?thesis
    by (auto simp: main_def demo_host_def demo_SetConfig complete_config_def NewConfig_def demo_seconds detectMasters_def)
qed

theorem program_serves_witness:
  "\<exists>l s0 pending w' rg. main demo_env id demo_host [] = Enters l s0 pending w' \<and> serves rg (main_rs s0) \<and>
     fst (PrintCurLog l CurLog) \<noteq> None"
proof -
  obtain l s0 pending w' where m: "main demo_env id demo_host [] = Enters l s0 pending w'" "main_phase s0 = Running"
    using demo_main by blast
  obtain s ds hs where x: "sys_start s0 = (s, ds, hs)" "main_phase s = Running" "main_rs s = main_rs s0" using m(2) by (simp add: sys_start_def)
  have "sys_step\<^sup>*\<^sup>* (sys_start s0) (s, ds, hs)" by (simp add: x(1))
  from program_serves [OF m(1) this x(2), of CurLog, unfolded x(3)] show ?thesis using m(1) by blast
qed

end
