(* ===== verification/Consul_Loop.thy ===== *)
theory Consul_Loop
  imports Consul_Sync
begin

text \<open>
  The two goroutines of \<open>resolvers/consul/consul.go\<close> over their whole life: the agent loop with
  calls to Consul that may fail at any time, and the poller of health checks. The agent never
  panics, and once the calls succeed again it recovers within a bounded number of record sets.
\<close>

section \<open>The goroutines\<close>

text \<open>
  What the \<open>select\<close> of one iteration finds: a set of records (with the orders in which Go visits
  the cache), or the control channel. An iteration that fails to reconnect ends before the
  \<open>select\<close> and receives nothing; what was waiting is found by a later iteration.
\<close>

datatype select_case = Received "Record list" "Record list \<Rightarrow> Record list" "Record list \<Rightarrow> Record list" | Controlled

text \<open>The loop over a number of iterations: whether it returned, and the state.\<close>

fun agent_loop ::
  "'w consul_api \<Rightarrow> ConsulConfig \<Rightarrow> string \<Rightarrow> select_case list \<Rightarrow> agent \<times> 'w \<Rightarrow> (bool \<times> agent \<times> 'w) option" where
  "agent_loop api config port [] s = Some (False, s)"
| "agent_loop api config port (Received recordSet ord1 ord2 # cs) s = do {
     s' \<leftarrow> agent_pass api config port ord1 ord2 recordSet s;
     agent_loop api config port cs s' }"
| "agent_loop api config port (Controlled # cs) s = do {
     (ready, s') \<leftarrow> agent_refresh api config port s;
     if ready then Some (True, s') else agent_loop api config port cs s' }"

datatype 'w agent_run = SentError addr_error | Ran bool agent 'w

definition consulAgent ::
  "'w consul_api \<Rightarrow> ConsulConfig \<Rightarrow> string \<Rightarrow> select_case list \<Rightarrow> 'w \<Rightarrow> 'w agent_run option" where
  "consulAgent api config addr cs w =
     (case SplitHostPort (CC_Address config) of
        (_, _, Some err) \<Rightarrow> Some (SentError err)
      | (_, port, None) \<Rightarrow> do {
          (returned, a, w') \<leftarrow> agent_loop api config port cs (new_agent addr, w);
          Some (Ran returned a w') })"

text \<open>
  The poller over a number of iterations, each with the outcome of the request (should it be made)
  and whether the control channel is found ready: the lists of pairs it sends.
\<close>

fun poll_loop :: "int \<Rightarrow> (KVPair list option \<times> bool) list \<Rightarrow> int \<times> KVPair list \<Rightarrow> KVPair list list option" where
  "poll_loop refresh [] s = Some []"
| "poll_loop refresh ((listed, control) # es) s = do {
     (s', sends) \<leftarrow> poll_step refresh listed s;
     if \<not> sends then poll_loop refresh es s'
     else if control then Some []
     else do { out \<leftarrow> poll_loop refresh es s'; Some (snd s' # out) } }"

definition pollConsulKVHC :: "int \<Rightarrow> (KVPair list option \<times> bool) list \<Rightarrow> KVPair list list option" where
  "pollConsulKVHC refresh es = poll_loop refresh es (0, [])"

section \<open>No panics\<close>

text \<open>The services listed under the program's prefix have an identifier in two parts.\<close>

definition list_safe :: "'w consul_api \<Rightarrow> string \<Rightarrow> bool" where
  "list_safe api pfx \<longleftrightarrow> (\<forall>w ss. fst (api_Services api w) = Some ss \<longrightarrow>
     (\<forall>s\<in>set ss. owned pfx (AS_ID s) \<longrightarrow> 1 < length (Split (AS_ID s) '':'')))"

lemma service_records_safe:
  assumes "\<forall>s\<in>set ss. owned pfx (AS_ID s) \<longrightarrow> 1 < length (Split (AS_ID s) '':'')"
  shows "service_records pfx ss = Some (map service_record_of (filter (\<lambda>s. owned pfx (AS_ID s)) ss))"
  using assms by (rule service_records_eq)

lemma agent_refresh_safe:
  assumes "list_safe api (CC_ServicePrefix config)" "CC_CacheRefresh config \<noteq> 0" "cache_ok a"
  shows "\<exists>ready a' w'. agent_refresh api config port (a, w) = Some (ready, a', w') \<and> cache_ok a' \<and> A_count a' = A_count a"
proof (cases "CC_CacheRefresh config dvd A_count a")
  case True
  let ?p = "CC_ServicePrefix config"
  define a1 where "a1 = (if A_Healthy a then a else drop_cache (a\<lparr>A_Healthy := True\<rparr>))"
  define cw where "cw = (if A_Healthy a then (True, w) else consulInit api config (A_Address a) port 5 w)"
  have a1: "cache_ok a1" "A_count a1 = A_count a" using assms(3) by (simp_all add: a1_def)
  obtain ok w1 where w1: "cw = (ok, w1)" by (cases cw)
  obtain services w2 where w2: "api_Services api w1 = (services, w2)" by (cases "api_Services api w1")
  obtain rs where rs: "agentServiceRecords api ?p w1 = (Some rs, w2)" "\<forall>r\<in>set rs. wf_rec r \<or> r = zero_Record"
  proof (cases services)
    case None
    then show ?thesis using that [of "[]"] w2 by (simp add: agentServiceRecords_def)
  next
    case (Some ss)
    then have "\<forall>s\<in>set ss. owned ?p (AS_ID s) \<longrightarrow> 1 < length (Split (AS_ID s) '':'')"
      using assms(1) w2 unfolding list_safe_def by (metis fst_conv)
    from service_records_safe [OF this] have "agentServiceRecords api ?p w1 = (Some (loaded ?p ss), w2)"
      using w2 Some by (simp add: agentServiceRecords_def loaded_def)
    moreover have "\<forall>r\<in>set (loaded ?p ss). wf_rec r \<or> r = zero_Record" by (auto simp: loaded_def)
    ultimately show ?thesis by (rule that)
  qed
  obtain a2 where a2: "fold_opt (cache_record api ''add'') rs (a1, w2) = Some (a2, w2)" "cache_ok a2" "A_count a2 = A_count a1"
    using cache_records_fold [OF rs(2) a1(1), of api w2] by blast
  have refresh: "agent_refresh api config port (a, w) =
      (if \<not> ok then Some (False, a, w1) else if CC_CacheOnly config then Some (True, drop_cache a1, w1) else Some (True, a2, w2))"
    using True assms(2) w1 rs(1) a2(1)
    by (simp add: agent_refresh_def Let_def cw_def [symmetric] a1_def [symmetric])
  show ?thesis unfolding refresh using a1 a2 assms(3) by auto
next
  case False
  then have "agent_refresh api config port (a, w) = Some (True, a, w)" using assms(2) by (simp add: agent_refresh_def)
  then show ?thesis using assms(3) by blast
qed

lemma apply_record_safe:
  assumes "wf_rec r" "Rec_Action r \<in> {''add'', ''remove''}" "cache_ok a"
  shows "\<exists>a' w'. apply_record api r (a, w) = Some (a', w') \<and> cache_ok a' \<and> A_count a' = A_count a"
proof (cases "A_Healthy a")
  case True
  obtain ok w1 where call: "call_api api r w = Some (ok, w1)"
    using assms(1,2) by (fastforce simp: call_api_def wf_rec_def service_rec_def check_rec_def)
  define a1 where "a1 = (if ok then a else a\<lparr>A_Healthy := False\<rparr>)"
  have a1: "cache_ok a1" "A_count a1 = A_count a" using assms(3) by (simp_all add: a1_def cache_ok_def)
  obtain c where c: "UpdateCache (api_Now api w1) r (Rec_Action r) (A_cache a1) = Some c" "cache_ok (a1\<lparr>A_cache := c\<rparr>)"
    using UpdateCache_cmap [OF _ a1(1) assms(2)] assms(1) by blast
  have "apply_record api r (a, w) = Some (a1\<lparr>A_cache := c, A_Updated := Some (Cache_Updated c)\<rparr>, w1)"
    using True assms(2) call c(1) by (simp add: apply_record_def cache_record_def a1_def [symmetric])
  then show ?thesis using c(2) a1(2) by (simp add: cache_ok_def)
qed (use assms in \<open>simp add: apply_record_def\<close>)

lemma apply_records_safe:
  assumes "\<forall>r\<in>set rs. wf_rec r \<and> Rec_Action r \<in> {''add'', ''remove''}" "cache_ok a"
  shows "\<exists>a' w'. fold_opt (apply_record api) rs (a, w) = Some (a', w') \<and> cache_ok a' \<and> A_count a' = A_count a"
  using assms
proof (induction rs arbitrary: a w)
  case (Cons r rs)
  obtain a1 w1 where 1: "apply_record api r (a, w) = Some (a1, w1)" "cache_ok a1" "A_count a1 = A_count a"
    using apply_record_safe [of r a api w] Cons.prems by auto
  from Cons.IH [OF _ 1(2), of w1] show ?case using 1 Cons.prems(1) by auto
qed simp

text \<open>The records a round applies are well formed, whatever the cache and the orders.\<close>

lemma deltas_safe:
  assumes "\<forall>r\<in>set R. wf_rec r" "\<forall>r\<in>set cs. wf_rec r \<or> r = zero_Record"
  shows "getDeltaRecords cs R ''add'' = Some (map (Rec_Action_update (\<lambda>_. ''add'')) (missing cs R))"
    "getDeltaRecords R cs ''remove'' = Some (map (Rec_Action_update (\<lambda>_. ''remove'')) (missing R cs))"
    "\<forall>r\<in>set (missing cs R). wf_rec r" "\<forall>r\<in>set (missing R cs). wf_rec r"
proof -
  have "\<forall>r\<in>set R. one_kind r" "\<forall>r\<in>set cs. one_kind r" using assms one_kind_simps by blast+
  then show "getDeltaRecords cs R ''add'' = Some (map (Rec_Action_update (\<lambda>_. ''add'')) (missing cs R))"
    "getDeltaRecords R cs ''remove'' = Some (map (Rec_Action_update (\<lambda>_. ''remove'')) (missing R cs))"
    by (simp_all add: getDeltaRecords_eq)
  show "\<forall>r\<in>set (missing cs R). wf_rec r" "\<forall>r\<in>set (missing R cs). wf_rec r"
    using set_missing assms by blast+
qed

lemma agent_cached_wf:
  assumes "cache_ok a" "perm_fun ord"
  shows "\<forall>r\<in>set (CachedRecords ord (A_cache a)). wf_rec r \<or> r = zero_Record"
proof
  fix r assume "r \<in> set (CachedRecords ord (A_cache a))"
  then have "r = zero_Record \<or> r \<in> ran (cmap a)" using cached_facts(1) [OF assms] by blast
  moreover have "wf_rec r \<or> r = zero_Record" if "r \<in> ran (cmap a)"
    using that assms(1) by (auto simp: ran_def cmap_def cache_ok_def list_all_iff dest!: map_of_SomeD split: option.splits)
  ultimately show "wf_rec r \<or> r = zero_Record" by blast
qed

lemma agent_round_safe:
  assumes "\<forall>r\<in>set R. wf_rec r" "cache_ok a" "perm_fun ord1" "perm_fun ord2"
  shows "\<exists>a' w'. agent_round api ord1 ord2 R (a, w) = Some (a', w') \<and> cache_ok a' \<and> A_count a' = A_count a + 1"
proof -
  let ?c1 = "CachedRecords ord1 (A_cache a)" and ?c2 = "CachedRecords ord2 (A_cache a)"
  note d1 = deltas_safe [OF assms(1) agent_cached_wf [OF assms(2,3)]] and d2 = deltas_safe [OF assms(1) agent_cached_wf [OF assms(2,4)]]
  let ?ds = "map (Rec_Action_update (\<lambda>_. ''add'')) (missing ?c1 R) @ map (Rec_Action_update (\<lambda>_. ''remove'')) (missing R ?c2)"
  have ds: "\<forall>r\<in>set ?ds. wf_rec r \<and> Rec_Action r \<in> {''add'', ''remove''}"
    unfolding set_append ball_Un set_map ball_simps using d1(3) d2(4) by simp
  have ok: "cache_ok (a\<lparr>A_count := A_count a + 1\<rparr>)" using assms(2) by (simp add: cache_ok_def)
  have "agent_round api ord1 ord2 R (a, w) = fold_opt (apply_record api) ?ds (a\<lparr>A_count := A_count a + 1\<rparr>, w)"
    by (simp only: agent_round_def case_prod_conv d1(1) d2(2) bind.bind_lunit)
  then show ?thesis using apply_records_safe [OF ds ok, of api w] by simp
qed

definition case_ok :: "select_case \<Rightarrow> bool" where
  "case_ok c \<longleftrightarrow> (case c of
     Received R ord1 ord2 \<Rightarrow> (\<forall>r\<in>set R. wf_rec r) \<and> perm_fun ord1 \<and> perm_fun ord2 | Controlled \<Rightarrow> True)"

lemma agent_pass_safe:
  assumes "list_safe api (CC_ServicePrefix config)" "CC_CacheRefresh config \<noteq> 0" "case_ok (Received R ord1 ord2)" "cache_ok a"
  shows "\<exists>a' w'. agent_pass api config port ord1 ord2 R (a, w) = Some (a', w') \<and> cache_ok a' \<and>
    A_count a' \<in> {A_count a, A_count a + 1}"
proof -
  obtain ready a1 w1 where r: "agent_refresh api config port (a, w) = Some (ready, a1, w1)" "cache_ok a1" "A_count a1 = A_count a"
    using agent_refresh_safe [OF assms(1,2,4)] by blast
  show ?thesis
  proof (cases ready)
    case True
    have "\<forall>r\<in>set R. wf_rec r" "perm_fun ord1" "perm_fun ord2" using assms(3) by (simp_all add: case_ok_def)
    from agent_round_safe [OF this(1) r(2) this(2,3), of api w1] show ?thesis using r True by (auto simp: agent_pass_def)
  qed (use r in \<open>auto simp: agent_pass_def\<close>)
qed

lemma agent_loop_safe:
  assumes "list_safe api (CC_ServicePrefix config)" "CC_CacheRefresh config \<noteq> 0" "\<forall>c\<in>set cs. case_ok c" "cache_ok a" "0 \<le> A_count a"
  shows "\<exists>returned a' w'. agent_loop api config port cs (a, w) = Some (returned, a', w') \<and> cache_ok a' \<and> 0 \<le> A_count a'"
  using assms(3-)
proof (induction cs arbitrary: a w)
  case Nil
  then show ?case by (intro exI [of _ False] exI [of _ a] exI [of _ w]) simp
next
  case (Cons c cs)
  show ?case
  proof (cases c)
    case (Received R ord1 ord2)
    then obtain a1 w1 where 1: "agent_pass api config port ord1 ord2 R (a, w) = Some (a1, w1)" "cache_ok a1"
      "A_count a1 \<in> {A_count a, A_count a + 1}"
      using agent_pass_safe [OF assms(1,2), of R ord1 ord2 a port w] Cons.prems by auto
    then have "0 \<le> A_count a1" using Cons.prems(3) by auto
    from Cons.IH [OF _ 1(2) this, of w1] show ?thesis using 1(1) Received Cons.prems(1) by simp
  next
    case Controlled
    obtain ready a1 w1 where r: "agent_refresh api config port (a, w) = Some (ready, a1, w1)" "cache_ok a1" "A_count a1 = A_count a"
      using agent_refresh_safe [OF assms(1,2) Cons.prems(2)] by blast
    from Cons.IH [OF _ r(2), of w1] show ?thesis using r Controlled Cons.prems by (cases ready) auto
  qed
qed

section \<open>Recovery\<close>

text \<open>A disconnected agent takes sets of records without applying them until it is due to reconnect.\<close>

lemma apply_records_down: "\<not> A_Healthy a \<Longrightarrow> fold_opt (apply_record api) rs (a, w) = Some (a, w)"
  by (induction rs) (simp_all add: apply_record_def)

lemma agent_pass_down:
  assumes "\<not> A_Healthy a" "\<not> CC_CacheRefresh config dvd A_count a" "CC_CacheRefresh config \<noteq> 0"
    and "\<forall>r\<in>set R. wf_rec r" "cache_ok a" "perm_fun ord1" "perm_fun ord2"
  shows "agent_pass api config port ord1 ord2 R (a, w) = Some (a\<lparr>A_count := A_count a + 1\<rparr>, w)"
proof -
  have "agent_refresh api config port (a, w) = Some (True, a, w)" using assms(2,3) by (simp add: agent_refresh_def)
  moreover have "agent_round api ord1 ord2 R (a, w) = Some (a\<lparr>A_count := A_count a + 1\<rparr>, w)"
    unfolding agent_round_def case_prod_conv deltas_safe(1) [OF assms(4) agent_cached_wf [OF assms(5,6)]]
      deltas_safe(2) [OF assms(4) agent_cached_wf [OF assms(5,7)]] bind.bind_lunit
    by (rule apply_records_down) (simp add: assms(1))
  ultimately show ?thesis by (simp add: agent_pass_def)
qed

definition delivers :: "Record list \<Rightarrow> select_case \<Rightarrow> bool" where
  "delivers R c \<longleftrightarrow> (\<exists>ord1 ord2. c = Received R ord1 ord2 \<and> perm_fun ord1 \<and> perm_fun ord2)"

lemma records_ok_wf: "records_ok R \<Longrightarrow> \<forall>r\<in>set R. wf_rec r"
  by (simp add: records_ok_def)

text \<open>An agent in step registers the records of a second delivery at the latest, and keeps them registered.\<close>

lemma in_step_loop:
  assumes "api_ok api svcs" "list_ok api svcs"
    and "CC_ServicePrefix config = pfx" "CC_CacheRefresh config \<noteq> 0" "\<not> CC_CacheOnly config"
    and "records_ok R" "owned_records pfx R" "two_parts R"
    and "\<forall>c\<in>set cs. delivers R c" "own_ok pfx (svcs w)" "ready_agent svcs config a w"
    and "2 \<le> length cs \<or> unchanged (svcs w) R \<and> cs \<noteq> []"
  shows "\<exists>a' w'. agent_loop api config port cs (a, w) = Some (False, a', w') \<and> registered pfx (svcs w') R \<and>
    (\<forall>i. \<not> owned pfx i \<longrightarrow> svcs w' i = svcs w i)"
  using assms(9-)
proof (induction cs arbitrary: a w)
  case (Cons c cs)
  obtain ord1 ord2 where c: "c = Received R ord1 ord2" "perm_fun ord1" "perm_fun ord2"
    using Cons.prems(1) by (auto simp: delivers_def)
  obtain a1 w1 where 1: "agent_pass api config port ord1 ord2 R (a, w) = Some (a1, w1)" "in_step svcs pfx a1 w1"
    "own_ok pfx (svcs w1)" "unchanged (svcs w1) R" "unchanged (svcs w) R \<longrightarrow> registered pfx (svcs w1) R"
    "\<forall>i. \<not> owned pfx i \<longrightarrow> svcs w1 i = svcs w i"
    using agent_pass_step [OF assms(1,2) Cons.prems(2,3) assms(3-8) c(2,3)] by blast
  show ?case
  proof (cases "cs = []")
    case True
    then show ?thesis using 1 Cons.prems(4) c(1) by simp
  next
    case False
    have "ready_agent svcs config a1 w1" using 1(2) assms(3) by (simp add: ready_agent_def)
    from Cons.IH [OF _ 1(3) this] False 1(4) Cons.prems(1) obtain a' w' where
      "agent_loop api config port cs (a1, w1) = Some (False, a', w')" "registered pfx (svcs w') R"
      "\<forall>i. \<not> owned pfx i \<longrightarrow> svcs w' i = svcs w1 i" by auto
    then show ?thesis using 1(1,6) c(1) by simp
  qed
qed simp

lemma down_loop:
  assumes "api_ok api svcs" "list_ok api svcs"
    and "CC_ServicePrefix config = pfx" "0 < CC_CacheRefresh config" "\<not> CC_CacheOnly config"
    and "records_ok R" "owned_records pfx R" "two_parts R"
    and "\<forall>c\<in>set cs. delivers R c" "own_ok pfx (svcs w)" "cache_ok a" "\<not> A_Healthy a"
    and "k + 2 \<le> length cs" "CC_CacheRefresh config dvd A_count a + int k"
  shows "\<exists>a' w'. agent_loop api config port cs (a, w) = Some (False, a', w') \<and> registered pfx (svcs w') R \<and>
    (\<forall>i. \<not> owned pfx i \<longrightarrow> svcs w' i = svcs w i)"
  using assms(9-)
proof (induction k arbitrary: a cs)
  case 0
  have "CC_CacheRefresh config \<noteq> 0" using assms(4) by simp
  moreover have "ready_agent svcs config a w" using 0 by (simp add: ready_agent_def)
  ultimately show ?case using 0 by (intro in_step_loop [OF assms(1-3) _ assms(5-8)]) simp_all
next
  case (Suc k)
  have nz: "CC_CacheRefresh config \<noteq> 0" using assms(4) by simp
  show ?case
  proof (cases "CC_CacheRefresh config dvd A_count a")
    case True
    then have "ready_agent svcs config a w" using Suc.prems(4) by (simp add: ready_agent_def)
    then show ?thesis using Suc.prems nz by (intro in_step_loop [OF assms(1-3) _ assms(5-8)]) simp_all
  next
    case False
    obtain c cs' where cs: "cs = c # cs'" using Suc.prems(5) by (cases cs) auto
    obtain ord1 ord2 where c: "c = Received R ord1 ord2" "perm_fun ord1" "perm_fun ord2"
      using Suc.prems(1) cs by (auto simp: delivers_def)
    let ?a = "a\<lparr>A_count := A_count a + 1\<rparr>"
    have "agent_pass api config port ord1 ord2 R (a, w) = Some (?a, w)"
      by (rule agent_pass_down [OF Suc.prems(4) False nz records_ok_wf [OF assms(6)] Suc.prems(3) c(2,3)])
    moreover have "\<exists>a' w'. agent_loop api config port cs' (?a, w) = Some (False, a', w') \<and> registered pfx (svcs w') R \<and>
        (\<forall>i. \<not> owned pfx i \<longrightarrow> svcs w' i = svcs w i)"
      using Suc.prems cs by (intro Suc.IH) (auto simp: cache_ok_def algebra_simps)
    ultimately show ?thesis using c(1) cs by simp
  qed
qed

lemma next_multiple: "0 < (m::int) \<Longrightarrow> \<exists>k::nat. int k < m \<and> m dvd c + int k"
proof (intro exI conjI)
  assume m: "0 < m"
  then show "int (nat ((- c) mod m)) < m" by simp
  have "(c + (- c) mod m) mod m = 0" by (simp add: mod_add_right_eq)
  then show "m dvd c + int (nat ((- c) mod m))" using m by (simp add: dvd_eq_mod_eq_0)
qed

text \<open>Every list of pairs the poller sends is one that Consul returned, or the empty one before.\<close>

lemma poll_loop_sends:
  "poll_loop refresh es (n, kvs) = Some out \<Longrightarrow> set out \<subseteq> insert [] (insert kvs {l. Some l \<in> fst ` set es})"
proof (induction es arbitrary: n kvs out)
  case (Cons e es)
  obtain listed control where e: "e = (listed, control)" by (cases e)
  obtain n' kvs' sends where s: "poll_step refresh listed (n, kvs) = Some ((n', kvs'), sends)"
    "kvs' = [] \<or> kvs' = kvs \<or> Some kvs' = listed"
    using Cons.prems e by (auto simp: bind_eq_Some_conv poll_step_def split: if_splits option.splits)
  have "set out \<subseteq> insert [] (insert kvs' {l. Some l \<in> fst ` set es})"
  proof (cases "poll_loop refresh es (n', kvs')")
    case None
    then show ?thesis using Cons.prems e s by (auto split: if_splits)
  next
    case (Some out')
    then show ?thesis using Cons.IH [OF Some] Cons.prems e s by (auto split: if_splits)
  qed
  then show ?case using s(2) e by auto
qed simp

section \<open>Where the recovery ends\<close>

text \<open>
  A healthy agent adds what Consul lists to its cache but never removes what Consul has lost: a
  service that disappears from Consul (here after the first pass) is not registered again, however
  often its record is delivered.
\<close>

definition demo_deliveries :: "nat \<Rightarrow> select_case list" where
  "demo_deliveries n = replicate n (Received (demo_records 80) id id)"

lemma lost_service_stays_lost:
  "(case agent_loop memory_api consul_NewConfig ''8500'' (demo_deliveries 1) (new_agent ''10.0.0.1'', []) of
      Some (_, a, w) \<Rightarrow> Some (map AS_ID w, map_option (map AS_ID \<circ> snd \<circ> snd)
        (agent_loop memory_api consul_NewConfig ''8500'' (demo_deliveries 9) (a, [])))
    | None \<Rightarrow> None) = Some ([demo_id], Some [])"
  by code_simp

text \<open>
  An agent sends on the error channel for a malformed address only, and \<open>New\<close> starts no agent for
  such an address.
\<close>

lemma started_agent_sends_nothing:
  assumes "consul_New api config rg w = (Started b, w')"
  shows "consulAgent api (B_Config b) addr cs w1 \<noteq> Some (SentError err)"
proof -
  obtain host port e where split: "SplitHostPort (CC_Address config) = (host, port, e)" by (metis surj_pair)
  have "e = None" "B_Config b = config"
    using assms by (auto simp: consul_New_def split Let_def split: option.splits prod.splits if_splits)
  then show ?thesis by (auto simp: consulAgent_def split bind_eq_Some_conv split: option.splits)
qed

section \<open>Properties\<close>

text \<open>C20: the goroutine of a Consul agent never panics, whatever calls to Consul fail and in
  whatever order record sets and the control message arrive: it reports a malformed address, or
  runs on with a cache in which every record is stored under its own identifier. The refresh
  interval must not be zero, and Consul's own identifiers under the prefix must have two parts.\<close>

theorem consulAgent_safe:
  assumes "list_safe api (CC_ServicePrefix config)" "CC_CacheRefresh config \<noteq> 0" "\<forall>c\<in>set cs. case_ok c"
  shows "case SplitHostPort (CC_Address config) of
      (_, _, Some err) \<Rightarrow> consulAgent api config addr cs w = Some (SentError err)
    | (_, port, None) \<Rightarrow> \<exists>returned a w'. consulAgent api config addr cs w = Some (Ran returned a w') \<and> cache_ok a \<and> 0 \<le> A_count a"
proof -
  have "cache_ok (new_agent addr)" "0 \<le> A_count (new_agent addr)" by (simp_all add: new_agent_def cache_ok_def)
  note loop = agent_loop_safe [OF assms this, of _ w]
  obtain host port err where addr: "SplitHostPort (CC_Address config) = (host, port, err)" by (metis surj_pair)
  show ?thesis using loop [of port] by (cases err) (auto simp: consulAgent_def addr)
qed

definition failing_api :: "AgentService list consul_api" where
  "failing_api = memory_api\<lparr>api_Services := (\<lambda>w. (None, w)), api_ServiceRegister := (\<lambda>_ w. (False, w))\<rparr>"

lemma failing_safe: "list_safe failing_api pfx"
  by (simp add: list_safe_def failing_api_def)

lemma demo_records_wf: "\<forall>r\<in>set (demo_records port). wf_rec r"
  by (simp add: demo_records_def wf_rec_def service_rec_def)

lemma demo_case_ok: "\<forall>c\<in>set (demo_deliveries n). case_ok c"
  using demo_records_wf by (simp add: demo_deliveries_def case_ok_def perm_fun_def)

theorem consulAgent_safe_witness:
  "\<exists>a w'. consulAgent failing_api consul_NewConfig ''10.0.0.1'' (demo_deliveries 2) [] =
     Some (Ran False a w') \<and> cache_ok a"
proof -
  have "CC_CacheRefresh consul_NewConfig \<noteq> 0" by (simp add: consul_NewConfig_def)
  moreover have addr: "SplitHostPort (CC_Address consul_NewConfig) = (''127.0.0.1'', ''8500'', None)" by code_simp
  ultimately obtain returned a w' where
    run: "consulAgent failing_api consul_NewConfig ''10.0.0.1'' (demo_deliveries 2) [] = Some (Ran returned a w')" "cache_ok a"
    using consulAgent_safe [where config = consul_NewConfig and addr = "''10.0.0.1''" and w = "[]", OF failing_safe _ demo_case_ok [of 2]]
    by auto
  have "map_option (\<lambda>r. case r of Ran returned _ _ \<Rightarrow> returned | _ \<Rightarrow> True)
      (consulAgent failing_api consul_NewConfig ''10.0.0.1'' (demo_deliveries 2) []) = Some False" by code_simp
  then show ?thesis using run by auto
qed

text \<open>C19: an agent that lost its connection recovers: after any history of failing calls that left it
  disconnected, once the calls to Consul succeed, at most one refresh interval of record sets and
  one more bring exactly the services of the (repeated) record set into Consul under the
  program's prefix; nothing else is touched.\<close>

theorem agent_recovers:
  assumes "list_safe bad (CC_ServicePrefix config)" "\<forall>c\<in>set hist. case_ok c"
    and "agent_loop bad config port hist (new_agent addr, w0) = Some (False, a, w)" "\<not> A_Healthy a"
    and "api_ok api svcs" "list_ok api svcs" "own_ok (CC_ServicePrefix config) (svcs w)"
    and "0 < CC_CacheRefresh config" "\<not> CC_CacheOnly config"
    and "records_ok R" "owned_records (CC_ServicePrefix config) R" "two_parts R"
    and "\<forall>c\<in>set cs. delivers R c" "CC_CacheRefresh config + 1 \<le> int (length cs)"
  shows "\<exists>a' w'. agent_loop api config port cs (a, w) = Some (False, a', w') \<and>
    registered (CC_ServicePrefix config) (svcs w') R \<and>
    (\<forall>i. \<not> owned (CC_ServicePrefix config) i \<longrightarrow> svcs w' i = svcs w i)"
proof -
  have "cache_ok (new_agent addr)" "0 \<le> A_count (new_agent addr)" by (simp_all add: new_agent_def cache_ok_def)
  moreover have "CC_CacheRefresh config \<noteq> 0" using assms(8) by simp
  ultimately have cache: "cache_ok a" using agent_loop_safe [OF assms(1) _ assms(2), of "new_agent addr" port w0] assms(3) by auto
  obtain k where k: "int k < CC_CacheRefresh config" "CC_CacheRefresh config dvd A_count a + int k"
    using next_multiple [OF assms(8)] by blast
  show ?thesis
    using k assms(14) by (intro down_loop [OF assms(5,6) refl assms(8-13,7) cache assms(4), of k]) simp_all
qed

theorem agent_recovers_witness:
  "\<exists>a w a' w'. agent_loop failing_api consul_NewConfig ''8500'' (demo_deliveries 1) (new_agent ''10.0.0.1'', []) = Some (False, a, w) \<and>
     \<not> A_Healthy a \<and> agent_loop memory_api consul_NewConfig ''8500'' (demo_deliveries 4) (a, w) = Some (False, a', w') \<and>
     (\<exists>s. memory_services w' demo_id = Some s)"
proof -
  have fail: "map_option (\<lambda>(returned, a, w). (returned, A_Healthy a, w))
      (agent_loop failing_api consul_NewConfig ''8500'' (demo_deliveries 1) (new_agent ''10.0.0.1'', [])) = Some (False, False, [])"
    by code_simp
  then obtain a where hist: "agent_loop failing_api consul_NewConfig ''8500'' (demo_deliveries 1) (new_agent ''10.0.0.1'', [])
      = Some (False, a, [])" "\<not> A_Healthy a" by auto
  have own: "own_ok (CC_ServicePrefix consul_NewConfig) (memory_services [])"
    using demo_id_facts(3) by (simp add: own_ok_def memory_services_def demo_prefix_def)
  have refresh: "0 < CC_CacheRefresh consul_NewConfig" "CC_CacheRefresh consul_NewConfig + 1 \<le> int (length (demo_deliveries 4))"
    by (simp_all add: consul_NewConfig_def demo_deliveries_def)
  have cs: "\<forall>c\<in>set (demo_deliveries 4). delivers (demo_records 80) c" by (simp add: demo_deliveries_def delivers_def perm_fun_def)
  from agent_recovers [OF failing_safe demo_case_ok hist memory_api_ok own refresh(1) demo_consul_config(3) demo_records_facts(1)
      _ demo_records_facts(3) cs refresh(2), unfolded demo_consul_config(1), OF demo_records_facts(2)]
  obtain a' w' where run: "agent_loop memory_api consul_NewConfig ''8500'' (demo_deliveries 4) (a, []) = Some (False, a', w')"
    "registered demo_prefix (memory_services w') (demo_records 80)" by blast
  moreover have "\<exists>s. memory_services w' demo_id = Some s"
    using run(2) demo_records_facts(4,5) [of 80] by (auto simp: registered_def demo_records_def)
  ultimately show ?thesis using hist by blast
qed

end
