(* ===== verification/Consul_Service.thy ===== *)
theory Consul_Service
  imports Consul_Dispatch Consul_Loop
begin

text \<open>
  From a Mesos state to Consul: the records a reload generates are of the kind the agents expect,
  and a running task ends up as a service of the Consul agent on its slave's host.
\<close>

section \<open>Identifiers\<close>

lemma Split_Join_prefix:
  assumes "c \<notin> set pfx"
  shows "hd (Split (Join (pfx # x # xs) [c]) [c]) = pfx" "1 < length (Split (Join (pfx # x # xs) [c]) [c])"
proof -
  have "Split (Join (pfx # x # xs) [c]) [c] = pfx # Split (Join (x # xs) [c]) [c]"
    using Split_append [OF assms, of "Join (x # xs) [c]"] by simp
  moreover have "Split (Join (x # xs) [c]) [c] \<noteq> []" by simp
  ultimately show "hd (Split (Join (pfx # x # xs) [c]) [c]) = pfx" "1 < length (Split (Join (pfx # x # xs) [c]) [c])" by simp_all
qed

text \<open>A service record of the program: its identifier starts with the prefix, and no tag occurs twice.\<close>

definition own_service :: "string \<Rightarrow> Record \<Rightarrow> bool" where
  "own_service pfx r \<longleftrightarrow> service_rec r \<and> (\<exists>x xs. rid r = Join (pfx # x # xs) '':'') \<and> tags_ok r"

lemma own_serviceD:
  assumes "own_service pfx r" "CHR '':'' \<notin> set pfx"
  shows "wf_rec r" "owned pfx (rid r)" "1 < length (Split (rid r) '':'')" "rid r \<noteq> []"
proof -
  obtain x xs where r: "rid r = Join (pfx # x # xs) '':''" using assms(1) by (auto simp: own_service_def)
  show "wf_rec r" using assms(1) by (simp add: own_service_def wf_rec_def)
  show "owned pfx (rid r)" "1 < length (Split (rid r) '':'')"
    unfolding owned_def r using Split_Join_prefix [OF assms(2)] by blast+
  then show "rid r \<noteq> []" by auto
qed

text \<open>The tags of a slave's service are its host name and three words: the host name must be none of these.\<close>

definition plain_host :: "Slave \<Rightarrow> bool" where
  "plain_host slave \<longleftrightarrow> hd (Split (Slave_Hostname slave) ''.'') \<notin> {''slave'', ''master'', ''leader''}"

lemma mesos_slave_record_own:
  assumes "mesos_slave_record leader pfx slave = Some (r, i)" "plain_host slave"
  shows "own_service pfx r" "i = \<lparr>SI_Address = UPID_Host (the (Slave_PID slave)), SI_Hostname = hd (Split (Slave_Hostname slave) ''.''),
    SI_ID = Slave_ID slave\<rparr>"
proof -
  obtain pid where pid: "Slave_PID slave = Some pid" using assms(1) by (auto simp: mesos_slave_record_def bind_eq_Some_conv)
  show "i = \<lparr>SI_Address = UPID_Host (the (Slave_PID slave)), SI_Hostname = hd (Split (Slave_Hostname slave) ''.''), SI_ID = Slave_ID slave\<rparr>"
    using assms(1) pid by (auto simp: mesos_slave_record_def Let_def)
  have "rid r = Join [pfx, Slave_ID slave] '':''" "service_rec r" "tags_ok r"
    using assms pid by (auto simp: mesos_slave_record_def Let_def rid_def service_rec_def tags_ok_def plain_host_def)
  then show "own_service pfx r" unfolding own_service_def by blast
qed

lemma generateMesosRecords_own:
  assumes "generateMesosRecords rg pfx = Some (ms, infos)" "\<forall>s\<in>set (State_Slaves (RG_State rg)). plain_host s"
  shows "\<forall>r\<in>set ms. own_service pfx r"
proof
  fix r assume r: "r \<in> set ms"
  obtain leader rs where rs: "map_opt (mesos_slave_record leader pfx) (State_Slaves (RG_State rg)) = Some rs" "ms = map fst rs"
    using assms(1) by (auto simp: generateMesosRecords_def bind_eq_Some_conv)
  then obtain i slave where "slave \<in> set (State_Slaves (RG_State rg))" "mesos_slave_record leader pfx slave = Some (r, i)"
    using r unfolding map_opt_Some_conv by (auto dest: list_all2_rightD)
  then show "own_service pfx r" using mesos_slave_record_own(1) assms(2) by blast
qed

section \<open>Slave information\<close>

lemma fold_update_out:
  "k \<notin> SI_ID ` set is \<Longrightarrow> map_of (fold (\<lambda>i m. AList.update (SI_ID i) i m) is m) k = map_of m k"
  by (induction "is" arbitrary: m) (auto simp: update_conv')

lemma fold_update_in:
  "distinct (map SI_ID is) \<Longrightarrow> i \<in> set is \<Longrightarrow> map_of (fold (\<lambda>i m. AList.update (SI_ID i) i m) is m) (SI_ID i) = Some i"
  by (induction "is" arbitrary: m) (auto simp: update_conv' fold_update_out)

lemma generateMesosRecords_info:
  assumes "generateMesosRecords rg pfx = Some (ms, infos)" "distinct (map Slave_ID (State_Slaves (RG_State rg)))"
    and "\<forall>s\<in>set (State_Slaves (RG_State rg)). plain_host s" "slave \<in> set (State_Slaves (RG_State rg))" "Slave_PID slave = Some u"
  shows "map_of infos (Slave_ID slave) =
    Some \<lparr>SI_Address = UPID_Host u, SI_Hostname = hd (Split (Slave_Hostname slave) ''.''), SI_ID = Slave_ID slave\<rparr>"
proof -
  obtain leader rs where rs: "list_all2 (\<lambda>s r. mesos_slave_record leader pfx s = Some r) (State_Slaves (RG_State rg)) rs"
    and infos: "infos = fold (\<lambda>i m. AList.update (SI_ID i) i m) (map snd rs) []"
    using assms(1) by (auto simp: generateMesosRecords_def bind_eq_Some_conv map_opt_Some_conv)
  have "list_all2 (\<lambda>s r. SI_ID (snd r) = Slave_ID s) (State_Slaves (RG_State rg)) rs"
    using rs assms(3) mesos_slave_record_own(2) by (fastforce elim!: list.rel_mono_strong)
  then have ids: "map SI_ID (map snd rs) = map Slave_ID (State_Slaves (RG_State rg))"
    by (induction rule: list_all2_induct) auto
  obtain r i where r: "(r, i) \<in> set rs" "mesos_slave_record leader pfx slave = Some (r, i)"
    using list_all2_leftD [OF rs assms(4)] by auto
  have "plain_host slave" using assms(3,4) by blast
  then have i: "i = \<lparr>SI_Address = UPID_Host u, SI_Hostname = hd (Split (Slave_Hostname slave) ''.''), SI_ID = Slave_ID slave\<rparr>"
    using mesos_slave_record_own(2) [OF r(2)] assms(5) by simp
  have "i \<in> set (map snd rs)" using r(1) by force
  from fold_update_in [OF _ this] ids assms(2) show ?thesis unfolding infos by (simp add: i)
qed

section \<open>Task records\<close>

lemma check_records_kind: "r \<in> set (check_records unmarshal kvPairs task ident address port) \<Longrightarrow> check_rec r"
  by (auto simp: check_records_def check_rec_def split: prod.splits option.splits)

definition task_service :: "string \<Rightarrow> (string \<times> SlaveInfo) list \<Rightarrow> Task \<Rightarrow> string \<Rightarrow> string \<Rightarrow> AgentServiceRegistration" where
  "task_service pfx infos task address port =
     CreateService (Join [pfx, Task_SlaveID task, Task_ID task, port] '':'') (Task_Name task) address port
       (case map_of infos (Task_SlaveID task) of Some slave \<Rightarrow> [SI_Hostname slave] | None \<Rightarrow> [])"

definition task_service_record :: "string \<Rightarrow> (string \<times> SlaveInfo) list \<Rightarrow> Task \<Rightarrow> string \<Rightarrow> string \<Rightarrow> Record" where
  "task_service_record pfx infos task address port =
     \<lparr>Rec_Action = ''add'', Rec_Address = address, Rec_SlaveID = Task_SlaveID task, Rec_Type = ''service'',
      Rec_Service = Some (task_service pfx infos task address port), Rec_Check = None\<rparr>"

lemma port_records_eq:
  "port_records unmarshal kvPairs pfx infos task address port = task_service_record pfx infos task address port #
     check_records unmarshal kvPairs task (Join [pfx, Task_SlaveID task, Task_ID task, port] '':'') address port"
  by (simp add: port_records_def task_service_record_def task_service_def Let_def)

lemma task_service_record_own: "own_service pfx (task_service_record pfx infos task address port)"
proof -
  have "rid (task_service_record pfx infos task address port) = Join (pfx # Task_SlaveID task # [Task_ID task, port]) '':''"
    by (simp add: rid_def task_service_record_def task_service_def)
  moreover have "tags_ok (task_service_record pfx infos task address port)"
    by (simp add: tags_ok_def task_service_record_def task_service_def split: option.split)
  moreover have "service_rec (task_service_record pfx infos task address port)"
    by (simp add: service_rec_def task_service_record_def)
  ultimately show ?thesis unfolding own_service_def by blast
qed

lemma task_services_kinds:
  assumes "task_services unmarshal kvPairs pfx infos srcs task = Some rs" "r \<in> set rs"
  shows "own_service pfx r \<or> check_rec r"
  using assms task_service_record_own check_records_kind
  by (fastforce simp: task_services_def port_records_eq bind_eq_Some_conv Let_def split: if_splits)

lemma generateTaskRecords_kinds:
  assumes "generateTaskRecords unmarshal rg pfx infos kvPairs skip = Some ts" "r \<in> set ts"
  shows "own_service pfx r \<or> check_rec r"
proof -
  obtain tasks rss where rss: "list_all2 (\<lambda>task rs. task_services unmarshal kvPairs pfx infos (consul_sources (RG_Config rg)) task = Some rs) tasks rss"
    "ts = concat rss" using assms(1) by (auto simp: generateTaskRecords_def map_opt_Some_conv)
  then obtain rs where "rs \<in> set rss" "r \<in> set rs" using assms(2) by auto
  then show ?thesis using list_all2_rightD [OF rss(1)] task_services_kinds by blast
qed

text \<open>The ports a task is registered with: its ports, or the port 0 when it has none.\<close>

definition service_ports :: "string list \<Rightarrow> string list" where
  "service_ports ports = (if ports = [] then [''0''] else ports)"

lemma generateTaskRecords_service:
  assumes "generateTaskRecords unmarshal rg pfx infos kvPairs skip = Some ts"
    and "f \<in> set (State_Frameworks (RG_State rg))" "skip \<longrightarrow> Framework_Active f" "task \<in> set (Framework_Tasks f)"
    and "Task_State task = ''TASK_RUNNING''" "map_of infos (Task_SlaveID task) = Some info"
    and "getAddress task (consul_sources (RG_Config rg)) (SI_Address info) = Some address" "address \<noteq> []"
    and "Ports (Task_Resources task) = Some ports" "port \<in> set (service_ports ports)"
  shows "task_service_record pfx infos task address port \<in> set ts"
proof -
  let ?src = "consul_sources (RG_Config rg)"
  let ?tasks = "concat (map Framework_Tasks (filter (\<lambda>f. \<not> (skip \<and> \<not> Framework_Active f)) (State_Frameworks (RG_State rg))))"
  obtain rss where rss: "list_all2 (\<lambda>task rs. task_services unmarshal kvPairs pfx infos ?src task = Some rs) ?tasks rss" "ts = concat rss"
    using assms(1) by (auto simp: generateTaskRecords_def map_opt_Some_conv)
  have "task \<in> set ?tasks" using assms(2-4) by auto
  then obtain rs where rs: "rs \<in> set rss" "task_services unmarshal kvPairs pfx infos ?src task = Some rs"
    using list_all2_leftD [OF rss(1)] by blast
  have "rs = concat (map (port_records unmarshal kvPairs pfx infos task address) (service_ports ports))"
    using rs(2) assms(5-9) by (auto simp: task_services_def service_ports_def)
  then have "task_service_record pfx infos task address port \<in> set rs" using assms(10) by (auto simp: port_records_eq)
  then show ?thesis using rs(1) rss(2) by auto
qed

section \<open>What an agent is sent\<close>

text \<open>Generated records are fit for an agent, provided identifiers are not repeated and checks have names of their own.\<close>

definition checks_apart :: "string \<Rightarrow> Record list \<Rightarrow> bool" where
  "checks_apart pfx R \<longleftrightarrow> distinct (map rid R) \<and> (\<forall>r\<in>set R. check_rec r \<longrightarrow> rid r \<noteq> [] \<and> \<not> owned pfx (rid r))"

lemma generated_records_ok:
  assumes "\<forall>r\<in>set R. own_service pfx r \<or> check_rec r" "checks_apart pfx R" "CHR '':'' \<notin> set pfx"
  shows "records_ok R" "owned_records pfx R" "two_parts R"
proof -
  have check: "\<not> service_rec r" "wf_rec r" "tags_ok r" if "check_rec r" for r
    using that by (auto simp: check_rec_def service_rec_def wf_rec_def tags_ok_def)
  have own: "service_rec r" "tags_ok r" if "own_service pfx r" for r using that by (simp_all add: own_service_def)
  note ownD = own_serviceD [OF _ assms(3)]
  show "records_ok R" using assms(1,2) check own ownD unfolding records_ok_def checks_apart_def by blast
  show "owned_records pfx R" using assms(1,2) check own ownD unfolding owned_records_def checks_apart_def by blast
  show "two_parts R" using assms(1) check ownD unfolding two_parts_def by blast
qed

text \<open>A reload sends the records of a slave to the agent on its host.\<close>

lemma reload_slave_set:
  assumes "consul_Reload unmarshal kvPairs rg b = (b', Some out)" "[] \<notin> B_Agents b"
    and "distinct (map Slave_ID (State_Slaves (RG_State rg)))" "slave \<in> set (State_Slaves (RG_State rg))"
    and "Slave_PID slave = Some u" "UPID_Host u \<in> B_Agents b"
  obtains ms infos ts where "generateMesosRecords rg (CC_ServicePrefix (B_Config b)) = Some (ms, infos)"
    "generateTaskRecords unmarshal rg (CC_ServicePrefix (B_Config b)) infos kvPairs (CC_SkipInactiveFrameworks (B_Config b)) = Some ts"
    "(UPID_Host u, filter (\<lambda>r. Rec_SlaveID r = Slave_ID slave) (ms @ ts)) \<in> set out"
proof -
  from consul_Reload_sets [OF assms(1,2)] obtain ms infos ts where
    gen: "generateMesosRecords rg (CC_ServicePrefix (B_Config b)) = Some (ms, infos)"
      "generateTaskRecords unmarshal rg (CC_ServicePrefix (B_Config b)) infos kvPairs (CC_SkipInactiveFrameworks (B_Config b)) = Some ts"
    and from_slave: "\<forall>addr rs. (addr, rs) \<in> set out \<longrightarrow> addr \<in> B_Agents b \<and>
       (\<exists>slave\<in>set (State_Slaves (RG_State rg)). map_option UPID_Host (Slave_PID slave) = Some addr \<and>
          rs = filter (\<lambda>r. Rec_SlaveID r = Slave_ID slave) (ms @ ts))"
    and to_agent: "\<forall>slave\<in>set (State_Slaves (RG_State rg)). \<forall>u. Slave_PID slave = Some u \<longrightarrow> UPID_Host u \<in> B_Agents b \<longrightarrow>
       (\<exists>addr. (addr, filter (\<lambda>r. Rec_SlaveID r = Slave_ID slave) (ms @ ts)) \<in> set out)"
    by blast
  let ?R = "filter (\<lambda>r. Rec_SlaveID r = Slave_ID slave) (ms @ ts)"
  obtain addr where addr: "(addr, ?R) \<in> set out" using to_agent assms(4-6) by blast
  then obtain slave' where s': "slave' \<in> set (State_Slaves (RG_State rg))" "map_option UPID_Host (Slave_PID slave') = Some addr"
    "?R = filter (\<lambda>r. Rec_SlaveID r = Slave_ID slave') (ms @ ts)" using from_slave by blast
  obtain r where r: "r \<in> set ms" "Rec_SlaveID r = Slave_ID slave"
    using list_all2_leftD [OF generateMesosRecords_slaves [OF gen(1)] assms(4)] by blast
  then have "r \<in> set ?R" by simp
  then have "Slave_ID slave' = Slave_ID slave" unfolding s'(3) using r(2) by auto
  then have "slave' = slave" using assms(3,4) s'(1) by (auto simp: distinct_map dest: inj_onD)
  then show ?thesis using that [OF gen] addr s'(2) assms(5) by simp
qed

text \<open>What Consul's comparison of services tells about the service of a task.\<close>

lemma task_service_compared:
  assumes "map_of infos (Task_SlaveID task) = Some \<lparr>SI_Address = a, SI_Hostname = h, SI_ID = i\<rparr>"
    and "compareService s (task_service pfx infos task address port)"
  shows "ASR_Address s = address \<and> ASR_Port s = (case Atoi port of (n, None) \<Rightarrow> n | _ \<Rightarrow> 0) \<and>
    ASR_Name s = ToLower (ReplaceAll (replace_nonword (Task_Name task)) ''_'' []) \<and> ASR_Tags s = [h]"
  using assms
  by (auto simp: compareService_def task_service_def CreateService_def length_Suc_conv split: prod.splits option.splits if_splits)

text \<open>A new agent that is sent the same records at least twice registers each of their services.\<close>

lemma new_agent_registers:
  assumes "api_ok api svcs" "list_ok api svcs" "pfx = CC_ServicePrefix config"
    and "0 < CC_CacheRefresh config" "\<not> CC_CacheOnly config" "records_ok R" "owned_records pfx R" "two_parts R"
    and "2 \<le> length cs" "\<forall>c\<in>set cs. delivers R c" "own_ok pfx (svcs w)" "r \<in> set R" "service_rec r"
  shows "\<exists>a' w' s. agent_loop api config aport cs (new_agent addr, w) = Some (False, a', w') \<and>
    svcs w' (rid r) = Some s \<and> compareService s (the (Rec_Service r))"
proof -
  have "ready_agent svcs config (new_agent addr) w" by (simp add: ready_agent_def new_agent_def)
  moreover have "CC_CacheRefresh config \<noteq> 0" using assms(4) by simp
  ultimately obtain a' w' where "agent_loop api config aport cs (new_agent addr, w) = Some (False, a', w')" "registered pfx (svcs w') R"
    using in_step_loop [OF assms(1,2) assms(3) [symmetric] _ assms(5-8,10,11)] assms(9) by blast
  then show ?thesis using assms(12,13) unfolding registered_def by metis
qed

section \<open>Property\<close>

text \<open>C18: a running task becomes a service of Consul: a reload sends the records of a slave to the agent
  on the slave's host, and once that agent, newly started, has been sent them twice (or more often),
  with calls that succeed, Consul lists each port of each running task of the slave under the
  identifier made of the prefix, the slave, the task and the port, with the address the configured
  sources give for the task, the port's number, the mangled task name and the slave's host
  name as its only tag. Slave identifiers must be unique, identifiers of records must not be
  repeated, and health checks must not take the prefix.\<close>

theorem task_registered:
  assumes "consul_Reload unmarshal kvPairs rg b = (b', Some out)" "[] \<notin> B_Agents b"
    and pfx: "pfx = CC_ServicePrefix (B_Config b)" "CHR '':'' \<notin> set pfx" "pfx \<noteq> []"
    and "0 < CC_CacheRefresh (B_Config b)" "\<not> CC_CacheOnly (B_Config b)"
    and "distinct (map Slave_ID (State_Slaves (RG_State rg)))" "\<forall>s\<in>set (State_Slaves (RG_State rg)). plain_host s"
    and "slave \<in> set (State_Slaves (RG_State rg))" "Slave_PID slave = Some u" "UPID_Host u \<in> B_Agents b"
    and "f \<in> set (State_Frameworks (RG_State rg))" "CC_SkipInactiveFrameworks (B_Config b) \<longrightarrow> Framework_Active f"
    and "task \<in> set (Framework_Tasks f)" "Task_State task = ''TASK_RUNNING''" "Task_SlaveID task = Slave_ID slave"
    and "getAddress task (consul_sources (RG_Config rg)) (UPID_Host u) = Some address" "address \<noteq> []"
    and "Ports (Task_Resources task) = Some ports" "port \<in> set (service_ports ports)"
    and "\<forall>addr R. (addr, R) \<in> set out \<longrightarrow> checks_apart pfx R"
    and "api_ok api svcs" "list_ok api svcs" "own_ok pfx (svcs w)"
  shows "\<exists>R. (UPID_Host u, R) \<in> set out \<and>
    (\<forall>cs. 2 \<le> length cs \<longrightarrow> (\<forall>c\<in>set cs. delivers R c) \<longrightarrow>
      (\<exists>a' w' s. agent_loop api (B_Config b) aport cs (new_agent (UPID_Host u), w) = Some (False, a', w') \<and>
        svcs w' (Join [pfx, Slave_ID slave, Task_ID task, port] '':'') = Some s \<and>
        ASR_Address s = address \<and> ASR_Port s = (case Atoi port of (n, None) \<Rightarrow> n | _ \<Rightarrow> 0) \<and>
        ASR_Name s = ToLower (ReplaceAll (replace_nonword (Task_Name task)) ''_'' []) \<and>
        ASR_Tags s = [hd (Split (Slave_Hostname slave) ''.'')]))"
proof -
  obtain ms infos ts where gen: "generateMesosRecords rg pfx = Some (ms, infos)"
    "generateTaskRecords unmarshal rg pfx infos kvPairs (CC_SkipInactiveFrameworks (B_Config b)) = Some ts"
    and out: "(UPID_Host u, filter (\<lambda>r. Rec_SlaveID r = Slave_ID slave) (ms @ ts)) \<in> set out"
    using reload_slave_set [OF assms(1,2,8,10-12)] unfolding pfx(1) by blast
  let ?R = "filter (\<lambda>r. Rec_SlaveID r = Slave_ID slave) (ms @ ts)"
  let ?info = "\<lparr>SI_Address = UPID_Host u, SI_Hostname = hd (Split (Slave_Hostname slave) ''.''), SI_ID = Slave_ID slave\<rparr>"
  have info: "map_of infos (Task_SlaveID task) = Some ?info"
    using generateMesosRecords_info [OF gen(1) assms(8,9,10,11)] assms(17) by simp
  let ?r = "task_service_record pfx infos task address port"
  have "?r \<in> set ts"
    by (rule generateTaskRecords_service [OF gen(2) assms(13-16) info _ assms(19-21)]) (simp add: assms(18))
  then have r: "?r \<in> set ?R" using assms(17) by (simp add: task_service_record_def)
  have "\<forall>r\<in>set ?R. own_service pfx r \<or> check_rec r"
    using generateMesosRecords_own [OF gen(1) assms(9)] generateTaskRecords_kinds [OF gen(2)] by auto
  moreover have "checks_apart pfx ?R" using assms(22) out by blast
  ultimately have R: "records_ok ?R" "owned_records pfx ?R" "two_parts ?R" by (rule generated_records_ok [OF _ _ pfx(2)])+
  have id: "service_rec ?r" "rid ?r = Join [pfx, Slave_ID slave, Task_ID task, port] '':''"
    "the (Rec_Service ?r) = task_service pfx infos task address port"
    using assms(17) by (simp_all add: service_rec_def rid_def task_service_record_def task_service_def)
  have "\<exists>a' w' s. agent_loop api (B_Config b) aport cs (new_agent (UPID_Host u), w) = Some (False, a', w') \<and>
        svcs w' (Join [pfx, Slave_ID slave, Task_ID task, port] '':'') = Some s \<and>
        ASR_Address s = address \<and> ASR_Port s = (case Atoi port of (n, None) \<Rightarrow> n | _ \<Rightarrow> 0) \<and>
        ASR_Name s = ToLower (ReplaceAll (replace_nonword (Task_Name task)) ''_'' []) \<and>
        ASR_Tags s = [hd (Split (Slave_Hostname slave) ''.'')]"
    if cs: "2 \<le> length cs" "\<forall>c\<in>set cs. delivers ?R c" for cs
    using new_agent_registers [OF assms(23,24) pfx(1) assms(6,7) R cs assms(25) r id(1), of aport "UPID_Host u"] task_service_compared [OF info]
    unfolding id(2,3) by blast
  then show ?thesis using out by blast
qed

definition demo_service_task :: Task where
  "demo_service_task = \<lparr>Task_FrameworkID = ''fw'', Task_ID = ''web.1'', Task_Name = ''Web_App'', Task_SlaveID = ''s-1'',
     Task_State = ''TASK_RUNNING'', Task_Statuses = [], Task_Resources = \<lparr>PortRanges = ''[80-81]''\<rparr>,
     Task_DiscoveryInfo = \<lparr>DiscoveryInfo_Visibilty = [], DiscoveryInfo_Version = [], DiscoveryInfo_Name = [],
       DiscoveryInfo_Location = [], DiscoveryInfo_Environment = [], DiscoveryInfo_Labels = [], DiscoveryInfo_Ports = []\<rparr>,
     Task_SlaveIP = [], Task_Labels = []\<rparr>"

definition demo_service_framework :: Framework where
  "demo_service_framework = \<lparr>Framework_Tasks = [demo_service_task], Framework_PID = None, Framework_Name = ''marathon'',
     Framework_Hostname = [], Framework_Active = True\<rparr>"

definition demo_service_rg :: RecordGenerator where
  "demo_service_rg = demo_agent_rg\<lparr>RG_State := (RG_State demo_agent_rg)\<lparr>State_Frameworks := [demo_service_framework]\<rparr>\<rparr>"

abbreviation demo_service_reload :: "Backend \<times> (string \<times> Record list) list option" where
  "demo_service_reload \<equiv> consul_Reload (\<lambda>_ c. (c, True)) [] demo_service_rg demo_backend"

lemma demo_service_out:
  "(case snd demo_service_reload of None \<Rightarrow> False
    | Some out \<Rightarrow> list_all (\<lambda>(_, R). distinct (map rid R) \<and> list_all (\<lambda>r. \<not> check_rec r) R) out)"
  by code_simp

theorem task_registered_witness:
  "\<exists>b' out R. demo_service_reload = (b', Some out) \<and> (''10.0.0.2'', R) \<in> set out \<and>
     (\<exists>a' w' s. agent_loop memory_api consul_NewConfig ''8500'' [Received R id id, Received R rev id] (new_agent ''10.0.0.2'', [])
         = Some (False, a', w') \<and>
       memory_services w' ''mesos-dns:s-1:web.1:80'' = Some s \<and> ASR_Address s = ''10.0.0.2'' \<and> ASR_Port s = 80 \<and>
       ASR_Name s = ''webapp'')"
proof -
  obtain b' out where reload: "demo_service_reload = (b', Some out)"
    using demo_service_out by (cases demo_service_reload) (auto split: option.splits)
  have apart: "\<forall>addr R. (addr, R) \<in> set out \<longrightarrow> checks_apart demo_prefix R"
    using demo_service_out reload by (auto simp: list_all_iff checks_apart_def)
  have cfg: "B_Config demo_backend = consul_NewConfig" "B_Agents demo_backend = {''10.0.0.2''}" by (simp_all add: demo_backend_def)
  have pfx: "demo_prefix = CC_ServicePrefix (B_Config demo_backend)" "CHR '':'' \<notin> set demo_prefix" "demo_prefix \<noteq> []"
    by (simp_all add: cfg demo_prefix_def consul_NewConfig_def)
  have refresh: "0 < CC_CacheRefresh (B_Config demo_backend)" "\<not> CC_CacheOnly (B_Config demo_backend)"
    by (simp_all add: cfg consul_NewConfig_def)
  have st: "State_Slaves (RG_State demo_service_rg) = [demo_agent_slave]"
    "State_Frameworks (RG_State demo_service_rg) = [demo_service_framework]"
    by (simp_all add: demo_service_rg_def demo_agent_rg_def)
  have slave: "Slave_PID demo_agent_slave = Some \<lparr>UPID_ID = ''slave(1)'', UPID_Host = ''10.0.0.2'', UPID_Port = ''5051''\<rparr>"
    "Slave_ID demo_agent_slave = ''s-1''" by (simp_all add: demo_agent_slave_def)
  have host: "plain_host demo_agent_slave" by code_simp
  have f: "Framework_Tasks demo_service_framework = [demo_service_task]" "Framework_Active demo_service_framework"
    by (simp_all add: demo_service_framework_def)
  have task: "Task_State demo_service_task = ''TASK_RUNNING''" "Task_SlaveID demo_service_task = ''s-1''"
    "Task_ID demo_service_task = ''web.1''" "Task_Name demo_service_task = ''Web_App''" by (simp_all add: demo_service_task_def)
  have addr: "getAddress demo_service_task (consul_sources (RG_Config demo_service_rg)) ''10.0.0.2'' = Some ''10.0.0.2''" by code_simp
  have ports: "Ports (Task_Resources demo_service_task) = Some [''80'', ''81'']" "''80'' \<in> set (service_ports [''80'', ''81''])"
    by code_simp+
  have own: "own_ok demo_prefix (memory_services [])" using pfx(3) by (simp add: own_ok_def memory_services_def)
  have eval: "Atoi ''80'' = (80, None)" "ToLower (ReplaceAll (replace_nonword ''Web_App'') ''_'' []) = ''webapp''"
    "Join [demo_prefix, ''s-1'', ''web.1'', ''80''] '':'' = ''mesos-dns:s-1:web.1:80''" by code_simp+
  let ?u = "\<lparr>UPID_ID = ''slave(1)'', UPID_Host = ''10.0.0.2'', UPID_Port = ''5051''\<rparr>"
  have "\<exists>R. (UPID_Host ?u, R) \<in> set out \<and>
    (\<forall>cs. 2 \<le> length cs \<longrightarrow> (\<forall>c\<in>set cs. delivers R c) \<longrightarrow>
      (\<exists>a' w' s. agent_loop memory_api (B_Config demo_backend) ''8500'' cs (new_agent (UPID_Host ?u), []) = Some (False, a', w') \<and>
        memory_services w' (Join [demo_prefix, Slave_ID demo_agent_slave, Task_ID demo_service_task, ''80''] '':'') = Some s \<and>
        ASR_Address s = ''10.0.0.2'' \<and> ASR_Port s = (case Atoi ''80'' of (n, None) \<Rightarrow> n | _ \<Rightarrow> 0) \<and>
        ASR_Name s = ToLower (ReplaceAll (replace_nonword (Task_Name demo_service_task)) ''_'' []) \<and>
        ASR_Tags s = [hd (Split (Slave_Hostname demo_agent_slave) ''.'')]))" (is "\<exists>R. _ \<and> (\<forall>cs. _ \<longrightarrow> _ \<longrightarrow> ?C cs)")
    by (rule task_registered [where f = demo_service_framework, OF reload _ pfx refresh _ _ _ slave(1) _ _ _ _ task(1) _ _ _ ports apart memory_api_ok own])
      (simp_all add: st cfg slave host f task addr)
  then obtain R where R: "(UPID_Host ?u, R) \<in> set out" "\<forall>cs. 2 \<le> length cs \<longrightarrow> (\<forall>c\<in>set cs. delivers R c) \<longrightarrow> ?C cs"
    by blast
  have "?C [Received R id id, Received R rev id]"
    by (rule R(2) [rule_format]) (auto simp: delivers_def perm_fun_def)
  from this [unfolded cfg slave task eval] show ?thesis using reload R(1) by auto
qed

end
