(* ===== verification/Consul_Pipeline.thy ===== *)
theory Consul_Pipeline
  imports Consul_Service
begin

text \<open>The goroutines of a Consul reload (\<open>Reload\<close>, \<open>Dispatch\<close> of
  \<open>resolvers/consul/consul.go\<close> and the three generators of
  \<open>resolvers/consul/parser.go\<close>) with the unbuffered channels between them: a sender and
  its receiver move together, any pair that can move may move next. They compute what
  \<open>consul_Reload\<close> does and never wait for one another for ever. The record sets they hand
  to the agents are sent by goroutines of their own, which may be overtaken.\<close>

section \<open>The goroutines\<close>

text \<open>
  Where the generators and the dispatcher are. The generator of Mesos records closes its channel
  before it hands the slaves to the generator of task records, which then asks the poller for the
  health checks. The dispatcher drains one channel after the other.
\<close>

datatype mesos_pc = M_Sending "Record list" | M_Closed | M_Done

datatype task_pc = T_WaitInfo | T_WaitKV "(string \<times> SlaveInfo) list" | T_Sending "Record list" | T_Closed

datatype frameworks_pc = F_Sending "Record list" | F_Closed

datatype dispatch_pc = D_Mesos | D_Frameworks | D_Tasks | D_Emitted

record pipeline =
  pl_mesos :: mesos_pc
  pl_frameworks :: frameworks_pc
  pl_tasks :: task_pc
  pl_pc :: dispatch_pc
  pl_dispatch :: dispatch

text \<open>What the goroutines of one reload are started with.\<close>

record reload_args =
  ra_unmarshal :: json_check
  ra_kvs :: "KVPair list"
  ra_rg :: RecordGenerator
  ra_backend :: Backend

abbreviation ra_prefix :: "reload_args \<Rightarrow> string" where
  "ra_prefix p \<equiv> CC_ServicePrefix (B_Config (ra_backend p))"

abbreviation ra_skip :: "reload_args \<Rightarrow> bool" where
  "ra_skip p \<equiv> CC_SkipInactiveFrameworks (B_Config (ra_backend p))"

text \<open>\<open>Reload\<close> starts them; a generator that panics ends the process.\<close>

definition pipeline_start :: "reload_args \<Rightarrow> (pipeline \<times> (string \<times> SlaveInfo) list) option" where
  "pipeline_start p = do {
     (ms, infos) \<leftarrow> generateMesosRecords (ra_rg p) (ra_prefix p);
     Some (\<lparr>pl_mesos = M_Sending ms, pl_frameworks = F_Sending (generateFrameworkRecords (ra_rg p) (ra_prefix p) (ra_skip p)),
            pl_tasks = T_WaitInfo, pl_pc = D_Mesos, pl_dispatch = \<lparr>D_consulAgent = [], D_records = [], D_slaveLookup = []\<rparr>\<rparr>, infos) }"

text \<open>
  The steps: a record received by the dispatcher from one of the generators, the closing of a
  channel, the slaves and the health checks received by the generator of task records (the poller
  offers them again and again), and the end of a loop of the dispatcher over a closed channel.
\<close>

inductive pipeline_step :: "reload_args \<Rightarrow> (string \<times> SlaveInfo) list \<Rightarrow> pipeline \<Rightarrow> pipeline \<Rightarrow> bool"
  for p :: reload_args and infos :: "(string \<times> SlaveInfo) list" where
  mesos_record: "pl_mesos x = M_Sending (r # rs) \<Longrightarrow> pl_pc x = D_Mesos \<Longrightarrow>
    dispatch_mesos (B_Agents (ra_backend p)) r (pl_dispatch x) = Some d \<Longrightarrow>
    pipeline_step p infos x (x\<lparr>pl_mesos := M_Sending rs, pl_dispatch := d\<rparr>)"
| mesos_close: "pl_mesos x = M_Sending [] \<Longrightarrow> pipeline_step p infos x (x\<lparr>pl_mesos := M_Closed\<rparr>)"
| mesos_info: "pl_mesos x = M_Closed \<Longrightarrow> pl_tasks x = T_WaitInfo \<Longrightarrow>
    pipeline_step p infos x (x\<lparr>pl_mesos := M_Done, pl_tasks := T_WaitKV infos\<rparr>)"
| framework_record: "pl_frameworks x = F_Sending (r # rs) \<Longrightarrow> pl_pc x = D_Frameworks \<Longrightarrow>
    pipeline_step p infos x (x\<lparr>pl_frameworks := F_Sending rs, pl_dispatch := dispatch_framework r (pl_dispatch x)\<rparr>)"
| framework_close: "pl_frameworks x = F_Sending [] \<Longrightarrow> pipeline_step p infos x (x\<lparr>pl_frameworks := F_Closed\<rparr>)"
| task_kv: "pl_tasks x = T_WaitKV slaves \<Longrightarrow>
    generateTaskRecords (ra_unmarshal p) (ra_rg p) (ra_prefix p) slaves (ra_kvs p) (ra_skip p) = Some ts \<Longrightarrow>
    pipeline_step p infos x (x\<lparr>pl_tasks := T_Sending ts\<rparr>)"
| task_record: "pl_tasks x = T_Sending (r # rs) \<Longrightarrow> pl_pc x = D_Tasks \<Longrightarrow>
    pipeline_step p infos x (x\<lparr>pl_tasks := T_Sending rs, pl_dispatch := dispatch_task r (pl_dispatch x)\<rparr>)"
| task_close: "pl_tasks x = T_Sending [] \<Longrightarrow> pipeline_step p infos x (x\<lparr>pl_tasks := T_Closed\<rparr>)"
| mesos_drained: "pl_pc x = D_Mesos \<Longrightarrow> pl_mesos x \<in> {M_Closed, M_Done} \<Longrightarrow> pipeline_step p infos x (x\<lparr>pl_pc := D_Frameworks\<rparr>)"
| frameworks_drained: "pl_pc x = D_Frameworks \<Longrightarrow> pl_frameworks x = F_Closed \<Longrightarrow> pipeline_step p infos x (x\<lparr>pl_pc := D_Tasks\<rparr>)"
| tasks_drained: "pl_pc x = D_Tasks \<Longrightarrow> pl_tasks x = T_Closed \<Longrightarrow> pipeline_step p infos x (x\<lparr>pl_pc := D_Emitted\<rparr>)"

text \<open>The record sets the dispatcher hands to a sender each when it has drained all channels.\<close>

definition emitted :: "pipeline \<Rightarrow> (string \<times> Record list) list" where
  "emitted x = map (\<lambda>(slaveid, addr). (addr, case map_of (D_records (pl_dispatch x)) slaveid of None \<Rightarrow> [] | Some rs \<Rightarrow> rs))
     (D_consulAgent (pl_dispatch x))"

section \<open>The outcome of a reload\<close>

text \<open>What is still to be sent, and what the dispatcher will end with when it has received it.\<close>

definition mesos_rest :: "pipeline \<Rightarrow> Record list" where
  "mesos_rest x = (case pl_mesos x of M_Sending rs \<Rightarrow> rs | _ \<Rightarrow> [])"

definition frameworks_rest :: "pipeline \<Rightarrow> Record list" where
  "frameworks_rest x = (case pl_frameworks x of F_Sending rs \<Rightarrow> rs | F_Closed \<Rightarrow> [])"

definition tasks_rest :: "Record list \<Rightarrow> pipeline \<Rightarrow> Record list" where
  "tasks_rest ts x = (case pl_tasks x of T_Sending rs \<Rightarrow> rs | T_Closed \<Rightarrow> [] | _ \<Rightarrow> ts)"

definition final_dispatch :: "reload_args \<Rightarrow> Record list \<Rightarrow> pipeline \<Rightarrow> dispatch option" where
  "final_dispatch p ts x = do {
     d \<leftarrow> fold_opt (dispatch_mesos (B_Agents (ra_backend p))) (mesos_rest x) (pl_dispatch x);
     Some (fold dispatch_task (tasks_rest ts x) (fold dispatch_framework (frameworks_rest x) d)) }"

text \<open>
  The order of the phases: what a later loop of the dispatcher receives starts when the channels
  before are empty, and the generators are served in order.
\<close>

definition pipeline_inv :: "(string \<times> SlaveInfo) list \<Rightarrow> Record list \<Rightarrow> pipeline \<Rightarrow> bool" where
  "pipeline_inv infos ts x \<longleftrightarrow>
     (pl_pc x = D_Mesos \<or> mesos_rest x = [] \<and> pl_mesos x \<noteq> M_Sending []) \<and>
     (pl_pc x \<in> {D_Mesos, D_Frameworks} \<or> pl_frameworks x = F_Closed) \<and>
     (pl_pc x = D_Emitted \<longrightarrow> pl_tasks x = T_Closed) \<and>
     (pl_tasks x = T_WaitInfo \<longleftrightarrow> pl_mesos x \<noteq> M_Done) \<and>
     (\<forall>slaves. pl_tasks x = T_WaitKV slaves \<longrightarrow> slaves = infos)"

definition pipeline_work :: "Record list \<Rightarrow> pipeline \<Rightarrow> nat" where
  "pipeline_work ts x =
     (case pl_mesos x of M_Sending rs \<Rightarrow> length rs + 2 | M_Closed \<Rightarrow> 1 | M_Done \<Rightarrow> 0) +
     (case pl_frameworks x of F_Sending rs \<Rightarrow> length rs + 1 | F_Closed \<Rightarrow> 0) +
     (case pl_tasks x of T_Sending rs \<Rightarrow> length rs + 1 | T_Closed \<Rightarrow> 0 | _ \<Rightarrow> length ts + 2) +
     (case pl_pc x of D_Mesos \<Rightarrow> 3 | D_Frameworks \<Rightarrow> 2 | D_Tasks \<Rightarrow> 1 | D_Emitted \<Rightarrow> 0)"

lemmas pipeline_defs = pipeline_inv_def pipeline_work_def mesos_rest_def frameworks_rest_def tasks_rest_def final_dispatch_def

lemma pipeline_step_outcome:
  assumes "pipeline_step p infos x y" "pipeline_inv infos ts x"
    and "generateTaskRecords (ra_unmarshal p) (ra_rg p) (ra_prefix p) infos (ra_kvs p) (ra_skip p) = Some ts"
  shows "pipeline_inv infos ts y \<and> final_dispatch p ts y = final_dispatch p ts x \<and> pipeline_work ts y < pipeline_work ts x"
  using assms
proof (induction rule: pipeline_step.induct)
  case (task_kv x slaves ts')
  then have "slaves = infos" "ts' = ts" by (auto simp: pipeline_inv_def)
  then show ?case using task_kv by (auto simp: pipeline_defs)
qed (auto simp: pipeline_defs split: if_splits)

lemma pipeline_progress:
  assumes "pipeline_inv infos ts x" "final_dispatch p ts x = Some d" "pl_pc x \<noteq> D_Emitted"
    and "generateTaskRecords (ra_unmarshal p) (ra_rg p) (ra_prefix p) infos (ra_kvs p) (ra_skip p) = Some ts"
  shows "\<exists>y. pipeline_step p infos x y"
proof (cases "pl_pc x")
  case D_Mesos
  show ?thesis
  proof (cases "pl_mesos x")
    case (M_Sending rs)
    show ?thesis
    proof (cases rs)
      case (Cons r rs')
      then obtain d' where "dispatch_mesos (B_Agents (ra_backend p)) r (pl_dispatch x) = Some d'"
        using assms(2) M_Sending by (auto simp: final_dispatch_def mesos_rest_def bind_eq_Some_conv)
      then show ?thesis using pipeline_step.mesos_record D_Mesos M_Sending Cons by blast
    qed (use M_Sending pipeline_step.mesos_close in blast)
  qed (use D_Mesos pipeline_step.mesos_drained in blast)+
next
  case D_Frameworks
  show ?thesis
  proof (cases "pl_frameworks x")
    case (F_Sending rs)
    then show ?thesis using D_Frameworks pipeline_step.framework_record pipeline_step.framework_close by (cases rs) blast+
  qed (use D_Frameworks pipeline_step.frameworks_drained in blast)
next
  case D_Tasks
  show ?thesis
  proof (cases "pl_tasks x")
    case T_WaitInfo
    then have "pl_mesos x = M_Closed" using assms(1) D_Tasks
      by (cases "pl_mesos x") (auto simp: pipeline_inv_def mesos_rest_def)
    then show ?thesis using T_WaitInfo pipeline_step.mesos_info by blast
  next
    case (T_WaitKV slaves)
    then have "slaves = infos" using assms(1) by (simp add: pipeline_inv_def)
    then show ?thesis using pipeline_step.task_kv [OF T_WaitKV] assms(4) by blast
  next
    case (T_Sending rs)
    then show ?thesis using D_Tasks pipeline_step.task_record pipeline_step.task_close by (cases rs) blast+
  qed (use D_Tasks pipeline_step.tasks_drained in blast)
qed (use assms(3) in simp)

lemma pipeline_run_outcome:
  assumes "(pipeline_step p infos)\<^sup>*\<^sup>* x y" "pipeline_inv infos ts x"
    and "generateTaskRecords (ra_unmarshal p) (ra_rg p) (ra_prefix p) infos (ra_kvs p) (ra_skip p) = Some ts"
  shows "pipeline_inv infos ts y \<and> final_dispatch p ts y = final_dispatch p ts x"
  using assms(1)
  by (induction rule: rtranclp_induct) (use assms(2,3) pipeline_step_outcome in \<open>blast, metis\<close>)

lemma pipeline_emitted:
  assumes "pipeline_inv infos ts x" "pl_pc x = D_Emitted"
  shows "final_dispatch p ts x = Some (pl_dispatch x)"
  using assms by (auto simp: pipeline_defs split: mesos_pc.splits)

text \<open>The sequential reload in terms of the goroutines.\<close>

lemma consul_Reload_pipeline:
  assumes "consul_Reload (ra_unmarshal p) (ra_kvs p) (ra_rg p) (ra_backend p) = (b', Some out)"
  obtains x infos ts d where "pipeline_start p = Some (x, infos)" "pipeline_inv infos ts x"
    "generateTaskRecords (ra_unmarshal p) (ra_rg p) (ra_prefix p) infos (ra_kvs p) (ra_skip p) = Some ts"
    "final_dispatch p ts x = Some d"
    "out = map (\<lambda>(slaveid, addr). (addr, case map_of (D_records d) slaveid of None \<Rightarrow> [] | Some rs \<Rightarrow> rs)) (D_consulAgent d)"
  using assms
  by (auto simp: consul_Reload_def Dispatch_def pipeline_start_def bind_eq_Some_conv Let_def pipeline_defs split: prod.splits)

section \<open>Handing over to the agents\<close>

text \<open>
  Every record set waits in a goroutine of its own until its agent receives it. The sets sent to an
  agent so far and not yet received, and those received, in order.
\<close>

record inbox =
  ib_waiting :: "Record list multiset"
  ib_received :: "Record list list"

inductive inbox_step :: "inbox \<Rightarrow> inbox \<Rightarrow> bool" where
  reloaded: "inbox_step i (i\<lparr>ib_waiting := add_mset R (ib_waiting i)\<rparr>)"
| received: "R \<in># ib_waiting i \<Longrightarrow> inbox_step i (i\<lparr>ib_waiting := ib_waiting i - {#R#}, ib_received := ib_received i @ [R]\<rparr>)"

text \<open>
  The sets may overtake each other: an agent that is busy while two reloads go by may receive the
  newer set first and the older one last.
\<close>

lemma stale_set_received_last:
  "inbox_step\<^sup>*\<^sup>* \<lparr>ib_waiting = {#older#}, ib_received = []\<rparr> \<lparr>ib_waiting = {#}, ib_received = [newer, older]\<rparr>"
proof -
  let ?i = "\<lambda>w r. \<lparr>ib_waiting = w, ib_received = r\<rparr>"
  have "inbox_step (?i {#older#} []) (?i {#newer, older#} [])" using inbox_step.reloaded [of "?i {#older#} []" newer] by simp
  moreover have "inbox_step (?i {#newer, older#} []) (?i {#older#} [newer])"
    using inbox_step.received [of newer "?i {#newer, older#} []"] by simp
  moreover have "inbox_step (?i {#older#} [newer]) (?i {#} [newer, older])"
    using inbox_step.received [of older "?i {#older#} [newer]"] by simp
  ultimately show ?thesis by (auto intro: converse_rtranclp_into_rtranclp)
qed

section \<open>Property\<close>

text \<open>C13: the goroutines of a Consul reload do what the sequential reload says. Whatever the order in
  which they move, every step brings them nearer to the end; as long as the dispatcher has not handed
  the record sets to the agents some goroutine can move, so that none waits for ever; and the record
  sets are those of the sequential reload, in its order.\<close>

theorem reload_goroutines:
  assumes "consul_Reload (ra_unmarshal p) (ra_kvs p) (ra_rg p) (ra_backend p) = (b', Some out)"
  shows "\<exists>x infos work. pipeline_start p = Some (x, infos) \<and>
    (\<forall>y. (pipeline_step p infos)\<^sup>*\<^sup>* x y \<longrightarrow>
      (if pl_pc y = D_Emitted then emitted y = out else \<exists>z. pipeline_step p infos y z) \<and>
      (\<forall>z. pipeline_step p infos y z \<longrightarrow> (work :: pipeline \<Rightarrow> nat) z < work y))"
proof -
  obtain x infos ts d where x: "pipeline_start p = Some (x, infos)" "pipeline_inv infos ts x"
    and gen: "generateTaskRecords (ra_unmarshal p) (ra_rg p) (ra_prefix p) infos (ra_kvs p) (ra_skip p) = Some ts"
    and d: "final_dispatch p ts x = Some d"
      "out = map (\<lambda>(slaveid, addr). (addr, case map_of (D_records d) slaveid of None \<Rightarrow> [] | Some rs \<Rightarrow> rs)) (D_consulAgent d)"
    using assms by (rule consul_Reload_pipeline)
  have "(if pl_pc y = D_Emitted then emitted y = out else \<exists>z. pipeline_step p infos y z) \<and>
      (\<forall>z. pipeline_step p infos y z \<longrightarrow> pipeline_work ts z < pipeline_work ts y)"
    if run: "(pipeline_step p infos)\<^sup>*\<^sup>* x y" for y
  proof -
    have y: "pipeline_inv infos ts y" "final_dispatch p ts y = Some d"
      using pipeline_run_outcome [OF run x(2) gen] d(1) by simp_all
    have "emitted y = out" if "pl_pc y = D_Emitted"
      using pipeline_emitted [OF y(1) that, of p] y(2) by (simp add: emitted_def d(2))
    moreover have "\<exists>z. pipeline_step p infos y z" if "pl_pc y \<noteq> D_Emitted" by (rule pipeline_progress [OF y that gen])
    ultimately show ?thesis using pipeline_step_outcome [OF _ y(1) gen] by simp
  qed
  then show ?thesis using x(1) by blast
qed

definition demo_reload_args :: reload_args where
  "demo_reload_args = \<lparr>ra_unmarshal = (\<lambda>_ c. (c, True)), ra_kvs = [], ra_rg = demo_service_rg, ra_backend = demo_backend\<rparr>"

theorem reload_goroutines_witness:
  "\<exists>x infos y. pipeline_start demo_reload_args = Some (x, infos) \<and> pl_pc x = D_Mesos \<and> pipeline_step demo_reload_args infos x y"
proof -
  obtain b' out where "demo_service_reload = (b', Some out)"
    using demo_service_out by (cases demo_service_reload) (auto split: option.splits)
  then have "consul_Reload (ra_unmarshal demo_reload_args) (ra_kvs demo_reload_args) (ra_rg demo_reload_args)
      (ra_backend demo_reload_args) = (b', Some out)" by (simp add: demo_reload_args_def)
  from reload_goroutines [OF this] obtain x infos where x: "pipeline_start demo_reload_args = Some (x, infos)"
    and run: "\<And>y. (pipeline_step demo_reload_args infos)\<^sup>*\<^sup>* x y \<Longrightarrow>
      if pl_pc y = D_Emitted then emitted y = out else \<exists>z. pipeline_step demo_reload_args infos y z" by blast
  have "pl_pc x = D_Mesos" using x by (auto simp: pipeline_start_def bind_eq_Some_conv)
  then show ?thesis using run [OF rtranclp.rtrancl_refl] x by auto
qed

end
