(* ===== verification/Concurrent_Zone.thy ===== *)
theory Concurrent_Zone
  imports Main_Loop
begin

text \<open>The records of a builtin resolver shared between the event loop, which reloads them, and the
  goroutines that answer queries (\<open>records\<close>, \<open>Reload\<close> and
  \<open>HandleMesos\<close> of \<open>resolvers/builtin/resolver.go\<close>). The pointer to the
  records is behind a read-write lock; the configuration is one object that all generators share, and
  its serial number changes under the eyes of the handlers. A handler moves in steps between the
  accesses to what is shared.\<close>

section \<open>The handler in steps\<close>

text \<open>The records are read once; the configuration is read while answering and again for an empty answer.\<close>

definition answer_phase :: "BuiltinConfig \<Rightarrow> Config \<Rightarrow> orders \<Rightarrow> RecordGenerator \<Rightarrow> Question \<Rightarrow> Msg \<Rightarrow> Msg" where
  "answer_phase c cfg ords rg q r = fst (answer_query c cfg ords rg (ToLower (cleanWild (Question_Name q))) q (new_reply c r))"

definition finish_phase ::
  "('g \<Rightarrow> nat \<Rightarrow> nat \<times> 'g) \<Rightarrow> (Msg \<Rightarrow> int) \<Rightarrow> BuiltinConfig \<Rightarrow> Config \<Rightarrow> 'g \<Rightarrow> string \<Rightarrow> RecordGenerator \<Rightarrow> Question \<Rightarrow> Msg \<Rightarrow> Msg option" where
  "finish_phase intn mlen c cfg seed network rg q m =
     reply mlen network
       (if length (Msg_Answer m) = 0 then fst (handleEmpty c cfg rg (ToLower (cleanWild (Question_Name q))) q (m, CurLog))
        else m\<lparr>Msg_Answer := fst (shuffleAnswers intn seed (Msg_Answer m))\<rparr>)"

lemma handleEmpty_msg: "fst (handleEmpty c cfg rg name q (m, lg)) = fst (handleEmpty c cfg rg name q (m, lg'))"
  by (simp add: handleEmpty_def Let_def)

text \<open>Without a reload in between the steps are the handler.\<close>

lemma HandleMesos_phases:
  assumes "Msg_Question r = q # qs"
  shows "fst (HandleMesos intn mlen ords res network r lg) =
    finish_phase intn mlen (Res_config res) (RG_Config (Res_rg res)) (Res_rng res) network (Res_rg res) q
      (answer_phase (Res_config res) (RG_Config (Res_rg res)) ords (Res_rg res) q r)"
  using assms handleEmpty_msg [of _ _ _ _ _ _ "MesosRequests_update Inc lg" CurLog]
  by (simp add: HandleMesos_def finish_phase_def answer_phase_def Let_def slice_at_def case_prod_beta)

section \<open>Shared state\<close>

record 'g request =
  rq_msg :: Msg
  rq_network :: string
  rq_orders :: orders
  rq_seed :: 'g

text \<open>
  A handler (with the number of the last reload before its query arrived), and the event loop in
  a round: the records parsed, the lock held, the pointer stored.
\<close>

datatype handler_pc =
    H_Idle | H_Arrived nat | H_RLocked nat | H_Loaded nat RecordGenerator
  | H_Released nat RecordGenerator | H_Answered nat RecordGenerator Msg | H_Replied nat RecordGenerator "Msg option"

datatype updater = U_Idle | U_Parsed RecordGenerator | U_Locked RecordGenerator | U_Stored

record zone_state =
  zs_config :: Config
  zs_stored :: "RecordGenerator list"
  zs_writer :: bool
  zs_readers :: "nat set"
  zs_updater :: updater
  zs_calls :: "nat \<Rightarrow> handler_pc"

definition zone_start :: "RecordGenerator \<Rightarrow> zone_state" where
  "zone_start rg = \<lparr>zs_config = RG_Config rg, zs_stored = [rg], zs_writer = False, zs_readers = {}, zs_updater = U_Idle,
     zs_calls = (\<lambda>_. H_Idle)\<rparr>"

text \<open>
  What a goroutine may read from the pointer: the value stored last if it holds the lock and nobody
  writes, otherwise, in a data race, any value stored so far.
\<close>

definition visible :: "nat \<Rightarrow> zone_state \<Rightarrow> RecordGenerator set" where
  "visible g x = (if g \<in> zs_readers x \<and> \<not> zs_writer x then {last (zs_stored x)} else set (zs_stored x))"

abbreviation set_call :: "nat \<Rightarrow> handler_pc \<Rightarrow> zone_state \<Rightarrow> zone_state" where
  "set_call g h x \<equiv> x\<lparr>zs_calls := (zs_calls x)(g := h)\<rparr>"

inductive zone_step ::
  "('g \<Rightarrow> nat \<Rightarrow> nat \<times> 'g) \<Rightarrow> (Msg \<Rightarrow> int) \<Rightarrow> BuiltinConfig \<Rightarrow> (nat \<Rightarrow> 'g request) \<Rightarrow> zone_state \<Rightarrow> zone_state \<Rightarrow> bool"
  for intn :: "'g \<Rightarrow> nat \<Rightarrow> nat \<times> 'g" and mlen :: "Msg \<Rightarrow> int" and c :: BuiltinConfig and reqs :: "nat \<Rightarrow> 'g request" where
  ParseState: "zs_updater x = U_Idle \<Longrightarrow>
    ParseState resolve load now (NewRecordGenerator ((zs_config x)\<lparr>Config_Masters := ms\<rparr>)) = Some (None, rg) \<Longrightarrow>
    zone_step intn mlen c reqs x (x\<lparr>zs_config := RG_Config rg, zs_updater := U_Parsed rg\<rparr>)"
| Reload_Lock: "zs_updater x = U_Parsed rg \<Longrightarrow> \<not> zs_writer x \<Longrightarrow> zs_readers x = {} \<Longrightarrow>
    zone_step intn mlen c reqs x (x\<lparr>zs_writer := True, zs_updater := U_Locked rg\<rparr>)"
| Reload_store: "zs_updater x = U_Locked rg \<Longrightarrow>
    zone_step intn mlen c reqs x (x\<lparr>zs_stored := zs_stored x @ [rg], zs_updater := U_Stored\<rparr>)"
| Reload_Unlock: "zs_updater x = U_Stored \<Longrightarrow> zone_step intn mlen c reqs x (x\<lparr>zs_writer := False, zs_updater := U_Idle\<rparr>)"
| arrive: "zs_calls x g = H_Idle \<Longrightarrow> zone_step intn mlen c reqs x (set_call g (H_Arrived (length (zs_stored x) - 1)) x)"
| records_RLock: "zs_calls x g = H_Arrived k \<Longrightarrow> \<not> zs_writer x \<Longrightarrow>
    zone_step intn mlen c reqs x (set_call g (H_RLocked k) (x\<lparr>zs_readers := insert g (zs_readers x)\<rparr>))"
| records_load: "zs_calls x g = H_RLocked k \<Longrightarrow> rg \<in> visible g x \<Longrightarrow> zone_step intn mlen c reqs x (set_call g (H_Loaded k rg) x)"
| records_RUnlock: "zs_calls x g = H_Loaded k rg \<Longrightarrow>
    zone_step intn mlen c reqs x (set_call g (H_Released k rg) (x\<lparr>zs_readers := zs_readers x - {g}\<rparr>))"
| answer: "zs_calls x g = H_Released k rg \<Longrightarrow> Msg_Question (rq_msg (reqs g)) = q # qs \<Longrightarrow>
    zone_step intn mlen c reqs x
      (set_call g (H_Answered k rg (answer_phase c (zs_config x) (rq_orders (reqs g)) rg q (rq_msg (reqs g)))) x)"
| finish: "zs_calls x g = H_Answered k rg m \<Longrightarrow> Msg_Question (rq_msg (reqs g)) = q # qs \<Longrightarrow>
    zone_step intn mlen c reqs x
      (set_call g (H_Replied k rg (finish_phase intn mlen c (zs_config x) (rq_seed (reqs g)) (rq_network (reqs g)) rg q m)) x)"

section \<open>Messages up to the serial number\<close>

fun drop_serial :: "RR \<Rightarrow> RR" where
  "drop_serial (SOA_RR h ns mbox serial refresh retry expire minttl) = SOA_RR h ns mbox 0 refresh retry expire minttl"
| "drop_serial rr = rr"

definition strip :: "Msg \<Rightarrow> Msg" where
  "strip m = m\<lparr>Msg_Ns := map drop_serial (Msg_Ns m)\<rparr>"

text \<open>The packed length of a message does not depend on serial numbers, which have a fixed width.\<close>

definition serial_free :: "(Msg \<Rightarrow> int) \<Rightarrow> bool" where
  "serial_free mlen \<longleftrightarrow> (\<forall>m. mlen (strip m) = mlen m)"

definition soa_eq :: "Config \<Rightarrow> Config \<Rightarrow> bool" where
  "soa_eq c c' \<longleftrightarrow> Config_SOAMname c = Config_SOAMname c' \<and> Config_SOARname c = Config_SOARname c' \<and>
     Config_SOARefresh c = Config_SOARefresh c' \<and> Config_SOARetry c = Config_SOARetry c' \<and> Config_SOAExpire c = Config_SOAExpire c'"

lemma formatSOA_strip: "soa_eq cfg cfg' \<Longrightarrow> drop_serial (formatSOA c cfg n) = drop_serial (formatSOA c cfg' n)"
  by (simp add: formatSOA_def soa_eq_def)

lemma formatNS_strip: "soa_eq cfg cfg' \<Longrightarrow> formatNS c cfg n = formatNS c cfg' n"
  by (simp add: formatNS_def soa_eq_def)

lemma strip_upd [simp]:
  "strip (m\<lparr>Msg_Answer := as\<rparr>) = (strip m)\<lparr>Msg_Answer := as\<rparr>" "strip (m\<lparr>Msg_Extra := es\<rparr>) = (strip m)\<lparr>Msg_Extra := es\<rparr>"
  "strip (m\<lparr>Msg_Rcode := rc\<rparr>) = (strip m)\<lparr>Msg_Rcode := rc\<rparr>" "strip (m\<lparr>Msg_Truncated := b\<rparr>) = (strip m)\<lparr>Msg_Truncated := b\<rparr>"
  "strip (m\<lparr>Msg_Compress := b\<rparr>) = (strip m)\<lparr>Msg_Compress := b\<rparr>"
  "Msg_Answer (strip m) = Msg_Answer m" "Msg_Extra (strip m) = Msg_Extra m" "Msg_Truncated (strip m) = Msg_Truncated m"
  by (simp_all add: strip_def)

lemma strip_Ns: "strip (m\<lparr>Msg_Ns := Msg_Ns m @ ns\<rparr>) = (strip m)\<lparr>Msg_Ns := Msg_Ns (strip m) @ map drop_serial ns\<rparr>"
  by (simp add: strip_def)

lemma handleSOA_strip: "soa_eq cfg cfg' \<Longrightarrow> strip m = strip m' \<Longrightarrow> strip (handleSOA c cfg n m) = strip (handleSOA c cfg' n m')"
  using formatSOA_strip [of cfg cfg' c n] by (simp add: handleSOA_def strip_Ns)

lemma handleNS_strip: "soa_eq cfg cfg' \<Longrightarrow> strip m = strip m' \<Longrightarrow> strip (handleNS c cfg n m) = strip (handleNS c cfg' n m')"
  using formatNS_strip [of cfg cfg' c n] by (simp add: handleNS_def strip_Ns)

lemma answer_phase_strip:
  assumes "soa_eq cfg cfg'"
  shows "strip (answer_phase c cfg ords rg q r) = strip (answer_phase c cfg' ords rg q r)"
  using handleSOA_strip [OF assms] handleNS_strip [OF assms]
  by (simp add: answer_phase_def answer_query_def Let_def case_prod_beta)

lemma handleEmpty_strip:
  assumes "soa_eq cfg cfg'" "strip m = strip m'"
  shows "strip (fst (handleEmpty c cfg rg name q (m, lg))) = strip (fst (handleEmpty c cfg' rg name q (m', lg)))"
proof -
  have "strip ((m\<lparr>Msg_Rcode := rc\<rparr>)\<lparr>Msg_Ns := Msg_Ns (m\<lparr>Msg_Rcode := rc\<rparr>) @ [formatSOA c cfg n]\<rparr>) =
      strip ((m'\<lparr>Msg_Rcode := rc\<rparr>)\<lparr>Msg_Ns := Msg_Ns (m'\<lparr>Msg_Rcode := rc\<rparr>) @ [formatSOA c cfg' n]\<rparr>)" for rc n
    unfolding strip_Ns using assms(2) formatSOA_strip [OF assms(1)] by simp
  then show ?thesis using assms(2) by (simp add: handleEmpty_def Let_def)
qed

lemma trunc_loop_strip:
  assumes "serial_free mlen"
  shows "strip (trunc_loop mlen mx as left right m) = trunc_loop mlen mx as left right (strip m)"
  using assms
proof (induction mlen mx as left right m rule: trunc_loop.induct)
  case (1 mlen mx as left right m)
  let ?mid = "(left + right) div 2"
  have len: "mlen ((strip m)\<lparr>Msg_Answer := as'\<rparr>) = mlen (m\<lparr>Msg_Answer := as'\<rparr>)" for as'
    using 1(3) unfolding serial_free_def by (metis strip_upd(1))
  show ?case
  proof (cases "left < right")
    case True
    have step: "trunc_loop mlen mx as left right m' = (if mlen (m'\<lparr>Msg_Answer := take ?mid as\<rparr>) < mx
        then trunc_loop mlen mx as (?mid + 1) right (m'\<lparr>Msg_Answer := take ?mid as\<rparr>)
        else trunc_loop mlen mx as left ?mid (m'\<lparr>Msg_Answer := take ?mid as\<rparr>))" for m'
      using True by (subst trunc_loop.simps) (simp add: Let_def)
    show ?thesis using 1(1) [OF True refl refl] 1(2) [OF True refl refl] 1(3) by (simp add: step len)
  qed (simp add: trunc_loop_stop)
qed

lemma truncate_to_strip:
  assumes "serial_free mlen"
  shows "strip (truncate_to mlen mx m) = truncate_to mlen mx (strip m)"
proof -
  have "mlen (strip m) = mlen m" "mlen ((strip m)\<lparr>Msg_Truncated := b, Msg_Extra := []\<rparr>) = mlen (m\<lparr>Msg_Truncated := b, Msg_Extra := []\<rparr>)" for b
    using assms unfolding serial_free_def by (metis strip_upd(2,4))+
  then show ?thesis by (simp add: truncate_to_def Let_def trunc_loop_strip [OF assms])
qed

lemma reply_strip:
  assumes "serial_free mlen" "strip m = strip m'"
  shows "map_option strip (reply mlen network m) = map_option strip (reply mlen network m')"
proof -
  have "map_option strip (reply mlen network n) = map_option (\<lambda>mx. truncate_to mlen mx ((strip n)\<lparr>Msg_Compress := True\<rparr>))
      (max_size (strip n) (isUDP network))" for n
    by (cases "max_size n (isUDP network)")
      (simp_all add: reply_def truncate_msg_def max_size_def IsEdns0_def truncate_to_strip [OF assms(1)] split: option.splits list.splits)
  then show ?thesis by (simp add: assms(2))
qed

lemma finish_phase_strip:
  assumes "serial_free mlen" "soa_eq cfg cfg'" "strip m = strip m'"
  shows "map_option strip (finish_phase intn mlen c cfg seed network rg q m) =
    map_option strip (finish_phase intn mlen c cfg' seed network rg q m')"
proof -
  have as: "Msg_Answer m = Msg_Answer m'" using assms(3) by (metis strip_upd(6))
  show ?thesis unfolding finish_phase_def
    by (rule reply_strip [OF assms(1)]) (simp add: as handleEmpty_strip [OF assms(2,3)] assms(3))
qed

section \<open>The invariant\<close>

text \<open>The records were stored by a reload that is not older than the last one before the query.\<close>

definition seen :: "zone_state \<Rightarrow> nat \<Rightarrow> RecordGenerator \<Rightarrow> bool" where
  "seen x k rg \<longleftrightarrow> (\<exists>j \<ge> k. j < length (zs_stored x) \<and> zs_stored x ! j = rg)"

definition sequential_answer :: "BuiltinConfig \<Rightarrow> 'g request \<Rightarrow> RecordGenerator \<Rightarrow> Question \<Rightarrow> Msg" where
  "sequential_answer c rq rg q = answer_phase c (RG_Config rg) (rq_orders rq) rg q (rq_msg rq)"

definition sequential_reply ::
  "('g \<Rightarrow> nat \<Rightarrow> nat \<times> 'g) \<Rightarrow> (Msg \<Rightarrow> int) \<Rightarrow> BuiltinConfig \<Rightarrow> 'g request \<Rightarrow> RecordGenerator \<Rightarrow> Question \<Rightarrow> Msg option" where
  "sequential_reply intn mlen c rq rg q =
     finish_phase intn mlen c (RG_Config rg) (rq_seed rq) (rq_network rq) rg q (sequential_answer c rq rg q)"

fun call_ok ::
  "('g \<Rightarrow> nat \<Rightarrow> nat \<times> 'g) \<Rightarrow> (Msg \<Rightarrow> int) \<Rightarrow> BuiltinConfig \<Rightarrow> 'g request \<Rightarrow> zone_state \<Rightarrow> handler_pc \<Rightarrow> bool" where
  "call_ok intn mlen c rq x H_Idle = True"
| "call_ok intn mlen c rq x (H_Arrived k) = (k < length (zs_stored x))"
| "call_ok intn mlen c rq x (H_RLocked k) = (k < length (zs_stored x))"
| "call_ok intn mlen c rq x (H_Loaded k rg) = seen x k rg"
| "call_ok intn mlen c rq x (H_Released k rg) = seen x k rg"
| "call_ok intn mlen c rq x (H_Answered k rg m) =
     (seen x k rg \<and> (\<forall>q qs. Msg_Question (rq_msg rq) = q # qs \<longrightarrow> strip m = strip (sequential_answer c rq rg q)))"
| "call_ok intn mlen c rq x (H_Replied k rg t) =
     (seen x k rg \<and> (\<forall>q qs. Msg_Question (rq_msg rq) = q # qs \<longrightarrow>
        map_option strip t = map_option strip (sequential_reply intn mlen c rq rg q)))"

definition reading :: "handler_pc \<Rightarrow> bool" where
  "reading h = (case h of H_RLocked _ \<Rightarrow> True | H_Loaded _ _ \<Rightarrow> True | _ \<Rightarrow> False)"

definition parsed :: "updater \<Rightarrow> RecordGenerator set" where
  "parsed u = (case u of U_Parsed rg \<Rightarrow> {rg} | U_Locked rg \<Rightarrow> {rg} | _ \<Rightarrow> {})"

definition writing :: "updater \<Rightarrow> bool" where
  "writing u = (case u of U_Locked _ \<Rightarrow> True | U_Stored \<Rightarrow> True | _ \<Rightarrow> False)"

definition zone_inv ::
  "('g \<Rightarrow> nat \<Rightarrow> nat \<times> 'g) \<Rightarrow> (Msg \<Rightarrow> int) \<Rightarrow> BuiltinConfig \<Rightarrow> (nat \<Rightarrow> 'g request) \<Rightarrow> zone_state \<Rightarrow> bool" where
  "zone_inv intn mlen c reqs x \<longleftrightarrow>
     zs_stored x \<noteq> [] \<and> (zs_writer x \<longleftrightarrow> writing (zs_updater x)) \<and> (zs_writer x \<longrightarrow> zs_readers x = {}) \<and> finite (zs_readers x) \<and>
     (\<forall>g. g \<in> zs_readers x \<longleftrightarrow> reading (zs_calls x g)) \<and>
     (\<forall>rg \<in> set (zs_stored x) \<union> parsed (zs_updater x). soa_eq (zs_config x) (RG_Config rg)) \<and>
     (\<forall>g. call_ok intn mlen c (reqs g) x (zs_calls x g))"

lemma zone_start_inv: "zone_inv intn mlen c reqs (zone_start rg)"
  by (simp add: zone_inv_def zone_start_def writing_def reading_def parsed_def soa_eq_def)

lemma seen_mono: "seen x k rg \<Longrightarrow> zs_stored y = zs_stored x @ rgs \<Longrightarrow> seen y k rg"
  unfolding seen_def by (metis length_append nth_append trans_less_add1)

lemma call_ok_mono:
  assumes "call_ok intn mlen c rq x h" "zs_stored y = zs_stored x @ rgs"
  shows "call_ok intn mlen c rq y h"
  using assms(1) seen_mono [OF _ assms(2)] by (cases h) (auto simp: assms(2))

lemma seen_soa: "zone_inv intn mlen c reqs x \<Longrightarrow> seen x k rg \<Longrightarrow> soa_eq (zs_config x) (RG_Config rg)"
  by (auto simp: zone_inv_def seen_def)

text \<open>A move of a handler changes its own place and the set of readers only.\<close>

lemma zone_inv_call:
  assumes "zone_inv intn mlen c reqs x" "call_ok intn mlen c (reqs g) x h"
    and "rs = (if reading h then insert g (zs_readers x) else zs_readers x - {g})" "reading h \<Longrightarrow> \<not> zs_writer x"
  shows "zone_inv intn mlen c reqs (set_call g h (x\<lparr>zs_readers := rs\<rparr>))"
proof -
  have "call_ok intn mlen c rq (set_call g h (x\<lparr>zs_readers := rs\<rparr>)) h' = call_ok intn mlen c rq x h'" for rq :: "'a request" and h'
    by (cases h') (simp_all add: seen_def)
  then show ?thesis using assms by (auto simp: zone_inv_def)
qed

lemma zone_inv_call_same:
  assumes "zone_inv intn mlen c reqs x" "call_ok intn mlen c (reqs g) x h" "reading h = reading (zs_calls x g)"
  shows "zone_inv intn mlen c reqs (set_call g h x)"
proof -
  have "g \<in> zs_readers x \<longleftrightarrow> reading h" "zs_writer x \<longrightarrow> zs_readers x = {}" using assms(1,3) by (simp_all add: zone_inv_def)
  then have "zs_readers x = (if reading h then insert g (zs_readers x) else zs_readers x - {g})" "reading h \<Longrightarrow> \<not> zs_writer x" by auto
  from zone_inv_call [OF assms(1,2) this] show ?thesis by simp
qed

lemma soa_eq_parse:
  assumes "ParseState resolve load now (NewRecordGenerator (cfg\<lparr>Config_Masters := ms\<rparr>)) = Some (None, rg)"
  shows "soa_eq (RG_Config rg) cfg" "soa_eq cfg cfg' \<Longrightarrow> soa_eq (RG_Config rg) cfg'"
  using ParseState_config [OF assms] by (simp_all add: NewRecordGenerator_def soa_eq_def)

text \<open>The event loop keeps the invariant: its steps change the pointer under the lock only.\<close>

lemma zone_inv_update:
  assumes "zone_inv intn mlen c reqs x" "zs_calls y = zs_calls x" "zs_readers y = zs_readers x"
    and "zs_stored y = zs_stored x @ rgs" "zs_writer y = writing (zs_updater y)" "zs_writer y \<longrightarrow> zs_readers y = {}"
    and "\<forall>rg \<in> set (zs_stored y) \<union> parsed (zs_updater y). soa_eq (zs_config y) (RG_Config rg)"
  shows "zone_inv intn mlen c reqs y"
proof -
  have "call_ok intn mlen c (reqs g) y (zs_calls x g)" for g
    using assms(1) by (intro call_ok_mono [OF _ assms(4)]) (simp add: zone_inv_def)
  then show ?thesis using assms by (simp add: zone_inv_def)
qed

lemma zone_inv_at:
  assumes "zone_inv intn mlen c reqs x" "zs_calls x g = h"
  shows "call_ok intn mlen c (reqs g) x h" "g \<in> zs_readers x \<longleftrightarrow> reading h" "reading h \<Longrightarrow> \<not> zs_writer x" "zs_stored x \<noteq> []"
  using assms by (auto simp: zone_inv_def)

text \<open>What a handler reads under the lock, answers and replies.\<close>

lemma load_seen:
  assumes "zone_inv intn mlen c reqs x" "zs_calls x g = H_RLocked k" "rg \<in> visible g x"
  shows "seen x k rg"
proof -
  have "g \<in> zs_readers x" "\<not> zs_writer x" "zs_stored x \<noteq> []" "k < length (zs_stored x)"
    using zone_inv_at [OF assms(1,2)] by (simp_all add: reading_def)
  then show ?thesis using assms(3) unfolding seen_def visible_def
    by (intro exI [of _ "length (zs_stored x) - 1"]) (simp add: last_conv_nth)
qed

lemma answer_ok:
  assumes "zone_inv intn mlen c reqs x" "zs_calls x g = H_Released k rg" "Msg_Question (rq_msg (reqs g)) = q # qs"
  shows "call_ok intn mlen c (reqs g) x (H_Answered k rg (answer_phase c (zs_config x) (rq_orders (reqs g)) rg q (rq_msg (reqs g))))"
proof -
  have seen: "seen x k rg" using zone_inv_at(1) [OF assms(1,2)] by simp
  then show ?thesis using assms(3) answer_phase_strip [OF seen_soa [OF assms(1) seen]] by (simp add: sequential_answer_def)
qed

lemma finish_ok:
  assumes "zone_inv intn mlen c reqs x" "zs_calls x g = H_Answered k rg m" "Msg_Question (rq_msg (reqs g)) = q # qs" "serial_free mlen"
  shows "call_ok intn mlen c (reqs g) x
    (H_Replied k rg (finish_phase intn mlen c (zs_config x) (rq_seed (reqs g)) (rq_network (reqs g)) rg q m))"
proof -
  have seen: "seen x k rg" and m: "strip m = strip (sequential_answer c (reqs g) rg q)"
    using zone_inv_at(1) [OF assms(1,2)] assms(3) by simp_all
  then show ?thesis using assms(3) finish_phase_strip [OF assms(4) seen_soa [OF assms(1) seen] m] by (simp add: sequential_reply_def)
qed

lemma zone_step_inv:
  assumes "zone_step intn mlen c reqs x y" "zone_inv intn mlen c reqs x" "serial_free mlen"
  shows "zone_inv intn mlen c reqs y"
  using assms
proof (induction rule: zone_step.induct)
  case (ParseState x resolve load now ms rg)
  let ?y = "x\<lparr>zs_config := RG_Config rg, zs_updater := U_Parsed rg\<rparr>"
  have "\<forall>rg' \<in> set (zs_stored x) \<union> {rg}. soa_eq (RG_Config rg) (RG_Config rg')"
    using ParseState.prems(1) soa_eq_parse(2) [OF ParseState.hyps(2)] by (simp add: zone_inv_def soa_eq_def)
  then show ?case using ParseState.prems(1) ParseState.hyps(1)
    by (intro zone_inv_update [OF ParseState.prems(1), where rgs = "[]"]) (simp_all add: zone_inv_def parsed_def writing_def)
next
  case (Reload_Lock x rg)
  then show ?case
    by (intro zone_inv_update [OF Reload_Lock.prems(1), where rgs = "[]"]) (simp_all add: zone_inv_def parsed_def writing_def)
next
  case (Reload_store x rg)
  then show ?case
    by (intro zone_inv_update [OF Reload_store.prems(1), where rgs = "[rg]"]) (simp_all add: zone_inv_def parsed_def writing_def)
next
  case (Reload_Unlock x)
  then show ?case
    by (intro zone_inv_update [OF Reload_Unlock.prems(1), where rgs = "[]"]) (simp_all add: zone_inv_def parsed_def writing_def)
next
  case (arrive x g)
  show ?case using zone_inv_at(4) [OF arrive.prems(1) arrive.hyps(1)]
    by (intro zone_inv_call_same [OF arrive.prems(1)]) (simp_all add: arrive.hyps(1) reading_def)
next
  case (records_RLock x g k)
  note at = zone_inv_at [OF records_RLock.prems(1) records_RLock.hyps(1)]
  show ?case by (rule zone_inv_call [OF records_RLock.prems(1)]) (use at(1) records_RLock.hyps in \<open>simp_all add: reading_def\<close>)
next
  case (records_load x g k rg)
  then show ?case using load_seen [of intn mlen c reqs x g k rg]
    by (intro zone_inv_call_same) (simp_all add: records_load.hyps(1) reading_def)
next
  case (records_RUnlock x g k rg)
  note at = zone_inv_at [OF records_RUnlock.prems(1) records_RUnlock.hyps(1)]
  show ?case by (rule zone_inv_call [OF records_RUnlock.prems(1)]) (use at(1) in \<open>simp_all add: reading_def\<close>)
next
  case (answer x g k rg q qs)
  show ?case by (rule zone_inv_call_same [OF answer.prems(1) answer_ok [OF answer.prems(1) answer.hyps]])
      (simp add: answer.hyps(1) reading_def)
next
  case (finish x g k rg m q qs)
  show ?case by (rule zone_inv_call_same [OF finish.prems(1) finish_ok [OF finish.prems(1) finish.hyps finish.prems(2)]])
      (simp add: finish.hyps(1) reading_def)
qed

lemma zone_run_inv:
  assumes "(zone_step intn mlen c reqs)\<^sup>*\<^sup>* (zone_start rg) x" "serial_free mlen"
  shows "zone_inv intn mlen c reqs x"
  using assms(1) by (induction rule: rtranclp_induct) (use zone_start_inv zone_step_inv assms(2) in blast)+

text \<open>A reload waits for the readers only, and they always get through.\<close>

lemma reader_leaves:
  assumes "zone_inv intn mlen c reqs x" "g \<in> zs_readers x"
  shows "\<exists>h. (zone_step intn mlen c reqs)\<^sup>*\<^sup>* x (set_call g h (x\<lparr>zs_readers := zs_readers x - {g}\<rparr>))"
proof -
  have leave: "zone_step intn mlen c reqs y (set_call g (H_Released k rg) (y\<lparr>zs_readers := zs_readers y - {g}\<rparr>))"
    if "zs_calls y g = H_Loaded k rg" for y k rg using that by (rule zone_step.records_RUnlock)
  have "reading (zs_calls x g)" using assms by (simp add: zone_inv_def)
  then consider k where "zs_calls x g = H_RLocked k" | k rg where "zs_calls x g = H_Loaded k rg"
    by (cases "zs_calls x g") (auto simp: reading_def)
  then show ?thesis
  proof cases
    case (1 k)
    let ?y = "set_call g (H_Loaded k (last (zs_stored x))) x"
    have "\<not> zs_writer x" using assms by (auto simp: zone_inv_def)
    then have "zone_step intn mlen c reqs x ?y" using assms(2) by (intro zone_step.records_load [OF 1]) (simp add: visible_def)
    moreover have "zone_step intn mlen c reqs ?y (set_call g (H_Released k (last (zs_stored x))) (x\<lparr>zs_readers := zs_readers x - {g}\<rparr>))"
      using leave [of ?y k "last (zs_stored x)"] by simp
    ultimately show ?thesis by (meson converse_rtranclp_into_rtranclp r_into_rtranclp)
  qed (use leave in blast)
qed

lemma readers_leave:
  assumes "zone_inv intn mlen c reqs x" "serial_free mlen"
  shows "\<exists>y. (zone_step intn mlen c reqs)\<^sup>*\<^sup>* x y \<and> zs_readers y = {} \<and> zs_updater y = zs_updater x \<and> zs_writer y = zs_writer x"
  using assms(1)
proof (induction "card (zs_readers x)" arbitrary: x rule: less_induct)
  case less
  show ?case
  proof (cases "zs_readers x = {}")
    case False
    then obtain g where g: "g \<in> zs_readers x" by blast
    obtain h where run: "(zone_step intn mlen c reqs)\<^sup>*\<^sup>* x (set_call g h (x\<lparr>zs_readers := zs_readers x - {g}\<rparr>))"
      using reader_leaves [OF less.prems g] by blast
    let ?y = "set_call g h (x\<lparr>zs_readers := zs_readers x - {g}\<rparr>)"
    have "zone_inv intn mlen c reqs ?y" using run
      by (induction rule: rtranclp_induct) (use less.prems zone_step_inv assms(2) in blast)+
    moreover have "card (zs_readers ?y) < card (zs_readers x)"
      using card_Diff1_less [OF _ g] less.prems by (simp add: zone_inv_def)
    ultimately obtain z where "(zone_step intn mlen c reqs)\<^sup>*\<^sup>* ?y z" "zs_readers z = {}" "zs_updater z = zs_updater x" "zs_writer z = zs_writer x"
      using less.hyps [of ?y] by auto
    then show ?thesis using rtranclp_trans [OF run] by blast
  qed (use rtranclp.rtrancl_refl in blast)
qed

lemma reload_gets_through:
  assumes "zone_inv intn mlen c reqs x" "serial_free mlen" "zs_updater x = U_Parsed rg"
  shows "\<exists>y. (zone_step intn mlen c reqs)\<^sup>*\<^sup>* x y \<and> zs_updater y = U_Idle \<and> last (zs_stored y) = rg"
proof -
  obtain y where y: "(zone_step intn mlen c reqs)\<^sup>*\<^sup>* x y" "zs_readers y = {}" "zs_updater y = U_Parsed rg" "\<not> zs_writer y"
    using readers_leave [OF assms(1,2)] assms(1,3) by (auto simp: zone_inv_def writing_def)
  let ?y1 = "y\<lparr>zs_writer := True, zs_updater := U_Locked rg\<rparr>"
  let ?y2 = "?y1\<lparr>zs_stored := zs_stored ?y1 @ [rg], zs_updater := U_Stored\<rparr>"
  have "zone_step intn mlen c reqs y ?y1" using y(3,4,2) by (rule zone_step.Reload_Lock)
  moreover have "zone_step intn mlen c reqs ?y1 ?y2" by (rule zone_step.Reload_store) simp
  moreover have "zone_step intn mlen c reqs ?y2 (?y2\<lparr>zs_writer := False, zs_updater := U_Idle\<rparr>)" by (rule zone_step.Reload_Unlock) simp
  ultimately have "(zone_step intn mlen c reqs)\<^sup>*\<^sup>* x (?y2\<lparr>zs_writer := False, zs_updater := U_Idle\<rparr>)"
    using y(1) by (meson rtranclp.rtrancl_into_rtrancl)
  then show ?thesis by (intro exI conjI) (assumption, simp_all)
qed

text \<open>A handler that is not disturbed replies, with the records stored last.\<close>

lemma handler_reads:
  assumes "zs_calls x g = H_Idle" "\<not> zs_writer x"
  shows "(zone_step intn mlen c reqs)\<^sup>*\<^sup>* x
    (set_call g (H_Released (length (zs_stored x) - 1) (last (zs_stored x))) (x\<lparr>zs_readers := zs_readers x - {g}\<rparr>))"
proof -
  let ?st = "zone_step intn mlen c reqs" and ?k = "length (zs_stored x) - 1" and ?rg = "last (zs_stored x)"
  let ?x1 = "set_call g (H_Arrived ?k) x"
  let ?x2 = "set_call g (H_RLocked ?k) (?x1\<lparr>zs_readers := insert g (zs_readers x)\<rparr>)"
  let ?x3 = "set_call g (H_Loaded ?k ?rg) ?x2"
  let ?x4 = "set_call g (H_Released ?k ?rg) (?x3\<lparr>zs_readers := zs_readers ?x3 - {g}\<rparr>)"
  have "?st x ?x1" using assms(1) by (rule zone_step.arrive)
  moreover have "?st ?x1 ?x2" using zone_step.records_RLock [of ?x1 g ?k] assms(2) by simp
  moreover have "?st ?x2 ?x3" by (rule zone_step.records_load) (simp_all add: visible_def assms(2))
  moreover have "?st ?x3 ?x4" by (rule zone_step.records_RUnlock) simp
  ultimately have "?st\<^sup>*\<^sup>* x ?x4" by (meson converse_rtranclp_into_rtranclp rtranclp.rtrancl_refl)
  then show ?thesis by simp
qed

lemma handler_replies:
  assumes "zs_calls x g = H_Released k rg" "Msg_Question (rq_msg (reqs g)) = q # qs"
  shows "\<exists>y t. (zone_step intn mlen c reqs)\<^sup>*\<^sup>* x y \<and> zs_calls y g = H_Replied k rg t \<and> zs_stored y = zs_stored x"
proof -
  let ?m = "answer_phase c (zs_config x) (rq_orders (reqs g)) rg q (rq_msg (reqs g))"
  let ?x1 = "set_call g (H_Answered k rg ?m) x"
  have "zone_step intn mlen c reqs x ?x1" using assms by (rule zone_step.answer)
  moreover have "zone_step intn mlen c reqs ?x1 (set_call g (H_Replied k rg
      (finish_phase intn mlen c (zs_config ?x1) (rq_seed (reqs g)) (rq_network (reqs g)) rg q ?m)) ?x1)"
    using assms(2) by (intro zone_step.finish) simp_all
  ultimately have "(zone_step intn mlen c reqs)\<^sup>*\<^sup>* x (set_call g (H_Replied k rg
      (finish_phase intn mlen c (zs_config ?x1) (rq_seed (reqs g)) (rq_network (reqs g)) rg q ?m)) ?x1)"
    by (meson converse_rtranclp_into_rtranclp rtranclp.rtrancl_refl)
  then show ?thesis by (intro exI conjI) (assumption, simp_all)
qed

text \<open>
  The configuration is not behind the lock: while the event loop is between generating records and
  storing them, a handler answers from the old records with the new serial number.
\<close>

lemma old_records_new_serial:
  assumes "ParseState resolve load now (NewRecordGenerator ((RG_Config rg)\<lparr>Config_Masters := ms\<rparr>)) = Some (None, rg')"
  shows "\<exists>x. (zone_step intn mlen c reqs)\<^sup>*\<^sup>* (zone_start rg) x \<and> zs_calls x g = H_Released 0 rg \<and> zs_stored x = [rg] \<and>
    Config_SOASerial (zs_config x) = of_int now"
proof -
  let ?x = "(zone_start rg)\<lparr>zs_config := RG_Config rg', zs_updater := U_Parsed rg'\<rparr>"
  have parse: "zone_step intn mlen c reqs (zone_start rg) ?x"
    by (rule zone_step.ParseState) (use assms in \<open>simp_all add: zone_start_def\<close>)
  have "Config_SOASerial (RG_Config rg') = of_int now" using ParseState_config [OF assms] by simp
  moreover have "(zone_step intn mlen c reqs)\<^sup>*\<^sup>* ?x (set_call g (H_Released 0 rg) (?x\<lparr>zs_readers := {}\<rparr>))"
    using handler_reads [of ?x g intn mlen c reqs] by (simp add: zone_start_def)
  ultimately show ?thesis using parse by (intro exI [of _ "set_call g (H_Released 0 rg) (?x\<lparr>zs_readers := {}\<rparr>)"])
      (simp add: zone_start_def converse_rtranclp_into_rtranclp)
qed

section \<open>Property\<close>

text \<open>C11: queries and reloads may run at the same time. Nobody reads the records while they are replaced,
  a reload can always get past the readers, and every reply is, up to the serial number of a SOA
  record, the one the handler gives on its own with the records of a single reload: the last one
  stored before the query arrived or a newer one, never a mixture and never an older one. (The packed
  length of a message must not depend on serial numbers.)\<close>

theorem reply_from_one_reload:
  assumes "(zone_step intn mlen (Res_config res) reqs)\<^sup>*\<^sup>* (zone_start (Res_rg res)) x" "serial_free mlen"
    and "zs_calls x g = H_Replied k rg t" "Msg_Question (rq_msg (reqs g)) = q # qs"
  shows "(zs_writer x \<longrightarrow> zs_readers x = {}) \<and>
    (\<forall>rg'. zs_updater x = U_Parsed rg' \<longrightarrow>
      (\<exists>y. (zone_step intn mlen (Res_config res) reqs)\<^sup>*\<^sup>* x y \<and> zs_updater y = U_Idle \<and> last (zs_stored y) = rg')) \<and>
    (\<exists>j \<ge> k. j < length (zs_stored x) \<and> zs_stored x ! j = rg) \<and>
    map_option strip t = map_option strip (fst (HandleMesos intn mlen (rq_orders (reqs g))
      (res\<lparr>Res_rg := rg, Res_rng := rq_seed (reqs g)\<rparr>) (rq_network (reqs g)) (rq_msg (reqs g)) lg))"
proof -
  note inv = zone_run_inv [OF assms(1,2)]
  have "seen x k rg" "map_option strip t = map_option strip (sequential_reply intn mlen (Res_config res) (reqs g) rg q)"
    using zone_inv_at(1) [OF inv assms(3)] assms(4) by simp_all
  moreover have "zs_writer x \<longrightarrow> zs_readers x = {}" using inv by (simp add: zone_inv_def)
  ultimately show ?thesis using reload_gets_through [OF inv assms(2)]
    by (simp add: HandleMesos_phases [OF assms(4)] sequential_reply_def sequential_answer_def seen_def)
qed

definition demo_request :: "nat request" where
  "demo_request = \<lparr>rq_msg = demo_query, rq_network = ''udp'', rq_orders = demo_orders, rq_seed = 0\<rparr>"

theorem reply_from_one_reload_witness:
  "\<exists>x t. (zone_step (\<lambda>g n. (0, g)) (\<lambda>_. 60) (Res_config demo_resolver) (\<lambda>_. demo_request))\<^sup>*\<^sup>* (zone_start (Res_rg demo_resolver)) x \<and>
     zs_calls x 3 = H_Replied 0 (Res_rg demo_resolver) t \<and>
     map_option strip t = map_option strip (fst (HandleMesos (\<lambda>g n. (0, g)) (\<lambda>_. 60) demo_orders
       (demo_resolver\<lparr>Res_rg := Res_rg demo_resolver, Res_rng := 0\<rparr>) ''udp'' demo_query CurLog))"
proof -
  let ?st = "zone_step (\<lambda>g n. (0, g)) (\<lambda>_. 60) (Res_config demo_resolver) (\<lambda>_. demo_request)" and ?x = "zone_start (Res_rg demo_resolver)"
  obtain q qs where q: "Msg_Question (rq_msg demo_request) = q # qs" by (simp add: demo_request_def demo_query_def)
  let ?x1 = "set_call 3 (H_Released 0 (Res_rg demo_resolver)) (?x\<lparr>zs_readers := {}\<rparr>)"
  have 1: "?st\<^sup>*\<^sup>* ?x ?x1" using handler_reads [of ?x 3] by (simp add: zone_start_def)
  obtain y t where 2: "?st\<^sup>*\<^sup>* ?x1 y" "zs_calls y 3 = H_Replied 0 (Res_rg demo_resolver) t"
    using handler_replies [where x = ?x1 and g = 3 and reqs = "\<lambda>_. demo_request" and intn = "\<lambda>g n. (0, g)" and mlen = "\<lambda>_. 60"
        and c = "Res_config demo_resolver", OF _ q] by auto
  have run: "?st\<^sup>*\<^sup>* ?x y" using 1 2(1) by (rule rtranclp_trans)
  have "serial_free (\<lambda>_. 60)" by (simp add: serial_free_def)
  from reply_from_one_reload [OF run this 2(2) q, of CurLog] show ?thesis using run 2(2) by (auto simp: demo_request_def)
qed

end
