(* ===== verification/Master_Feed.thy ===== *)
theory Master_Feed
  imports Servers
begin

text \<open>The way of a master from ZooKeeper to the served records: the detector of
  \<open>detect/masters.go\<close> runs in goroutines of the library and sends every list of masters
  on the channel that \<open>detectMasters\<close> makes (\<open>main.go\<close>, a buffer of one);
  the event loop receives them and generates records.\<close>

section \<open>Detector, channel and loop\<close>

text \<open>
  The notifications handled so far, the detector, the list it waits to send (\<open>emit\<close>), the
  channel, the lists received and the event loop.
\<close>

record ('g, 'e) feed =
  fd_notes :: "notification list"
  fd_detector :: Masters
  fd_emitting :: "string list option"
  fd_changed :: "string list chan"
  fd_received :: "string list list"
  fd_main :: "('g, 'e) main_state"

definition feed_start :: "('g, 'e) main_state \<Rightarrow> ('g, 'e) feed" where
  "feed_start s = \<lparr>fd_notes = [], fd_detector = NewMasters (Config_Masters (main_config s)), fd_emitting = None,
     fd_changed = make_chan 1, fd_received = [], fd_main = s\<rparr>"

text \<open>
  A notification, the send of its list when there is room, its receipt, a round of the reload
  ticker, and the steps of the loop that leave configuration and resolvers alone (timer, errors).
\<close>

inductive feed_step :: "bool \<Rightarrow> ('g, 'e) feed \<Rightarrow> ('g, 'e) feed \<Rightarrow> bool" for be :: bool where
  notified: "fd_emitting x = None \<Longrightarrow> notify be n (fd_detector x) = Some d \<Longrightarrow>
    feed_step be x (x\<lparr>fd_notes := fd_notes x @ [n], fd_detector := d, fd_emitting := Some (masters d)\<rparr>)"
| emit: "fd_emitting x = Some ms \<Longrightarrow> chan_send ms (fd_changed x) = Comm ch \<Longrightarrow>
    feed_step be x (x\<lparr>fd_emitting := None, fd_changed := ch\<rparr>)"
| receive: "main_phase (fd_main x) = Running \<Longrightarrow> chan_recv [] (fd_changed x) = Comm (ms, ch) \<Longrightarrow>
    feed_step be x (x\<lparr>fd_changed := ch, fd_received := fd_received x @ [ms], fd_main := masters_changed re ms (fd_main x)\<rparr>)"
| tick: "main_phase (fd_main x) = Running \<Longrightarrow> feed_step be x (x\<lparr>fd_main := reloadResolvers re (fd_main x)\<rparr>)"
| other: "main_step (fd_main x) s \<Longrightarrow> main_config s = main_config (fd_main x) \<Longrightarrow> main_rs s = main_rs (fd_main x) \<Longrightarrow>
    feed_step be x (x\<lparr>fd_main := s\<rparr>)"

section \<open>The invariant\<close>

definition fed :: "('g, 'e) feed \<Rightarrow> bool" where
  "fed x \<longleftrightarrow> (main_phase (fd_main x) = Running \<and> fd_received x \<noteq> [] \<longrightarrow>
     (\<exists>rg. serves rg (main_rs (fd_main x)) \<and> published (last (fd_received x)) rg \<and>
       Config_Masters (main_config (fd_main x)) = last (fd_received x)))"

definition feed_inv :: "bool \<Rightarrow> string list \<Rightarrow> ('g, 'e) feed \<Rightarrow> bool" where
  "feed_inv be cfg x \<longleftrightarrow> detects be cfg (fd_notes x) (fd_detector x) \<and> ch_cap (fd_changed x) = 1 \<and> \<not> ch_closed (fd_changed x) \<and>
     length (ch_buf (fd_changed x)) \<le> 1 \<and>
     sent (fd_detector x) = fd_received x @ ch_buf (fd_changed x) @ (case fd_emitting x of None \<Rightarrow> [] | Some ms \<Rightarrow> [ms]) \<and> fed x"

lemma feed_start_inv: "feed_inv be (Config_Masters (main_config s)) (feed_start s)"
  using detects.start [of be "Config_Masters (main_config s)"]
  by (simp add: feed_inv_def fed_def feed_start_def make_chan_def) (simp add: NewMasters_def)

text \<open>A round that keeps the loop running publishes records made with the masters of the loop.\<close>

lemma round_publishes:
  assumes "main_phase (reloadResolvers re s) = Running"
  shows "main_phase s = Running \<and> (\<exists>rg. serves rg (main_rs (reloadResolvers re s)) \<and> published (Config_Masters (main_config s)) rg) \<and>
    Config_Masters (main_config (reloadResolvers re s)) = Config_Masters (main_config s)"
  using reloadResolvers_running [OF assms] reloadResolvers_up_to_date [OF assms] by blast

lemma feed_step_inv:
  assumes "feed_step be x y" "feed_inv be cfg x"
  shows "feed_inv be cfg y"
  using assms
proof (induction rule: feed_step.induct)
  case (notified x n d)
  then show ?case using notify_Some [OF notified.hyps(2)] detects.step [OF _ notified.hyps(2)]
    by (auto simp: feed_inv_def fed_def)
next
  case (emit x ms ch)
  then show ?case by (auto simp: feed_inv_def fed_def chan_send_def split: if_splits)
next
  case (receive x ms ch re)
  let ?s = "(fd_main x)\<lparr>main_timer := no_leader ms, main_config := (main_config (fd_main x))\<lparr>Config_Masters := ms\<rparr>\<rparr>"
  have buf: "ch_buf (fd_changed x) = ms # ch_buf ch" "ch_cap ch = ch_cap (fd_changed x)" "ch_closed ch = ch_closed (fd_changed x)"
    using receive.hyps(2) receive.prems by (auto simp: feed_inv_def chan_recv_def split: list.splits)
  have "fed (x\<lparr>fd_changed := ch, fd_received := fd_received x @ [ms], fd_main := masters_changed re ms (fd_main x)\<rparr>)"
    using round_publishes [of re ?s] by (simp add: fed_def masters_changed_def)
  then show ?case using receive.prems by (simp add: feed_inv_def buf)
next
  case (tick x re)
  then show ?case using round_publishes [of re "fd_main x"] by (auto simp: feed_inv_def fed_def)
next
  case (other x s)
  then show ?case using main_step_running [OF other.hyps(1)] by (auto simp: feed_inv_def fed_def)
qed

lemma feed_run_inv:
  "(feed_step be)\<^sup>*\<^sup>* (feed_start s) x \<Longrightarrow> feed_inv be (Config_Masters (main_config s)) x"
  by (induction rule: rtranclp_induct) (auto simp: feed_start_inv intro: feed_step_inv)

section \<open>Property\<close>

text \<open>C12: masters detected are masters served. No list of masters is lost, repeated or overtaken on its
  way from the detector to the event loop, which is at most two lists behind; and while the loop runs
  and has received what was sent, its builtin resolvers serve records that were generated with a list
  of masters that starts with the leader of the latest notification.\<close>

theorem detected_leader_is_served:
  assumes "(feed_step be)\<^sup>*\<^sup>* (feed_start s) x"
  shows "prefix (fd_received x) (sent (fd_detector x)) \<and> length (sent (fd_detector x)) \<le> length (fd_received x) + 2 \<and>
    (main_phase (fd_main x) = Running \<and> fd_notes x \<noteq> [] \<and> fd_received x = sent (fd_detector x) \<longrightarrow>
      (\<exists>rg ms. serves rg (main_rs (fd_main x)) \<and> published ms rg \<and> Config_Masters (main_config (fd_main x)) = ms \<and>
        ms \<noteq> [] \<and> hd ms = leader_after be (fd_notes x)))"
proof -
  note inv = feed_run_inv [OF assms]
  then have d: "detects be (Config_Masters (main_config s)) (fd_notes x) (fd_detector x)" and fed: "fed x"
    and sent: "sent (fd_detector x) = fd_received x @ ch_buf (fd_changed x) @ (case fd_emitting x of None \<Rightarrow> [] | Some ms \<Rightarrow> [ms])"
    and buf: "length (ch_buf (fd_changed x)) \<le> 1" by (simp_all add: feed_inv_def)
  have "\<exists>rg ms. serves rg (main_rs (fd_main x)) \<and> published ms rg \<and> Config_Masters (main_config (fd_main x)) = ms \<and>
        ms \<noteq> [] \<and> hd ms = leader_after be (fd_notes x)"
    if "main_phase (fd_main x) = Running" "fd_notes x \<noteq> []" "fd_received x = sent (fd_detector x)"
    using detects_inv [OF d] fed that unfolding fed_def by (metis length_0_conv)
  then show ?thesis using sent buf by (auto split: option.splits)
qed

definition demo_leader :: MasterInfo where
  "demo_leader = \<lparr>MasterInfo_Ip = None, MasterInfo_Port = None,
     MasterInfo_Address = Some \<lparr>Address_Ip = Some ''1.2.3.4'', Address_Port = Some 5050\<rparr>\<rparr>"

lemma demo_leader_addr: "masterAddr be (Some demo_leader) = ''1.2.3.4:5050''"
  by (simp add: masterAddr_def demo_leader_def get_default_def JoinHostPort_def Itoa_eval Contains_def)

text \<open>ZooKeeper names the leader, and the loop generates records with it.\<close>

theorem detected_leader_is_served_witness:
  "\<exists>x rg. (feed_step True)\<^sup>*\<^sup>* (feed_start demo_main_state) x \<and> main_phase (fd_main x) = Running \<and>
     serves rg (main_rs (fd_main x)) \<and> hd (Config_Masters (main_config (fd_main x))) = ''1.2.3.4:5050''"
proof -
  let ?ms = "[''1.2.3.4:5050'']" and ?n = "LeaderChanged (Some demo_leader)" and ?x = "feed_start demo_main_state"
  have cfg: "Config_Masters (main_config demo_main_state) = ?ms"
    by (simp add: demo_main_state_def demo_main_config_def demo_config_def)
  obtain d where d: "notify True ?n (fd_detector ?x) = Some d" and ms: "masters d = ?ms" "sent d = [?ms]"
    using notify_total [of "fd_detector ?x" True ?n] notify_Some [of True ?n "fd_detector ?x"]
    by (auto simp: feed_start_def NewMasters_def cfg ordered_def demo_leader_addr)
  let ?x1 = "?x\<lparr>fd_notes := fd_notes ?x @ [?n], fd_detector := d, fd_emitting := Some (masters d)\<rparr>"
  let ?c = "(make_chan 1 :: string list chan)\<lparr>ch_buf := [?ms]\<rparr>"
  let ?x2 = "?x1\<lparr>fd_emitting := None, fd_changed := ?c\<rparr>"
  let ?x3 = "?x2\<lparr>fd_changed := make_chan 1, fd_received := fd_received ?x2 @ [?ms], fd_main := masters_changed demo_round ?ms (fd_main ?x2)\<rparr>"
  have "feed_step True ?x ?x1" by (rule feed_step.notified [OF _ d]) (simp add: feed_start_def)
  moreover have "feed_step True ?x1 ?x2"
    by (rule feed_step.emit [where ms = ?ms]) (simp_all add: ms feed_start_def make_chan_def chan_send_def)
  moreover have "feed_step True ?x2 ?x3"
    by (rule feed_step.receive) (simp_all add: feed_start_def demo_main_state_def make_chan_def chan_recv_def)
  ultimately have run: "(feed_step True)\<^sup>*\<^sup>* ?x ?x3" by (meson converse_rtranclp_into_rtranclp rtranclp.rtrancl_refl)
  obtain rg where "ParseState (\<lambda>_. None) demo_load 7 (NewRecordGenerator demo_main_config) = Some (None, rg)"
    using demo_ParseState unfolding demo_main_config_def by blast
  moreover have "demo_main_config\<lparr>Config_Masters := ?ms\<rparr> = demo_main_config" by (simp add: demo_main_config_def demo_config_def)
  ultimately have phase: "main_phase (fd_main ?x3) = Running"
    by (simp add: masters_changed_def reloadResolvers_def demo_round_def feed_start_def demo_main_state_def)
  have "leader_after True [?n] = ''1.2.3.4:5050''" by (simp add: leader_after_def demo_leader_addr)
  moreover have "fd_notes ?x3 = [?n]" "fd_received ?x3 = sent (fd_detector ?x3)" by (simp_all add: feed_start_def ms)
  ultimately show ?thesis using detected_leader_is_served [OF run] run phase by (intro exI [of _ ?x3]) auto
qed

end
