(* ===== verification/Dns_Test.thy ===== *)
theory Dns_Test
  imports Resolver_Props
begin

text \<open>
  \<open>dnstest/message.go\<close> and \<open>dnstest/response_recorder.go\<close>: the messages the program's tests
  expect, built from options, and the response writer that records a reply; and the agreement of
  the Mesos handler with them for every query of the types that the tests use. The random message
  id is a parameter.
\<close>

section \<open>Messages from options\<close>

type_synonym MsgOpt = "Msg \<Rightarrow> Msg"

definition Message :: "MsgOpt list \<Rightarrow> Msg" where
  "Message opts = fold (\<lambda>opt m. opt m) opts new_Msg"

definition Header :: "bool \<Rightarrow> int \<Rightarrow> MsgOpt" where
  "Header auth rc m = m\<lparr>Msg_Authoritative := auth, Msg_Response := True, Msg_Rcode := rc, Msg_Compress := True\<rparr>"

definition SetQuestion :: "16 word \<Rightarrow> string \<Rightarrow> 16 word \<Rightarrow> MsgOpt" where
  "SetQuestion i z t m = m\<lparr>Msg_Id := i, Msg_RecursionDesired := True,
     Msg_Question := [\<lparr>Question_Name = z, Question_Qtype = t, Question_Qclass = ClassINET\<rparr>]\<rparr>"

definition Question_opt :: "16 word \<Rightarrow> string \<Rightarrow> 16 word \<Rightarrow> MsgOpt" where
  "Question_opt i name qtype m = SetQuestion i name qtype m"

definition Answers :: "RR list \<Rightarrow> MsgOpt" where
  "Answers rrs m = m\<lparr>Msg_Answer := Msg_Answer m @ rrs\<rparr>"

definition NSs :: "RR list \<Rightarrow> MsgOpt" where
  "NSs rrs m = m\<lparr>Msg_Ns := Msg_Ns m @ rrs\<rparr>"

definition Extras :: "RR list \<Rightarrow> MsgOpt" where
  "Extras rrs m = m\<lparr>Msg_Extra := Msg_Extra m @ rrs\<rparr>"

definition RRHeader :: "string \<Rightarrow> 16 word \<Rightarrow> 32 word \<Rightarrow> RR_Header" where
  "RRHeader name rrtype lifetime = \<lparr>Hdr_Name = name, Hdr_Rrtype = rrtype, Hdr_Class = ClassINET, Hdr_Ttl = lifetime, Hdr_Rdlength = 0\<rparr>"

definition A_rec :: "RR_Header \<Rightarrow> IP \<Rightarrow> RR" where
  "A_rec hdr ip = A_RR hdr (To4 ip)"

definition SRV_rec :: "RR_Header \<Rightarrow> string \<Rightarrow> 16 word \<Rightarrow> 16 word \<Rightarrow> 16 word \<Rightarrow> RR" where
  "SRV_rec hdr target port priority weight = SRV_RR hdr priority weight port target"

definition NS_rec :: "RR_Header \<Rightarrow> string \<Rightarrow> RR" where
  "NS_rec hdr ns = NS_RR hdr ns"

definition SOA_rec :: "RR_Header \<Rightarrow> string \<Rightarrow> string \<Rightarrow> 32 word \<Rightarrow> RR" where
  "SOA_rec hdr ns mbox minttl = SOA_RR hdr ns mbox 0 60 600 86400 minttl"

section \<open>Recording a reply\<close>

record 'a ResponseRecorder =
  Rec_Local :: 'a
  Rec_Remote :: 'a
  Rec_Msg :: "Msg option"

definition LocalAddr :: "'a ResponseRecorder \<Rightarrow> 'a" where
  "LocalAddr r = Rec_Local r"

definition RemoteAddr :: "'a ResponseRecorder \<Rightarrow> 'a" where
  "RemoteAddr r = Rec_Remote r"

text \<open>\<open>WriteMsg\<close> keeps the message and returns nil; \<open>Write\<close> reports no bytes and no error.\<close>

definition WriteMsg :: "Msg \<Rightarrow> 'a ResponseRecorder \<Rightarrow> unit option \<times> 'a ResponseRecorder" where
  "WriteMsg m r = (None, r\<lparr>Rec_Msg := Some m\<rparr>)"

definition Write :: "string \<Rightarrow> 'a ResponseRecorder \<Rightarrow> (int \<times> unit option) \<times> 'a ResponseRecorder" where
  "Write bs r = ((0, None), r)"

text \<open>A handler that writes at most one message, run on a recorder.\<close>

definition record_reply :: "Msg option \<Rightarrow> 'a ResponseRecorder \<Rightarrow> 'a ResponseRecorder" where
  "record_reply m r = (case m of None \<Rightarrow> r | Some m \<Rightarrow> snd (WriteMsg m r))"

section \<open>The handler against the test messages\<close>

text \<open>Equality up to the order of the records in each section.\<close>

definition equivalent :: "Msg \<Rightarrow> Msg \<Rightarrow> bool" where
  "equivalent m m' \<longleftrightarrow>
     m\<lparr>Msg_Answer := [], Msg_Ns := [], Msg_Extra := []\<rparr> = m'\<lparr>Msg_Answer := [], Msg_Ns := [], Msg_Extra := []\<rparr> \<and>
     mset (Msg_Answer m) = mset (Msg_Answer m') \<and> mset (Msg_Ns m) = mset (Msg_Ns m') \<and> mset (Msg_Extra m) = mset (Msg_Extra m')"

definition addresses :: "RecordGenerator \<Rightarrow> string \<Rightarrow> IP list" where
  "addresses rg name = List.map_filter ParseIP (rrs_look (RG_As rg) name)"

text \<open>
  The well-formed SRV targets of a name, and the hosts of those that have addresses; a test lists
  one address for each such host.
\<close>

definition srv_targets :: "RecordGenerator \<Rightarrow> string \<Rightarrow> string list" where
  "srv_targets rg name = filter (\<lambda>s. snd (snd (SplitHostPort s)) = None) (rrs_look (RG_SRVs rg) name)"

definition srv_hosts :: "RecordGenerator \<Rightarrow> string \<Rightarrow> string list" where
  "srv_hosts rg name = remdups (filter (\<lambda>h. rrs_look (RG_As rg) h \<noteq> []) (map srv_host (srv_targets rg name)))"

definition target_record :: "RR_Header \<Rightarrow> string \<Rightarrow> RR" where
  "target_record hdr s = SRV_rec hdr (fst (SplitHostPort s)) (of_int (fst (Atoi (fst (snd (SplitHostPort s)))))) 0 0"

text \<open>
  What a test expects for a query of one of the types A, AAAA, SRV, SOA and NS: the addresses of
  the name, or the SOA record of the domain with the code that tells whether the name exists (an
  AAAA query is told that it does); the targets of the service with an address of each host; the
  SOA or the NS record.
\<close>

definition test_message :: "BuiltinConfig \<Rightarrow> RecordGenerator \<Rightarrow> (string \<Rightarrow> IP) \<Rightarrow> 16 word \<Rightarrow> string \<Rightarrow> 16 word \<Rightarrow> Msg" where
  "test_message c rg pick i qname t =
     (let name = ToLower (cleanWild qname); rc = RG_Config rg;
          question = Question_opt i qname t;
          soa = SOA_rec (RRHeader qname TypeSOA (ttl c)) (Config_SOAMname rc) (Config_SOARname rc) (ttl c);
          exists = rrs_look (RG_SRVs rg) name \<noteq> [] \<or> rrs_look (RG_As rg) name \<noteq> []
      in if t = TypeA then
           (if addresses rg name \<noteq> []
            then Message [question, Header True RcodeSuccess, Answers (map (A_rec (RRHeader name TypeA (ttl c))) (addresses rg name))]
            else Message [question, Header True (if exists then RcodeSuccess else RcodeNameError), NSs [soa]])
         else if t = TypeSRV then
           Message [question, Header True RcodeSuccess, Answers (map (target_record (RRHeader qname TypeSRV (ttl c))) (srv_targets rg name)),
             Extras (map (\<lambda>h. A_rec (RRHeader h TypeA (ttl c)) (pick h)) (srv_hosts rg name))]
         else if t = TypeNS then
           Message [question, Header True RcodeSuccess, NSs [NS_rec (RRHeader qname TypeNS (ttl c)) (Config_SOAMname rc)]]
         else Message [question, Header True RcodeSuccess, NSs [soa]])"

text \<open>The SOA settings the test messages have built in.\<close>

definition test_soa :: "Config \<Rightarrow> bool" where
  "test_soa rc \<longleftrightarrow> Config_SOASerial rc = 0 \<and> Config_SOARefresh rc = 60 \<and> Config_SOARetry rc = 600 \<and> Config_SOAExpire rc = 86400"

lemma oks_formatA:
  "oks (map (formatA c name) (rrs_look (RG_As rg) name)) = map (A_rec (RRHeader name TypeA (ttl c))) (addresses rg name)"
proof -
  have "oks (map (formatA c name) as) = map (A_rec (RRHeader name TypeA (ttl c))) (List.map_filter ParseIP as)" for as
    by (induction as) (auto simp: formatA_def A_rec_def rr_header_def RRHeader_def map_filter_simps split: option.split)
  then show ?thesis by (simp add: addresses_def)
qed

lemma formatSRV_test:
  "formatSRV c qname s = (if snd (snd (SplitHostPort s)) = None then Inr (target_record (RRHeader qname TypeSRV (ttl c)) s) else Inl InvalidTarget)"
  by (simp add: formatSRV_def target_record_def SRV_rec_def rr_header_def RRHeader_def case_prod_beta split: option.split)

lemma oks_formatSRV:
  "oks (map (formatSRV c qname) (rrs_look (RG_SRVs rg) name)) = map (target_record (RRHeader qname TypeSRV (ttl c))) (srv_targets rg name)"
proof -
  have "oks (map (formatSRV c qname) ss) = map (target_record (RRHeader qname TypeSRV (ttl c)))
      (filter (\<lambda>s. snd (snd (SplitHostPort s)) = None) ss)" for ss
    by (induction ss) (simp_all add: formatSRV_test)
  then show ?thesis by (simp add: srv_targets_def)
qed

text \<open>The addresses of the hosts in a reply, when all stored addresses are addresses.\<close>

definition valid_hosts :: "RecordGenerator \<Rightarrow> string \<Rightarrow> bool" where
  "valid_hosts rg name \<longleftrightarrow> (\<forall>h\<in>set (srv_hosts rg name). \<forall>a\<in>set (rrs_look (RG_As rg) h). ParseIP a \<noteq> None)"

lemma extra_ok_test:
  assumes "extra_ok c rg qname (rrs_look (RG_SRVs rg) name) es" "valid_hosts rg name"
  shows "\<exists>pick. (\<forall>h\<in>set (srv_hosts rg name). pick h \<in> set (addresses rg h)) \<and>
    mset es = mset (map (\<lambda>h. A_rec (RRHeader h TypeA (ttl c)) (pick h)) (srv_hosts rg name))"
proof -
  let ?hosts = "srv_hosts rg name" and ?rec = "\<lambda>h. A_rec (RRHeader h TypeA (ttl c))"
  have dist: "distinct (map rr_name es)" using assms(1) by (simp add: extra_ok_def)
  have from_host: "\<exists>h\<in>set ?hosts. \<exists>ip\<in>set (addresses rg h). e = ?rec h ip" if "e \<in> set es" for e
  proof -
    obtain srv a rr where srv: "srv \<in> set (rrs_look (RG_SRVs rg) name)" "formatSRV c qname srv = Inr rr"
      and a: "a \<in> set (rrs_look (RG_As rg) (srv_host srv))" "formatA c (srv_host srv) a = Inr e"
      using assms(1) [unfolded extra_ok_def, THEN conjunct2, THEN conjunct1, rule_format, OF \<open>e \<in> set es\<close>] by (elim bexE conjE exE)
    have "srv \<in> set (srv_targets rg name)" using srv by (simp add: srv_targets_def formatSRV_test split: if_splits)
    then have "srv_host srv \<in> set ?hosts" using a(1) by (auto simp: srv_hosts_def)
    moreover obtain ip where "ParseIP a = Some ip" "e = ?rec (srv_host srv) ip"
      using a(2) by (auto simp: formatA_Inr A_rec_def rr_header_def RRHeader_def)
    ultimately show ?thesis using a(1) by (force simp: addresses_def List.map_filter_def)
  qed
  have "\<exists>ip\<in>set (addresses rg h). ?rec h ip \<in> set es" if h: "h \<in> set ?hosts" for h
  proof -
    obtain srv where srv: "srv \<in> set (rrs_look (RG_SRVs rg) name)" "snd (snd (SplitHostPort srv)) = None" "h = srv_host srv"
      "rrs_look (RG_As rg) h \<noteq> []" using h by (auto simp: srv_hosts_def srv_targets_def)
    have "\<forall>a\<in>set (rrs_look (RG_As rg) (srv_host srv)). ParseIP a \<noteq> None"
      using assms(2) h unfolding valid_hosts_def srv(3) by blast
    then have "h \<in> rr_name ` set es" using assms(1) srv unfolding extra_ok_def by (simp add: formatSRV_test)
    then obtain e where "e \<in> set es" "rr_name e = h" by blast
    then show ?thesis using from_host [of e] by (auto simp: A_rec_def RRHeader_def)
  qed
  then obtain pick where pick: "\<And>h. h \<in> set ?hosts \<Longrightarrow> pick h \<in> set (addresses rg h) \<and> ?rec h (pick h) \<in> set es" by metis
  let ?es = "map (\<lambda>h. ?rec h (pick h)) ?hosts"
  have names: "rr_name (?rec h ip) = h" for h ip by (simp add: A_rec_def RRHeader_def)
  have "e \<in> set ?es" if "e \<in> set es" for e
  proof -
    obtain h ip where h: "h \<in> set ?hosts" "e = ?rec h ip" using from_host [OF \<open>e \<in> set es\<close>] by blast
    have "inj_on rr_name (set es)" using dist by (simp add: distinct_map)
    then have "e = ?rec h (pick h)" using pick [OF h(1)] that h(2) names by (metis inj_onD)
    then show ?thesis using h(1) by auto
  qed
  then have "set es = set ?es" using pick by auto
  moreover have "map rr_name ?es = ?hosts" by (simp add: names comp_def)
  then have "distinct ?es" using distinct_map [of rr_name ?es] by (simp add: srv_hosts_def)
  moreover have "distinct es" using dist by (simp add: distinct_map)
  ultimately have "mset es = mset ?es" by (simp only: set_eq_iff_mset_eq_distinct)
  then show ?thesis using pick by blast
qed

lemma formatSOA_test:
  assumes "test_soa rc"
  shows "formatSOA c rc dm = SOA_rec (RRHeader dm TypeSOA (ttl c)) (Config_SOAMname rc) (Config_SOARname rc) (ttl c)"
  using assms by (simp add: test_soa_def formatSOA_def SOA_rec_def RRHeader_def rr_header_def)

lemma formatNS_test: "formatNS c rc dm = NS_rec (RRHeader dm TypeNS (ttl c)) (Config_SOAMname rc)"
  by (simp add: formatNS_def NS_rec_def RRHeader_def rr_header_def)

lemma Message_simps [simp]: "Message [] = new_Msg" "Message (opts @ [opt]) = opt (Message opts)"
  by (simp_all add: Message_def)

lemma Message_parts:
  "Message [Question_opt i qname t, Header True rc, Answers as] = new_Msg\<lparr>Msg_Id := i, Msg_Response := True, Msg_Authoritative := True,
     Msg_RecursionDesired := True, Msg_Rcode := rc,
     Msg_Question := [\<lparr>Question_Name = qname, Question_Qtype = t, Question_Qclass = ClassINET\<rparr>], Msg_Answer := as, Msg_Compress := True\<rparr>"
  "Message [Question_opt i qname t, Header True rc, NSs ns] = new_Msg\<lparr>Msg_Id := i, Msg_Response := True, Msg_Authoritative := True,
     Msg_RecursionDesired := True, Msg_Rcode := rc,
     Msg_Question := [\<lparr>Question_Name = qname, Question_Qtype = t, Question_Qclass = ClassINET\<rparr>], Msg_Ns := ns, Msg_Compress := True\<rparr>"
  "Message [Question_opt i qname t, Header True rc, Answers as, Extras es] = new_Msg\<lparr>Msg_Id := i, Msg_Response := True, Msg_Authoritative := True,
     Msg_RecursionDesired := True, Msg_Rcode := rc,
     Msg_Question := [\<lparr>Question_Name = qname, Question_Qtype = t, Question_Qclass = ClassINET\<rparr>], Msg_Answer := as, Msg_Extra := es,
     Msg_Compress := True\<rparr>"
  by (simp_all add: Message_def Question_opt_def SetQuestion_def Header_def Answers_def NSs_def Extras_def new_Msg_def)

definition test_types :: "16 word set" where
  "test_types = {TypeA, TypeAAAA, TypeSRV, TypeSOA, TypeNS}"

text \<open>The message the handler builds is the one the tests expect.\<close>

lemma mesos_message_test:
  assumes "mesos_message c rg name q r m" "test_soa (RG_Config rg)" "\<not> BC_RecurseOn c"
    and q: "q = \<lparr>Question_Name = qname, Question_Qtype = t, Question_Qclass = ClassINET\<rparr>" "name = ToLower (cleanWild qname)"
    and r: "Msg_Id r = i" "Msg_RecursionDesired r" and t: "t \<in> test_types" "t = TypeSRV \<longrightarrow> valid_hosts rg name"
  shows "\<exists>pick. (t = TypeSRV \<longrightarrow> (\<forall>h\<in>set (srv_hosts rg name). pick h \<in> set (addresses rg h))) \<and>
    equivalent m (test_message c rg pick i qname t)"
proof -
  define ma where "ma = mesos_answers c rg name q"
  obtain as es where m: "m = new_Msg\<lparr>Msg_Id := i, Msg_Response := True, Msg_Authoritative := True,
       Msg_RecursionDesired := True, Msg_RecursionAvailable := False,
       Msg_Rcode := mesos_rcode rg name q, Msg_Question := [q], Msg_Answer := as,
       Msg_Ns := mesos_authority c rg q (ma \<noteq> []), Msg_Extra := es, Msg_Compress := True\<rparr>"
    and as: "mset as = mset ma" and es: "mesos_extra c rg name q es"
    using assms(1,3) r unfolding mesos_message_def ma_def by auto
  note parts = equivalent_def test_message_def Let_def m as q(1) mesos_rcode_def mesos_authority_def
    formatSOA_test [OF assms(2)] formatNS_test qtypes new_Msg_def Message_parts
  show ?thesis
  proof (cases "t = TypeSRV")
    case True
    then obtain pick where pick: "\<forall>h\<in>set (srv_hosts rg name). pick h \<in> set (addresses rg h)"
      "mset es = mset (map (\<lambda>h. A_rec (RRHeader h TypeA (ttl c)) (pick h)) (srv_hosts rg name))"
      using es extra_ok_test [of c rg qname name es] t(2) by (auto simp: mesos_extra_def q(1))
    have "ma = map (target_record (RRHeader qname TypeSRV (ttl c))) (srv_targets rg name)"
      unfolding ma_def mesos_answers_def q(1) by (simp add: True oks_formatSRV qtypes)
    then have "equivalent m (test_message c rg pick i qname t)" using True pick(2) by (simp add: parts flip: q(2))
    then show ?thesis using pick(1) by blast
  next
    case False
    have es': "es = []" using es t(1) False q(1) by (auto simp: mesos_extra_def qtypes test_types_def)
    have ma: "ma = (if t = TypeA then map (A_rec (RRHeader name TypeA (ttl c))) (addresses rg name) else [])"
      using t(1) False q(1) unfolding ma_def by (auto simp: mesos_answers_def oks_formatA qtypes test_types_def)
    have "addresses rg name \<noteq> [] \<Longrightarrow> rrs_look (RG_As rg) name \<noteq> []" by (auto simp: addresses_def map_filter_simps)
    then have a: "t = TypeA \<Longrightarrow> equivalent m (test_message c rg pick i qname t)" for pick by (simp add: parts es' ma flip: q(2))
    have "equivalent m (test_message c rg pick i qname t)" if "t \<in> {TypeAAAA, TypeSOA, TypeNS}" for pick
      using that by (elim insertE emptyE) (simp_all add: parts es' ma)
    then have "equivalent m (test_message c rg pick i qname t)" for pick using a t(1) False by (auto simp: test_types_def)
    then show ?thesis using False by blast
  qed
qed

section \<open>Properties\<close>

text \<open>C21: the handler of the Mesos domain passes every test of the form its tests have, for all
  records and names at once: on a recorder, a query of one of the types of those tests (A, AAAA,
  SRV, SOA, NS) leaves a reply that equals the test message up to the order of its records: the
  addresses of the name, the targets of the service with one address of every host that has any,
  the SOA or the NS record. Assumed is what holds in the tests: recursion is off, the SOA settings
  are those built into the test messages, the stored addresses of the hosts of a service are
  addresses, and the reply fits the size limit of the transport.\<close>

theorem HandleMesos_passes_tests:
  assumes "intn_ok intn" "orders_ok ords" "test_soa (RG_Config (Res_rg res))" "\<not> BC_RecurseOn (Res_config res)"
    and t: "t \<in> test_types" "t = TypeSRV \<longrightarrow> valid_hosts (Res_rg res) (ToLower (cleanWild qname))"
    and r: "r = Message [Question_opt i qname t]"
    and fits: "\<And>m pick. equivalent m (test_message (Res_config res) (Res_rg res) pick i qname t) \<Longrightarrow> mlen m \<le> size_limit network"
  shows "\<exists>m pick. Rec_Msg (record_reply (fst (HandleMesos intn mlen ords res network r lg)) rw) = Some m \<and>
    (t = TypeSRV \<longrightarrow> (\<forall>h\<in>set (srv_hosts (Res_rg res) (ToLower (cleanWild qname))). pick h \<in> set (addresses (Res_rg res) h))) \<and>
    equivalent m (test_message (Res_config res) (Res_rg res) pick i qname t)"
proof -
  let ?q = "\<lparr>Question_Name = qname, Question_Qtype = t, Question_Qclass = ClassINET\<rparr>"
  have q: "Msg_Question r = ?q # []" and r': "Msg_Id r = i" "Msg_RecursionDesired r"
    by (simp_all add: r Message_def Question_opt_def SetQuestion_def)
  obtain m failed g where m: "mesos_message (Res_config res) (Res_rg res) (ToLower (cleanWild qname)) ?q r m"
    and h: "HandleMesos intn mlen ords res network r lg = (Some (truncate_to mlen (size_limit network) m), failed, g)"
    using HandleMesos_spec [OF assms(1,2) q, of res mlen network lg] by auto
  obtain pick where pick: "t = TypeSRV \<longrightarrow>
      (\<forall>h\<in>set (srv_hosts (Res_rg res) (ToLower (cleanWild qname))). pick h \<in> set (addresses (Res_rg res) h))"
    "equivalent m (test_message (Res_config res) (Res_rg res) pick i qname t)"
    using mesos_message_test [OF m assms(3,4) refl refl r' t] by blast
  have "Msg_Truncated m = False" using m by (auto simp: mesos_message_def new_Msg_def)
  then have "truncate_to mlen (size_limit network) m = m" using fits [OF pick(2)] by (simp add: truncate_to_def Let_def)
  then show ?thesis using pick by (auto simp: h record_reply_def WriteMsg_def)
qed

text \<open>A service with two ports on one host, asked for as in the program's tests.\<close>

definition demo_srv_resolver :: "(nat, nat) Resolver" where
  "demo_srv_resolver = demo_resolver\<lparr>Res_config := builtin_NewConfig\<lparr>BC_RecurseOn := False\<rparr>,
     Res_rg := (Res_rg demo_resolver)\<lparr>RG_SRVs := Some [(''_s._tcp.mesos.'', [''a.mesos.:80'', ''a.mesos.:443''])]\<rparr>\<rparr>"

lemma demo_srv_facts:
  "srv_targets (Res_rg demo_srv_resolver) ''_s._tcp.mesos.'' = [''a.mesos.:80'', ''a.mesos.:443'']"
  "srv_hosts (Res_rg demo_srv_resolver) ''_s._tcp.mesos.'' = [''a.mesos.'']"
  "addresses (Res_rg demo_srv_resolver) ''a.mesos.'' = [v4InV6Prefix @ [1, 2, 3, 4]]"
proof -
  have split: "SplitHostPort ''a.mesos.:80'' = (''a.mesos.'', ''80'', None)" "SplitHostPort ''a.mesos.:443'' = (''a.mesos.'', ''443'', None)"
    "srv_host ''a.mesos.:80'' = ''a.mesos.''" "srv_host ''a.mesos.:443'' = ''a.mesos.''" by code_simp+
  have look: "rrs_look (RG_SRVs (Res_rg demo_srv_resolver)) ''_s._tcp.mesos.'' = [''a.mesos.:80'', ''a.mesos.:443'']"
    "rrs_look (RG_As (Res_rg demo_srv_resolver)) ''a.mesos.'' = [''1.2.3.4'']"
    by (simp_all add: demo_srv_resolver_def demo_resolver_def rrs_look_def rrs_get_def)
  show targets: "srv_targets (Res_rg demo_srv_resolver) ''_s._tcp.mesos.'' = [''a.mesos.:80'', ''a.mesos.:443'']"
    by (simp add: srv_targets_def look split)
  show "srv_hosts (Res_rg demo_srv_resolver) ''_s._tcp.mesos.'' = [''a.mesos.'']" by (simp add: srv_hosts_def targets split look)
  show "addresses (Res_rg demo_srv_resolver) ''a.mesos.'' = [v4InV6Prefix @ [1, 2, 3, 4]]"
    by (simp add: addresses_def look map_filter_simps demo_address)
qed

theorem HandleMesos_passes_tests_witness:
  "\<exists>m. Rec_Msg (record_reply (fst (HandleMesos (\<lambda>g n. (0, g)) (\<lambda>_. 60) demo_orders demo_srv_resolver ''udp''
        (Message [Question_opt 7 ''_s._TCP.mesos.'' TypeSRV]) CurLog)) \<lparr>Rec_Local = (), Rec_Remote = (), Rec_Msg = None\<rparr>) = Some m \<and>
     equivalent m (Message [Question_opt 7 ''_s._TCP.mesos.'' TypeSRV, Header True RcodeSuccess,
        Answers [SRV_rec (RRHeader ''_s._TCP.mesos.'' TypeSRV 60) ''a.mesos.'' 80 0 0,
          SRV_rec (RRHeader ''_s._TCP.mesos.'' TypeSRV 60) ''a.mesos.'' 443 0 0],
        Extras [A_rec (RRHeader ''a.mesos.'' TypeA 60) (v4InV6Prefix @ [1, 2, 3, 4])]])"
proof -
  let ?res = demo_srv_resolver and ?qname = "''_s._TCP.mesos.''"
  have name: "ToLower (cleanWild ?qname) = ''_s._tcp.mesos.''" by code_simp
  have soa: "test_soa (RG_Config (Res_rg ?res))" "\<not> BC_RecurseOn (Res_config ?res)"
    by (simp_all add: demo_srv_resolver_def demo_resolver_def demo_gen_def NewRecordGenerator_def NewConfig_def test_soa_def)
  have valid: "valid_hosts (Res_rg ?res) ''_s._tcp.mesos.''"
    by (simp add: valid_hosts_def demo_srv_facts) (simp add: demo_srv_resolver_def demo_resolver_def rrs_look_def rrs_get_def demo_address)
  have targets: "target_record hdr ''a.mesos.:80'' = SRV_rec hdr ''a.mesos.'' 80 0 0"
    "target_record hdr ''a.mesos.:443'' = SRV_rec hdr ''a.mesos.'' 443 0 0" for hdr by (code_simp; simp)+
  have "ttl (Res_config ?res) = 60" by (simp add: ttl_def demo_srv_resolver_def builtin_NewConfig_def)
  then have msg: "test_message (Res_config ?res) (Res_rg ?res) pick 7 ?qname TypeSRV =
      Message [Question_opt 7 ?qname TypeSRV, Header True RcodeSuccess,
        Answers [SRV_rec (RRHeader ?qname TypeSRV 60) ''a.mesos.'' 80 0 0, SRV_rec (RRHeader ?qname TypeSRV 60) ''a.mesos.'' 443 0 0],
        Extras [A_rec (RRHeader ''a.mesos.'' TypeA 60) (pick ''a.mesos.'')]]" for pick
    by (simp add: test_message_def Let_def name demo_srv_facts targets qtypes)
  have "intn_ok (\<lambda>g n. (0, g))" "TypeSRV \<in> test_types" "(60 :: int) \<le> size_limit ''udp''"
    by (simp_all add: intn_ok_def test_types_def size_limit_def MinMsgSize_def MaxMsgSize_def)
  from HandleMesos_passes_tests [where res = ?res and t = TypeSRV and i = 7 and qname = ?qname and mlen = "\<lambda>_. 60" and network = "''udp''"
        and lg = CurLog and rw = "\<lparr>Rec_Local = (), Rec_Remote = (), Rec_Msg = None\<rparr>",
      OF this(1) demo_orders_ok soa this(2) _ refl this(3), unfolded name] valid
  show ?thesis by (auto simp: demo_srv_facts msg)
qed

end
