(* ===== verification/Tools.thy ===== *)
theory Tools
  imports Dns_Test
begin

text \<open>
  \<open>tools/main.go\<close>: the benchmark client. One query is the message it sends and the line it
  prints; the program starts its queries as goroutines and ends without waiting for them.
\<close>

section \<open>One query\<close>

definition IsFqdn :: "string \<Rightarrow> bool" where
  "IsFqdn s = (if length s = 0 then False else s ! (length s - 1) = CHR ''.'')"

definition Fqdn :: "string \<Rightarrow> string" where
  "Fqdn s = (if IsFqdn s then s else s @ ''.'')"

definition query_msg :: "string \<Rightarrow> Msg" where
  "query_msg dm = new_Msg\<lparr>Msg_Question := [\<lparr>Question_Name = Fqdn dm, Question_Qtype = TypeA, Question_Qclass = ClassINET\<rparr>]\<rparr>"

text \<open>\<open>exchange\<close> is the client's: network, message and server give an error or none; the error is printed.\<close>

definition query :: "(string \<Rightarrow> Msg \<Rightarrow> string \<Rightarrow> string option) \<Rightarrow> string \<Rightarrow> string list" where
  "query exchange dm = (case exchange ''udp'' (query_msg dm) ''127.0.0.1:8053'' of None \<Rightarrow> [] | Some e \<Rightarrow> [e])"

section \<open>The benchmark\<close>

text \<open>How many queries were started, run and are finished; whether the program has printed its rate and ended.\<close>

record bench =
  bench_i :: nat
  bench_running :: nat
  bench_finished :: nat
  bench_ended :: bool

definition cnt :: nat where
  "cnt = 10000"

definition bench_start :: bench where
  "bench_start = \<lparr>bench_i = 0, bench_running = 0, bench_finished = 0, bench_ended = False\<rparr>"

inductive bench_step :: "bench \<Rightarrow> bench \<Rightarrow> bool" where
  go_query: "\<not> bench_ended b \<Longrightarrow> bench_i b < cnt \<Longrightarrow>
    bench_step b (b\<lparr>bench_i := bench_i b + 1, bench_running := bench_running b + 1\<rparr>)"
| finish: "\<not> bench_ended b \<Longrightarrow> bench_running b > 0 \<Longrightarrow>
    bench_step b (b\<lparr>bench_running := bench_running b - 1, bench_finished := bench_finished b + 1\<rparr>)"
| report: "\<not> bench_ended b \<Longrightarrow> bench_i b = cnt \<Longrightarrow> bench_step b (b\<lparr>bench_ended := True\<rparr>)"

inductive_cases bench_stepE: "bench_step b b'"

section \<open>Lemmas\<close>

lemma Fqdn_fqdn: "IsFqdn (Fqdn s)" and Fqdn_idem: "Fqdn (Fqdn s) = Fqdn s"
  by (auto simp: Fqdn_def IsFqdn_def nth_append)

lemma bench_counts:
  assumes "bench_step\<^sup>*\<^sup>* bench_start b"
  shows "bench_i b = bench_running b + bench_finished b \<and> bench_i b \<le> cnt \<and> (bench_ended b \<longrightarrow> bench_i b = cnt)"
  using assms by (induction rule: rtranclp_induct) (auto simp: bench_start_def elim!: bench_stepE)

lemma bench_spawns: "n \<le> cnt \<Longrightarrow> bench_step\<^sup>*\<^sup>* bench_start (bench_start\<lparr>bench_i := n, bench_running := n\<rparr>)"
proof (induction n)
  case (Suc n)
  have "bench_step (bench_start\<lparr>bench_i := n, bench_running := n\<rparr>) (bench_start\<lparr>bench_i := Suc n, bench_running := Suc n\<rparr>)"
    using bench_step.go_query [of "bench_start\<lparr>bench_i := n, bench_running := n\<rparr>"] Suc.prems by (simp add: bench_start_def)
  then show ?case using Suc by (meson Suc_leD rtranclp.rtrancl_into_rtrancl)
qed (simp add: bench_start_def)

text \<open>
  The reported rate says nothing about the queries: the program may print it and end when not one
  of them has finished.
\<close>

lemma bench_does_not_wait: "\<exists>b. bench_step\<^sup>*\<^sup>* bench_start b \<and> bench_ended b \<and> bench_finished b = 0 \<and> bench_running b = cnt"
proof -
  let ?b = "bench_start\<lparr>bench_i := cnt, bench_running := cnt\<rparr>"
  have "bench_step ?b (?b\<lparr>bench_ended := True\<rparr>)" by (rule bench_step.report) (simp_all add: bench_start_def)
  then show ?thesis using bench_spawns [of cnt] by (intro exI [of _ "?b\<lparr>bench_ended := True\<rparr>"]) (simp add: bench_start_def)
qed

text \<open>The query of the benchmark is one the builtin resolver answers: it has a question with an absolute name.\<close>

lemma query_msg_question:
  "Msg_Question (query_msg dm) = \<lparr>Question_Name = Fqdn dm, Question_Qtype = TypeA, Question_Qclass = ClassINET\<rparr> # []"
  by (simp add: query_msg_def)

end
