(* ===== verification/Locked_Source.thy ===== *)
theory Locked_Source
  imports Prelude
begin

text \<open>
  \<open>resolvers/builtin/rand.go\<close>: the random source behind a mutex. The wrapped source is not safe
  for concurrent use: a call reads its state and writes it back in a separate step. Goroutines
  (numbered) call \<open>Int63\<close> and \<open>Seed\<close> in any interleaving; the source itself is a parameter.
\<close>

section \<open>The calls\<close>

text \<open>Where a goroutine is: outside, or inside a call after its lock, load and store.\<close>

datatype 's call =
    Idle
  | Int63_locked | Int63_loaded 's | Int63_stored int
  | Seed_locked int | Seed_stored int

datatype op = Int63Op int | SeedOp int

record 's lockedSource =
  lk :: "nat option"
  src :: 's
  calls :: "nat \<Rightarrow> 's call"
  returned :: "(nat \<times> op) list"

definition locked_start :: "'s \<Rightarrow> 's lockedSource" where
  "locked_start s = \<lparr>lk = None, src = s, calls = (\<lambda>_. Idle), returned = []\<rparr>"

inductive locked_step :: "('s \<Rightarrow> int \<times> 's) \<Rightarrow> (int \<Rightarrow> 's \<Rightarrow> 's) \<Rightarrow> 's lockedSource \<Rightarrow> 's lockedSource \<Rightarrow> bool"
  for int63 :: "'s \<Rightarrow> int \<times> 's" and reseed :: "int \<Rightarrow> 's \<Rightarrow> 's" where
  Int63_Lock: "calls x g = Idle \<Longrightarrow> lk x = None \<Longrightarrow>
    locked_step int63 reseed x (x\<lparr>lk := Some g, calls := (calls x)(g := Int63_locked)\<rparr>)"
| Int63_load: "calls x g = Int63_locked \<Longrightarrow>
    locked_step int63 reseed x (x\<lparr>calls := (calls x)(g := Int63_loaded (src x))\<rparr>)"
| Int63_store: "calls x g = Int63_loaded s \<Longrightarrow>
    locked_step int63 reseed x (x\<lparr>src := snd (int63 s), calls := (calls x)(g := Int63_stored (fst (int63 s)))\<rparr>)"
| Int63_Unlock: "calls x g = Int63_stored n \<Longrightarrow>
    locked_step int63 reseed x (x\<lparr>lk := None, calls := (calls x)(g := Idle), returned := returned x @ [(g, Int63Op n)]\<rparr>)"
| Seed_Lock: "calls x g = Idle \<Longrightarrow> lk x = None \<Longrightarrow>
    locked_step int63 reseed x (x\<lparr>lk := Some g, calls := (calls x)(g := Seed_locked seed)\<rparr>)"
| Seed_store: "calls x g = Seed_locked seed \<Longrightarrow>
    locked_step int63 reseed x (x\<lparr>src := reseed seed (src x), calls := (calls x)(g := Seed_stored seed)\<rparr>)"
| Seed_Unlock: "calls x g = Seed_stored seed \<Longrightarrow>
    locked_step int63 reseed x (x\<lparr>lk := None, calls := (calls x)(g := Idle), returned := returned x @ [(g, SeedOp seed)]\<rparr>)"

section \<open>One call after another\<close>

text \<open>The source used by one goroutine alone: the state after the calls, if they return these values.\<close>

fun replay :: "('s \<Rightarrow> int \<times> 's) \<Rightarrow> (int \<Rightarrow> 's \<Rightarrow> 's) \<Rightarrow> op list \<Rightarrow> 's \<Rightarrow> 's option" where
  "replay int63 reseed [] s = Some s"
| "replay int63 reseed (Int63Op n # ops) s = (if fst (int63 s) = n then replay int63 reseed ops (snd (int63 s)) else None)"
| "replay int63 reseed (SeedOp k # ops) s = replay int63 reseed ops (reseed k s)"

lemma replay_append: "replay int63 reseed (ops @ ops') s = Option.bind (replay int63 reseed ops s) (replay int63 reseed ops')"
  by (induction int63 reseed ops s rule: replay.induct) auto

text \<open>What the lock protects: the goroutine that holds it is the only one inside a call.\<close>

definition pending_op :: "'s lockedSource \<Rightarrow> op list" where
  "pending_op x = (case lk x of None \<Rightarrow> [] | Some g \<Rightarrow>
     (case calls x g of Int63_stored n \<Rightarrow> [Int63Op n] | Seed_stored k \<Rightarrow> [SeedOp k] | _ \<Rightarrow> []))"

definition locked_inv :: "('s \<Rightarrow> int \<times> 's) \<Rightarrow> (int \<Rightarrow> 's \<Rightarrow> 's) \<Rightarrow> 's \<Rightarrow> 's lockedSource \<Rightarrow> bool" where
  "locked_inv int63 reseed s0 x \<longleftrightarrow>
     (\<forall>g. lk x = Some g \<longleftrightarrow> calls x g \<noteq> Idle) \<and>
     (\<forall>g s. calls x g = Int63_loaded s \<longrightarrow> s = src x) \<and>
     replay int63 reseed (map snd (returned x) @ pending_op x) s0 = Some (src x)"

lemma locked_start_inv: "locked_inv int63 reseed s (locked_start s)"
  by (simp add: locked_inv_def locked_start_def pending_op_def)

lemma locked_holder: "locked_inv int63 reseed s0 x \<Longrightarrow> calls x g \<noteq> Idle \<Longrightarrow> lk x = Some g"
  by (simp add: locked_inv_def)

lemma locked_step_inv:
  assumes "locked_step int63 reseed x y" "locked_inv int63 reseed s0 x"
  shows "locked_inv int63 reseed s0 y"
  using assms
proof (induction rule: locked_step.induct)
  case (Int63_load x g)
  then show ?case using locked_holder [OF Int63_load.prems, of g] by (auto simp: locked_inv_def pending_op_def)
next
  case (Int63_store x g s)
  then show ?case using locked_holder [OF Int63_store.prems, of g] by (auto simp: locked_inv_def pending_op_def replay_append)
next
  case (Int63_Unlock x g n)
  then show ?case using locked_holder [OF Int63_Unlock.prems, of g] by (auto simp: locked_inv_def pending_op_def)
next
  case (Seed_store x g seed)
  then show ?case using locked_holder [OF Seed_store.prems, of g] by (auto simp: locked_inv_def pending_op_def replay_append)
next
  case (Seed_Unlock x g seed)
  then show ?case using locked_holder [OF Seed_Unlock.prems, of g] by (auto simp: locked_inv_def pending_op_def)
qed (auto simp: locked_inv_def pending_op_def)

lemma locked_run_inv: "(locked_step int63 reseed)\<^sup>*\<^sup>* (locked_start s) x \<Longrightarrow> locked_inv int63 reseed s x"
  by (induction rule: rtranclp_induct) (auto simp: locked_start_inv intro: locked_step_inv)

section \<open>Properties\<close>

text \<open>C22: the locked source is linearizable. However the calls of the goroutines interleave, no two of
  them are inside a call at once, and whenever the lock is free the calls that returned, in the
  order they did, are a run of the source used by one goroutine alone: every random number was
  handed out once and no change of the source's state is lost.\<close>

theorem lockedSource_linearizable:
  assumes "(locked_step int63 reseed)\<^sup>*\<^sup>* (locked_start s) x"
  shows "(\<forall>g h. calls x g \<noteq> Idle \<and> calls x h \<noteq> Idle \<longrightarrow> g = h) \<and>
    (lk x = None \<longrightarrow> replay int63 reseed (map snd (returned x)) s = Some (src x))"
  using locked_run_inv [OF assms] locked_holder [OF locked_run_inv [OF assms]]
  by (auto simp: locked_inv_def pending_op_def) (metis option.inject)

text \<open>A goroutine draws from a counter.\<close>

theorem lockedSource_linearizable_witness:
  "\<exists>x. (locked_step (\<lambda>s. (s, s + 1)) (\<lambda>k _. k))\<^sup>*\<^sup>* (locked_start (5::int)) x \<and> returned x = [(0, Int63Op 5)] \<and>
     replay (\<lambda>s. (s, s + 1)) (\<lambda>k _. k) [Int63Op 5] 5 = Some (src x)"
proof -
  let ?st = "locked_step (\<lambda>s::int. (s, s + 1)) (\<lambda>k _. k)" and ?x = "locked_start (5::int)"
  let ?x1 = "?x\<lparr>lk := Some 0, calls := (calls ?x)(0 := Int63_locked)\<rparr>"
  let ?x2 = "?x1\<lparr>calls := (calls ?x1)(0 := Int63_loaded (src ?x1))\<rparr>"
  let ?x3 = "?x2\<lparr>src := snd (5::int, 5 + 1 :: int), calls := (calls ?x2)(0 := Int63_stored (fst (5, 5 + 1 :: int)))\<rparr>"
  let ?x4 = "?x3\<lparr>lk := None, calls := (calls ?x3)(0 := Idle), returned := returned ?x3 @ [(0, Int63Op 5)]\<rparr>"
  have "?st ?x ?x1" by (rule Int63_Lock) (simp_all add: locked_start_def)
  moreover have "?st ?x1 ?x2" by (rule Int63_load) simp
  moreover have "?st ?x2 ?x3" by (rule Int63_store [of _ _ "5::int"]) (simp add: locked_start_def)
  moreover have "?st ?x3 ?x4" by (rule Int63_Unlock) simp
  ultimately have run: "?st\<^sup>*\<^sup>* ?x ?x4" by (meson rtranclp.rtrancl_into_rtrancl rtranclp.rtrancl_refl)
  have "returned ?x4 = [(0, Int63Op 5)]" "lk ?x4 = None" by (simp_all add: locked_start_def)
  then show ?thesis using lockedSource_linearizable [OF run] run by (intro exI [of _ ?x4]) simp
qed

end
