(* ===== verification/Spec2Isabelle.thy ===== *)
theory Spec2Isabelle
  imports Process Consul_Pipeline Concurrent_Zone Master_Feed Tools Locked_Source
begin

text \<open>
  A verification development for Mesos-DNS.

  \<^bold>\<open>The program.\<close> Mesos-DNS (\<open>src/main.go\<close>) follows the leading Mesos master, downloads its
  \<open>state.json\<close> once per refresh interval and whenever the masters change, turns it into address
  and service records, and hands these to its resolvers: a built-in DNS and HTTP server
  (\<open>resolvers/builtin\<close>) and a backend that registers services with the Consul agents of the
  slaves (\<open>resolvers/consul\<close>). Queries outside the Mesos domain are forwarded (\<open>exchanger\<close>).

  \<^bold>\<open>Conventions.\<close> A Go string is a list of bytes (\<open>string\<close>), an \<open>int\<close> is an HOL \<open>int\<close> unless its
  width matters (\<open>uint32\<close>, counters: words). A panic or an exit of the process is \<open>None\<close> of an
  option type; a pair of a value and an error is a pair, or a sum where only one of both is
  looked at. A Go map is an association list with distinct keys, and the order in which it is
  ranged over is a parameter, assumed to be a permutation where a theorem needs it. Mutated
  receivers are passed and returned. Log lines are left out (the loggers and the report of a panic
  are modelled), the counters are not. Loops are recursive functions, all of them terminating,
  over the list of what a loop receives where it runs for ever; no fuel is used. Goroutines that
  share state are transition systems in which any of them may move next. Code outside the repository is a
  parameter: name resolution, HTTP and JSON decoding, the clock, the random numbers, the DNS client
  and the length of a packed DNS message, the Consul API. Of the vendored DNS package the few
  functions on messages the program calls are modelled.

  \<^bold>\<open>Foundations.\<close>
  \<^item> \<open>Prelude\<close>: collections of theorems, \<open>map_opt\<close> and \<open>fold_opt\<close> (loops whose body may panic), lemmas
    on lists and association lists.
  \<^item> \<open>Go_Strings\<close>, \<open>Go_Net\<close>: the functions of packages strings, strconv and net the program calls,
    with their laws (splitting and joining, printing and reading numbers, \<open>ParseIP\<close>, host and port).
  \<^item> \<open>Hashing\<close>: SHA-1 and z-base-32 as \<open>hashString\<close> (\<open>records/generator.go\<close>) uses them.

  \<^bold>\<open>The generator of records\<close> (\<open>src/records\<close>).
  \<^item> \<open>Labels\<close> (\<open>labels/labels.go\<close>): mangling names into DNS labels, with the capacity of the
    re-sliced byte array; the shape of labels, idempotence, and the exact condition of the panic.
  \<^item> \<open>Mesos_State\<close> (\<open>state/state.go\<close>): tasks, frameworks, slaves, port ranges and task addresses.
  \<^item> \<open>Record_Store\<close>, \<open>Chains\<close> (\<open>generator.go\<close>, \<open>chains.go\<close>): the record maps, as an implementation of
    sets of records, and the chains of name generators.
  \<^item> \<open>Records_Config\<close> (\<open>config.go\<close>, \<open>validation.go\<close>): reading, completing and validating configurations.
  \<^item> \<open>Generator\<close>: \<open>InsertState\<close>, its parts, and \<open>ParseState\<close> with the search for the leader.
    \<open>Generator_Zone\<close>, \<open>Task_Zone\<close> and \<open>Insert_State\<close> give a declarative zone (a set of records) for
    frameworks, slaves, masters and tasks and prove that the code computes exactly this set,
    that running tasks are published and SRV targets resolve, and that it returns on every
    insertable state; \<open>Parse_State\<close> is about loading the state from the masters.

  \<^bold>\<open>Finding masters.\<close> \<open>Detect\<close> (\<open>detect/masters.go\<close>): the state machine that follows ZooKeeper; its
  list starts with the latest leader and holds it once. \<open>Master_Feed\<close> (\<open>detect/masters.go\<close>, \<open>main.go\<close>): the
  detector's goroutine, its channel and the event loop together; once the channel is drained the
  loop serves the list the detector sent last.

  \<^bold>\<open>The built-in resolver.\<close>
  \<^item> \<open>Dns_Message\<close>, \<open>Exchanger\<close> (\<open>exchanger/\<close>, counters of \<open>logging/\<close>): messages and forwarding.
  \<^item> \<open>Merge\<close> (\<open>utils/merge.go\<close>), \<open>Builtin_Config\<close> (\<open>resolvers/builtin/config.go\<close>, \<open>validation.go\<close>).
  \<^item> \<open>Resolver\<close>, \<open>Rest\<close> (\<open>resolvers/builtin/resolver.go\<close>, \<open>models/models.go\<close>): the DNS handlers, truncation, HTTP handlers.
    \<open>Resolver_Props\<close> specifies the reply to a question from the stored records and proves that
    \<open>HandleMesos\<close> sends it, and says how far truncation cuts a reply (one answer less than needed, at worst); \<open>Serving\<close> treats forwarding, the agreement of
    the HTTP and the DNS interface, and the counters over every sequence of requests and reloads.
  \<^item> \<open>Concurrent_Zone\<close> (\<open>resolver.go\<close>, \<open>main.go\<close>): queries that are answered while reloads run, with the
    lock around the records and the configuration the resolver shares with the main loop; every
    reply is that of a handler run on the records of one reload, up to the serial of an SOA record,
    and a waiting reload gets the lock.
  \<^item> \<open>Locked_Source\<close> (\<open>rand.go\<close>): concurrent calls of the locked random source are linearizable.
  \<^item> \<open>Dns_Test\<close> (\<open>dnstest/\<close>): the messages of the program's tests and the recorder; the handler passes
    such tests for all records. \<open>Tools\<close> (\<open>tools/main.go\<close>): the benchmark client.

  \<^bold>\<open>The Consul backend.\<close>
  \<^item> \<open>Consul_Utils\<close> (\<open>config.go\<close>, \<open>cache.go\<close>, \<open>utils.go\<close>), \<open>Consul\<close> (\<open>parser.go\<close>, dispatch and reload of
    \<open>consul.go\<close>), \<open>Consul_Agent\<close> (connections, the agent loop and the poller of \<open>consul.go\<close>).
  \<^item> \<open>Consul_Props\<close>, \<open>Consul_Sync\<close>: a round of an agent makes the registered services those of its
    record set; \<open>Consul_Dispatch\<close>: every record goes to the agent of its slave.
  \<^item> \<open>Consul_Loop\<close>: the whole goroutines \<open>consulAgent\<close> and \<open>pollConsulKVHC\<close> over what they receive; they do
    not panic, and an agent recovers from any failures. \<open>Consul_Service\<close>: from the state over the
    reload and the agent to a task registered with Consul.
  \<^item> \<open>Consul_Pipeline\<close>: the goroutines of a reload in any interleaving over their unbuffered channels end,
    and deliver what the sequential \<open>Reload\<close> delivers, with a poller that is always ready to send; the sends
    of two reloads can overtake each other.

  \<^bold>\<open>The main loop.\<close> \<open>Main_Loop\<close> (\<open>main.go\<close>, \<open>resolvers/resolvers.go\<close>): the start of the resolvers and a
  transition system of the events; the goroutines of a Consul reload are run to their end in the
  step that starts them (\<open>Consul_Pipeline\<close> has them step by step). The error channel is unbuffered: a send completes only with a
  receive, and only the loop receives. An invariant says what the resolvers serve. \<open>Servers\<close>: the
  goroutines and channels of the DNS and HTTP servers beside the loop; they implement a specification
  in which a group of servers reports one of its errors, and this refines the loop; a server that
  stops ends the program, while an error of the generator blocks it for ever. \<open>Process\<close> (\<open>utils/util.go\<close>, \<open>logging/logging.go\<close>, \<open>main.go\<close>): panics and
  their handlers, the loggers, and the start of \<open>main\<close> from the command line. This theory composes
  the parts: a task that runs in the state of the leader is answered by DNS after the next reload,
  with its address and with the ports of its service.

  \<^bold>\<open>Interfaces.\<close> Six locales state what one component relies on, each interpreted on the model's
  definitions: \<open>record_store\<close> (a set of records behind \<open>rrs.add\<close>), \<open>chain_sink\<close> (what a chain of name
  generators does to the zone it feeds), \<open>label_func\<close> (both label functions), \<open>observer\<close> (the decorators
  of exchangers), \<open>record_delta\<close> (the two difference functions of the Consul backend) and \<open>error_source\<close>
  (the goroutines of a group of servers, for DNS and for HTTP).

  \<^bold>\<open>Not modelled.\<close> The sockets, the packing of DNS messages and the routing of HTTP requests
  (libraries), JSON decoding, the text of log lines, the parser of flags, \<open>errorutil.Ignore\<close> (a call whose
  error is dropped), \<open>version.go\<close> (a constant), the templates of tests (\<open>records/tmpl\<close>) and build
  tools. Blocking on channels and locks is modelled where it is visible: in the main loop, its
  servers and its detector, around the records of a resolver, in a Consul reload and when a
  backend starts; real-time delays are not.
\<close>

section \<open>From a Mesos state to an answer\<close>

text \<open>A round that keeps the program running inserted the state of the leader into the records it serves.\<close>

lemma reload_inserts:
  assumes "main_phase (reloadResolvers re s) = Running" "BuiltinR res \<in> set (main_rs (reloadResolvers re s))"
    and "findMaster (renv_load re) (Config_Masters (main_config s)) = Some (sj, None)"
  shows "\<exists>rg. Res_rg res = rg \<and> InsertState (renv_resolve re) (renv_now re) sj (Config_Domain (main_config s))
     (Config_SOARname (main_config s)) (Config_Masters (main_config s)) (Config_IPSources (main_config s))
     (hostSpec (main_config s)) (NewRecordGenerator (main_config s)) = Some rg"
proof (cases rule: reloadResolvers_cases [of re s])
  case (reloaded rg rs)
  then have "Res_rg res = rg" using assms(2) by (simp add: serves_def)
  moreover have "RG_Config (NewRecordGenerator (main_config s)) = main_config s" by (simp add: NewRecordGenerator_def)
  ultimately show ?thesis
    using reloaded(3) assms(3) by (auto simp: ParseState_def Let_def bind_eq_Some_conv split: if_splits)
qed (use assms(1) in simp_all)

text \<open>An address of the zone is an answer.\<close>

lemma mesos_answers_address:
  assumes "a \<in> hosts_of A rg name" "ParseIP a = Some ip" "Question_Qtype q \<in> {TypeA, TypeANY}"
  shows "A_RR (rr_header name TypeA c) (To4 ip) \<in> set (mesos_answers c rg name q)"
proof -
  have "a \<in> set (rrs_look (RG_As rg) name)"
    using assms(1) by (simp add: hosts_of_def kind_rrs_def rrs_look_def rrs_hosts_def split: option.splits)
  moreover have "formatA c name a = Inr (A_RR (rr_header name TypeA c) (To4 ip))" using assms(2) by (simp add: formatA_Inr)
  ultimately have "A_RR (rr_header name TypeA c) (To4 ip) \<in> set (oks (map (formatA c name) (rrs_look (RG_As rg) name)))"
    by (force simp: oks_set)
  then show ?thesis using assms(3) by (simp add: mesos_answers_def)
qed

text \<open>A service target of the zone is an answer; its host and port are read back.\<close>

lemma formatSRV_target:
  assumes "CHR '':'' \<notin> set host" "CHR ''%'' \<notin> set host" "CHR ''['' \<notin> set host" "CHR '']'' \<notin> set host"
    and "0 \<le> n" "n \<le> 65535"
  shows "formatSRV c qname (host @ '':'' @ Itoa n) = Inr (SRV_RR (rr_header qname TypeSRV c) 0 0 (of_int n) host)"
proof -
  have "CHR '':'' \<notin> set (Itoa n)" "CHR ''['' \<notin> set (Itoa n)" "CHR '']'' \<notin> set (Itoa n)"
    using Itoa_set [of _ n] by fastforce+
  then have "SplitHostPort (host @ CHR '':'' # Itoa n) = (host, Itoa n, None)" by (intro SplitHostPort_plain assms)
  moreover have "Atoi (Itoa n) = (n, None)" using assms(5,6) by (intro Atoi_Itoa) (simp_all add: max_int64_def)
  ultimately show ?thesis by (simp add: formatSRV_def)
qed

lemma mesos_answers_service:
  assumes "target \<in> hosts_of SRV rg name" "formatSRV c (Question_Name q) target = Inr rr" "Question_Qtype q \<in> {TypeSRV, TypeANY}"
  shows "rr \<in> set (mesos_answers c rg name q)"
proof -
  have "target \<in> set (rrs_look (RG_SRVs rg) name)"
    using assms(1) by (simp add: hosts_of_def kind_rrs_def rrs_look_def rrs_hosts_def split: option.splits)
  then have "rr \<in> set (oks (map (formatSRV c (Question_Name q)) (rrs_look (RG_SRVs rg) name)))"
    using assms(2) by (force simp: oks_set)
  then show ?thesis using assms(3) by (simp add: mesos_answers_def)
qed

lemma hostSpec_Nil: "hostSpec c [] = Some []"
  by (simp add: hostSpec_def rfc952.spec_nil rfc1123.spec_nil)

text \<open>An answer the generator holds is in the reply, unless the reply is truncated.\<close>

lemma mesos_reply_holds:
  assumes "intn_ok intn" "orders_ok ords" "Msg_Question r = q # qs"
    and "rr \<in> set (mesos_answers (Res_config res) (Res_rg res) (ToLower (cleanWild (Question_Name q))) q)"
  shows "\<exists>t failed g. HandleMesos intn mlen ords res network r lg = (Some t, mesos_counted True failed lg, g) \<and>
    Msg_Rcode t = RcodeSuccess \<and> (Msg_Truncated t \<or> rr \<in> set (Msg_Answer t))"
proof -
  let ?as = "mesos_answers (Res_config res) (Res_rg res) (ToLower (cleanWild (Question_Name q))) q"
  have ne: "?as \<noteq> []" using assms(4) by auto
  from HandleMesos_spec [OF assms(1-3), of res mlen network lg] ne obtain m failed g where
    m: "mesos_message (Res_config res) (Res_rg res) (ToLower (cleanWild (Question_Name q))) q r m"
    and h: "HandleMesos intn mlen ords res network r lg =
      (Some (truncate_to mlen (size_limit network) m), mesos_counted True failed lg, g)" by auto
  from m have "mset (Msg_Answer m) = mset ?as" "Msg_Rcode m = RcodeSuccess"
    using mesos_answers_records [OF ne] by (auto simp: mesos_message_def)
  then have "rr \<in> set (Msg_Answer m)" "Msg_Rcode m = RcodeSuccess" using assms(4) mset_eq_setD by blast+
  then show ?thesis using h truncate_to_shape [of mlen "size_limit network" m]
    by (intro exI [of _ "truncate_to mlen (size_limit network) m"]) (auto simp: truncated_to_def cut_to_def split: if_splits)
qed

section \<open>Where the components do not fit\<close>

text \<open>A nil Consul backend ends the process at the first reload that has records.\<close>

lemma nil_backend_crashes:
  assumes "ParseState (renv_resolve re) (renv_load re) (renv_now re) (NewRecordGenerator (main_config s)) = Some (None, rg)"
    and "NilConsulR \<in> set (main_rs (s :: ('a, 'b) main_state))"
  shows "main_phase (reloadResolvers re s) = Exited"
proof -
  have "NilConsulR \<in> set rs \<Longrightarrow> map_opt (reload_one re rg) rs = None" for rs :: "('a, 'b) resolver list"
    by (induction rs) auto
  from this [OF assms(2)] show ?thesis using assms(1) by (simp add: reloadResolvers_def)
qed

text \<open>
  The detector writes the address of a master with an IPv6 address in brackets, and the generator
  cannot split it.
\<close>

lemma detected_IPv6_master_misread:
  "getProto (JoinHostPort ''fe80::1'' ''5050'') = (''[fe80'', '':1]:5050'', None)"
  by code_simp

section \<open>Properties\<close>

text \<open>C3: after a successful round of the main loop, every running task of the state that the leader
  reported is found by DNS: each builtin resolver answers an A (or ANY) query for the task's
  name below its framework and the domain, in any spelling of case, with NOERROR and, unless
  the reply had to be truncated, with the address of the task that the configured sources
  give.\<close>

theorem running_task_answered:
  assumes "main_phase (reloadResolvers re s) = Running" "BuiltinR res \<in> set (main_rs (reloadResolvers re s))"
    and "findMaster (renv_load re) (Config_Masters (main_config s)) = Some (sj, None)"
    and "f \<in> set (State_Frameworks sj)" "task \<in> set (Framework_Tasks f)" "Task_State task = ''TASK_RUNNING''"
    and "slave_ips (renv_resolve re) (hostSpec (main_config s)) (State_Slaves sj) (Task_SlaveID task) = Some sip"
    and "DomainFrag (Framework_Name f) Sep (hostSpec (main_config s)) = Some fname"
    and "Ports (Task_Resources task) = Some ports"
    and "ParseIP (Task_IP (task\<lparr>Task_SlaveIP := sip\<rparr>) (Config_IPSources (main_config s))) = Some ip"
    and "intn_ok intn" "orders_ok ords" "Msg_Question r = q # qs" "Question_Qtype q \<in> {TypeA, TypeANY}"
    and name: "ToLower (cleanWild (Question_Name q)) =
      task_label (hostSpec (main_config s)) task @ ''.'' @ fname @ ''.'' @ Config_Domain (main_config s) @ ''.''"
  shows "\<exists>t failed g. HandleMesos intn mlen ords res network r lg = (Some t, mesos_counted True failed lg, g) \<and>
    Msg_Rcode t = RcodeSuccess \<and>
    (Msg_Truncated t \<or>
     A_RR (rr_header (ToLower (cleanWild (Question_Name q))) TypeA (Res_config res)) (To4 ip) \<in> set (Msg_Answer t))"
proof -
  let ?a = "Task_IP (task\<lparr>Task_SlaveIP := sip\<rparr>) (Config_IPSources (main_config s))"
  have "?a \<noteq> []" using assms(10) ParseIP_Nil by force
  obtain rg where rg: "Res_rg res = rg" and ins: "InsertState (renv_resolve re) (renv_now re) sj (Config_Domain (main_config s))
     (Config_SOARname (main_config s)) (Config_Masters (main_config s)) (Config_IPSources (main_config s))
     (hostSpec (main_config s)) (NewRecordGenerator (main_config s)) = Some rg"
    using reload_inserts [OF assms(1-3)] by blast
  have "(A, ToLower (cleanWild (Question_Name q)), ?a) \<in> zone rg"
    using running_task_zone [OF ins assms(4-9)] \<open>?a \<noteq> []\<close> unfolding name
    by (auto simp: context_body_zone_def entry_def)
  then have "?a \<in> hosts_of A (Res_rg res) (ToLower (cleanWild (Question_Name q)))" by (simp add: zone_def rg)
  from mesos_reply_holds [OF assms(11-13) mesos_answers_address [OF this assms(10,14)]] show ?thesis .
qed

definition demo_task_query :: Msg where
  "demo_task_query = new_Msg\<lparr>Msg_Id := 9,
     Msg_Question := [\<lparr>Question_Name = ''nginx.Marathon.mesos.'', Question_Qtype = TypeA, Question_Qclass = ClassINET\<rparr>]\<rparr>"

lemma demo_task_facts:
  "demo_framework \<in> set (State_Frameworks demo_state)" "demo_task \<in> set (Framework_Tasks demo_framework)"
  "Task_State demo_task = ''TASK_RUNNING''" "Task_SlaveID demo_task = ''s-1''"
  "DomainFrag (Framework_Name demo_framework) Sep RFC1123 = Some ''marathon''"
  "Ports (Task_Resources demo_task) = Some [''31000'', ''31001'']" "task_label RFC1123 demo_task = ''nginx''"
  by (simp_all add: demo_state_def demo_framework_def demo_task_def demo_ports demo_names task_label_def HasDiscoveryInfo_def lab_def)

lemma demo_config_facts:
  "Config_Masters demo_main_config = [''1.2.3.4:5050'']" "hostSpec demo_main_config = RFC1123"
  "Config_IPSources demo_main_config = [''host'']" "Config_Domain demo_main_config = ''mesos''"
  "renv_load demo_round = demo_load"
  by (simp_all add: demo_round_def demo_main_config_def demo_config_def NewConfig_def hostSpec_def)

lemma demo_intn: "intn_ok (\<lambda>g n. (0, g))"
  by (simp add: intn_ok_def)

lemma demo_reloaded:
  obtains s0 pending w' res where "main_start demo_env id True demo_main_config [] = Normal (s0, pending, w')"
    "main_config s0 = demo_main_config" "main_phase (reloadResolvers demo_round s0) = Running"
    "main_rs (reloadResolvers demo_round s0) = [BuiltinR res]"
proof -
  obtain s0 pending w' r where s0: "main_start demo_env id True demo_main_config [] = Normal (s0, pending, w')"
    "main_rs s0 = [BuiltinR r]" using demo_start [of demo_main_config "Config_Masters demo_main_config"] by auto
  note start = main_start_facts [OF s0(1)]
  obtain rg where "ParseState (\<lambda>_. None) demo_load 7 (NewRecordGenerator demo_main_config) = Some (None, rg)"
    using demo_ParseState unfolding demo_main_config_def by blast
  then have "main_phase (reloadResolvers demo_round s0) = Running"
    "main_rs (reloadResolvers demo_round s0) = [BuiltinR (Reload rg r)]"
    using start s0(2) by (simp_all add: reloadResolvers_def demo_round_def)
  then show ?thesis using that s0(1) start(2) by blast
qed

theorem running_task_answered_witness:
  "\<exists>s0 pending w' res t failed g. main_start demo_env id True demo_main_config [] = Normal (s0, pending, w') \<and>
     main_rs (reloadResolvers demo_round s0) = [BuiltinR res] \<and>
     HandleMesos (\<lambda>g n. (0, g)) (\<lambda>_. 60) demo_orders res ''udp'' demo_task_query CurLog =
       (Some t, mesos_counted True failed CurLog, g) \<and>
     Msg_Rcode t = RcodeSuccess \<and>
     (Msg_Truncated t \<or> A_RR (rr_header ''nginx.marathon.mesos.'' TypeA (Res_config res)) (Some [1, 2, 3, 11]) \<in> set (Msg_Answer t))"
proof -
  obtain s0 pending w' res where s0: "main_start demo_env id True demo_main_config [] = Normal (s0, pending, w')"
    "main_config s0 = demo_main_config" "main_phase (reloadResolvers demo_round s0) = Running"
    "main_rs (reloadResolvers demo_round s0) = [BuiltinR res]" by (rule demo_reloaded)
  have name: "ToLower (cleanWild ''nginx.Marathon.mesos.'') = ''nginx.marathon.mesos.''" by code_simp
  have To4: "To4 (v4InV6Prefix @ [1, 2, 3, 11]) = Some [1, 2, 3, 11]" by code_simp
  have q: "Msg_Question demo_task_query =
      \<lparr>Question_Name = ''nginx.Marathon.mesos.'', Question_Qtype = TypeA, Question_Qclass = ClassINET\<rparr> # []"
    by (simp add: demo_task_query_def)
  have "BuiltinR res \<in> set (main_rs (reloadResolvers demo_round s0))" by (simp add: s0(4))
  note answered = running_task_answered [OF s0(3) this _ demo_task_facts(1-3) _ _ demo_task_facts(6) _ demo_intn demo_orders_ok q,
      unfolded s0(2) demo_config_facts demo_task_facts demo_slave_ips Question.simps name,
      OF demo_findMaster refl refl, unfolded demo_task_ip demo_parse, OF refl, unfolded To4]
  have "TypeA \<in> {TypeA, TypeANY}" "''nginx.marathon.mesos.'' = ''nginx'' @ ''.'' @ ''marathon'' @ ''.'' @ ''mesos'' @ ''.''" by simp_all
  from answered [OF this, of "\<lambda>_. 60" "''udp''" CurLog] show ?thesis using s0(1,4) by blast
qed

text \<open>C15: after a successful round of the main loop, the ports of every running task are found by DNS
  too: each builtin resolver answers an SRV (or ANY) query for the task's service below its
  framework, the word slave and the domain, over TCP or UDP, with NOERROR and, unless the reply
  had to be truncated, for every host port with a record of that port and of the canonical
  name of the task on its slave.\<close>

theorem running_task_service_answered:
  assumes "main_phase (reloadResolvers re s) = Running" "BuiltinR res \<in> set (main_rs (reloadResolvers re s))"
    and "findMaster (renv_load re) (Config_Masters (main_config s)) = Some (sj, None)"
    and "f \<in> set (State_Frameworks sj)" "task \<in> set (Framework_Tasks f)" "Task_State task = ''TASK_RUNNING''"
    and "slave_ips (renv_resolve re) (hostSpec (main_config s)) (State_Slaves sj) (Task_SlaveID task) = Some sip"
    and "DomainFrag (Framework_Name f) Sep (hostSpec (main_config s)) = Some fname"
    and "Ports (Task_Resources task) = Some ports" "Itoa n \<in> set ports" "0 \<le> n" "n \<le> 65535"
    and host_def: "host = canonical_name (hostSpec (main_config s)) task fname @ ''.slave.'' @ Config_Domain (main_config s) @ ''.''"
    and host: "CHR '':'' \<notin> set host" "CHR ''%'' \<notin> set host" "CHR ''['' \<notin> set host" "CHR '']'' \<notin> set host"
    and "intn_ok intn" "orders_ok ords" "Msg_Question r = q # qs" "Question_Qtype q \<in> {TypeSRV, TypeANY}"
    and proto: "proto \<in> {''tcp'', ''udp''}"
    and name: "ToLower (cleanWild (Question_Name q)) =
      ''_'' @ task_label (hostSpec (main_config s)) task @ ''._'' @ proto @ ''.'' @ fname @ ''.slave.'' @ Config_Domain (main_config s) @ ''.''"
  shows "\<exists>t failed g. HandleMesos intn mlen ords res network r lg = (Some t, mesos_counted True failed lg, g) \<and>
    Msg_Rcode t = RcodeSuccess \<and>
    (Msg_Truncated t \<or>
     SRV_RR (rr_header (Question_Name q) TypeSRV (Res_config res)) 0 0 (of_int n) host \<in> set (Msg_Answer t))"
proof -
  obtain rg where rg: "Res_rg res = rg" and ins: "InsertState (renv_resolve re) (renv_now re) sj (Config_Domain (main_config s))
     (Config_SOARname (main_config s)) (Config_Masters (main_config s)) (Config_IPSources (main_config s))
     (hostSpec (main_config s)) (NewRecordGenerator (main_config s)) = Some rg"
    using reload_inserts [OF assms(1-3)] by blast
  have "host @ '':'' @ Itoa n \<in> hosts_of SRV (Res_rg res) (ToLower (cleanWild (Question_Name q)))"
    using running_task_srv [OF ins assms(4-9) hostSpec_Nil assms(10) proto] unfolding name host_def rg by simp
  from mesos_answers_service [OF this formatSRV_target [OF host assms(11,12)] assms(21)]
  show ?thesis by (rule mesos_reply_holds [OF assms(18-20)])
qed

definition demo_service_query :: Msg where
  "demo_service_query = new_Msg\<lparr>Msg_Id := 9,
     Msg_Question := [\<lparr>Question_Name = ''_nginx._tcp.marathon.slave.mesos.'', Question_Qtype = TypeSRV, Question_Qclass = ClassINET\<rparr>]\<rparr>"

lemma demo_canonical_host:
  "set (canonical_name RFC1123 demo_task ''marathon'' @ ''.slave.'' @ ''mesos'' @ ''.'') \<inter> set '':%[]'' = {}"
proof -
  have "\<forall>c \<in> set '':%[]''. \<not> (97 \<le> byte c \<and> byte c \<le> 122) \<and> \<not> is_digit c" by code_simp
  then have "set (hashString x) \<inter> set '':%[]'' = {}" for x using hashString_chars [of _ x] by blast
  moreover have "set (slaveIDTail ''s-1'') \<inter> set '':%[]'' = {}" by code_simp
  ultimately show ?thesis by (simp add: canonical_name_def demo_task_facts Int_Un_distrib2)
qed

theorem running_task_service_answered_witness:
  "\<exists>s0 pending w' res t failed g host. main_start demo_env id True demo_main_config [] = Normal (s0, pending, w') \<and>
     main_rs (reloadResolvers demo_round s0) = [BuiltinR res] \<and>
     HandleMesos (\<lambda>g n. (0, g)) (\<lambda>_. 60) demo_orders res ''udp'' demo_service_query CurLog =
       (Some t, mesos_counted True failed CurLog, g) \<and>
     Msg_Rcode t = RcodeSuccess \<and>
     (Msg_Truncated t \<or>
      SRV_RR (rr_header ''_nginx._tcp.marathon.slave.mesos.'' TypeSRV (Res_config res)) 0 0 31000 host \<in> set (Msg_Answer t))"
proof -
  obtain s0 pending w' res where s0: "main_start demo_env id True demo_main_config [] = Normal (s0, pending, w')"
    "main_config s0 = demo_main_config" "main_phase (reloadResolvers demo_round s0) = Running"
    "main_rs (reloadResolvers demo_round s0) = [BuiltinR res]" by (rule demo_reloaded)
  have name: "ToLower (cleanWild ''_nginx._tcp.marathon.slave.mesos.'') = ''_nginx._tcp.marathon.slave.mesos.''" by code_simp
  have q: "Msg_Question demo_service_query =
      \<lparr>Question_Name = ''_nginx._tcp.marathon.slave.mesos.'', Question_Qtype = TypeSRV, Question_Qclass = ClassINET\<rparr> # []"
    by (simp add: demo_service_query_def)
  have port: "Itoa 31000 \<in> set [''31000'', ''31001'']" "(0::int) \<le> 31000" "(31000::int) \<le> 65535" by (simp_all add: Itoa_eval)
  have "BuiltinR res \<in> set (main_rs (reloadResolvers demo_round s0))" by (simp add: s0(4))
  note answered = running_task_service_answered [OF s0(3) this _ demo_task_facts(1-3) _ _ demo_task_facts(6) port refl _ _ _ _ demo_intn
      demo_orders_ok q, unfolded s0(2) demo_config_facts demo_task_facts demo_slave_ips Question.simps name,
      OF demo_findMaster refl refl]
  have "\<exists>t failed g. HandleMesos (\<lambda>g n. (0, g)) (\<lambda>_. 60) demo_orders res ''udp'' demo_service_query CurLog =
       (Some t, mesos_counted True failed CurLog, g) \<and> Msg_Rcode t = RcodeSuccess \<and>
     (Msg_Truncated t \<or> SRV_RR (rr_header ''_nginx._tcp.marathon.slave.mesos.'' TypeSRV (Res_config res)) 0 0 (of_int 31000)
        (canonical_name RFC1123 demo_task ''marathon'' @ ''.slave.'' @ ''mesos'' @ ''.'') \<in> set (Msg_Answer t))"
    using demo_canonical_host by (intro answered [where proto = "''tcp''"]) auto
  then show ?thesis using s0(1,4) by (simp only: of_int_numeral) blast
qed

end
